(* ===== verification/Stack_Prelude.thy ===== *)
theory Stack_Prelude
  imports Main "HOL-Library.Word"
begin

text \<open>
  The shared layer of the development: the machine types of the Go sources, the byte-level reads
  and writes of \<^verbatim>\<open>encoding/binary\<close> on slices, the little- and big-endian codecs with their
  round-trip laws, strings as byte sequences, the sequencing of fallible operations, and the
  generic facts on lists and modular positions that the component theories use.
\<close>

unbundle bit_operations_syntax

section \<open>Machine types\<close>

text \<open>
  An unsigned integer is a word of its width.  An \<^verbatim>\<open>int64\<close> is an \<open>int\<close>; where an operation of
  the source can leave its range the wrap-around \<open>i64\<close> is written out.
\<close>

type_synonym byte = "8 word"
type_synonym u32 = "32 word"
type_synonym u64 = "64 word"
type_synonym int64 = int

definition i64 :: "int \<Rightarrow> int64" where
  "i64 x = signed_take_bit 63 x"

definition i64_range :: "int \<Rightarrow> bool" where
  "i64_range x \<longleftrightarrow> - (2 ^ 63) \<le> x \<and> x < 2 ^ 63"

named_theorems stack_simps \<open>unfolding rules of the model's record-like helpers\<close>
named_theorems byte_simps \<open>reads and writes of byte sequences\<close>

lemma i64_id: "i64_range x \<Longrightarrow> i64 x = x"
  by (simp add: i64_def i64_range_def signed_take_bit_int_eq_self)

lemma i64_in_range: "i64_range (i64 x)"
  using signed_take_bit_int_greater_eq_minus_exp [of 63 x] signed_take_bit_int_less_exp [of 63 x]
  by (simp add: i64_def i64_range_def)

section \<open>Fallible operations\<close>

text \<open>\<open>and_then r f\<close> runs \<open>f\<close> on the value of \<open>r\<close>, or stops at the error of \<open>r\<close>: the
  \<^verbatim>\<open>if err != nil { return err }\<close> of the sources.\<close>

definition and_then :: "'e + 'a \<Rightarrow> ('a \<Rightarrow> 'e + 'b) \<Rightarrow> 'e + 'b" where
  "and_then r f = (case r of Inl e \<Rightarrow> Inl e | Inr a \<Rightarrow> f a)"

lemma and_then_simps [simp]:
  "and_then (Inl e) f = Inl e"
  "and_then (Inr a) f = f a"
  by (simp_all add: and_then_def)

lemma and_then_Inr_iff:
  "and_then r f = Inr b \<longleftrightarrow> (\<exists>a. r = Inr a \<and> f a = Inr b)"
  by (cases r) simp_all

section \<open>Slices of byte sequences\<close>

text \<open>\<open>slice_at i n d\<close> is the Go expression \<^verbatim>\<open>d[i:i+n]\<close>; \<open>None\<close> is the run-time panic of an
  out-of-range slice.  \<open>put_at i bs d\<close> writes \<open>bs\<close> over the slice at \<open>i\<close>.\<close>

definition slice_at :: "nat \<Rightarrow> nat \<Rightarrow> 'a list \<Rightarrow> 'a list option" where
  "slice_at i n d = (if i + n \<le> length d then Some (take n (drop i d)) else None)"

definition put_at :: "nat \<Rightarrow> 'a list \<Rightarrow> 'a list \<Rightarrow> 'a list option" where
  "put_at i bs d =
     (if i + length bs \<le> length d then Some (take i d @ bs @ drop (i + length bs) d) else None)"

lemma put_at_length: "put_at i bs d = Some d' \<Longrightarrow> length d' = length d"
  by (auto simp: put_at_def split: if_splits)

lemma put_at_Some: "i + length bs \<le> length d \<Longrightarrow> \<exists>d'. put_at i bs d = Some d'"
  by (simp add: put_at_def)

lemma put_at_same: "put_at i bs d = Some d' \<Longrightarrow> slice_at i (length bs) d' = Some bs"
  by (auto simp: put_at_def slice_at_def split: if_splits)

lemma put_at_nth:
  assumes "put_at i bs d = Some d'" and "j < i \<or> i + length bs \<le> j"
  shows "d' ! j = d ! j"
proof -
  from assms(1) have l: "i + length bs \<le> length d"
    and d': "d' = take i d @ bs @ drop (i + length bs) d"
    by (auto simp: put_at_def split: if_splits)
  from assms(2) show ?thesis
    using l by (auto simp: d' nth_append)
qed

lemma slice_at_cong:
  assumes "length d' = length d" and "\<And>j. i \<le> j \<Longrightarrow> j < i + n \<Longrightarrow> d' ! j = d ! j"
  shows "slice_at i n d' = slice_at i n d"
proof (cases "i + n \<le> length d")
  case True
  have "take n (drop i d') = take n (drop i d)"
    by (rule nth_equalityI) (use True assms in auto)
  with True assms(1) show ?thesis by (simp add: slice_at_def)
qed (simp add: slice_at_def assms(1))

lemma put_at_other:
  assumes "put_at i bs d = Some d'" and "j + n \<le> i \<or> i + length bs \<le> j"
  shows "slice_at j n d' = slice_at j n d"
proof (rule slice_at_cong)
  show "length d' = length d" using assms(1) by (rule put_at_length)
  show "d' ! k = d ! k" if "j \<le> k" "k < j + n" for k
    by (rule put_at_nth [OF assms(1)]) (use assms(2) that in auto)
qed

lemma slice_at_Some: "i + n \<le> length d \<Longrightarrow> \<exists>bs. slice_at i n d = Some bs \<and> length bs = n"
  by (simp add: slice_at_def)

lemma slice_at_length: "slice_at i n d = Some bs \<Longrightarrow> length bs = n"
  by (auto simp: slice_at_def split: if_splits)

section \<open>Byte order\<close>

text \<open>\<open>le_bytes n w\<close> are the \<open>n\<close> low bytes of \<open>w\<close>, least significant first
  (\<^verbatim>\<open>binary.LittleEndian.PutUint32\<close> and \<^verbatim>\<open>PutUint64\<close>); \<open>le_word\<close> reads them back
  (\<^verbatim>\<open>binary.LittleEndian.Uint32\<close>, \<^verbatim>\<open>Uint64\<close>).  The big-endian forms are the reversals.\<close>

fun le_bytes :: "nat \<Rightarrow> 'a::len word \<Rightarrow> byte list" where
  "le_bytes 0 w = []"
| "le_bytes (Suc n) w = ucast w # le_bytes n (drop_bit 8 w)"

fun le_word :: "byte list \<Rightarrow> 'a::len word" where
  "le_word [] = 0"
| "le_word (b # bs) = ucast b OR push_bit 8 (le_word bs)"

definition be_bytes :: "nat \<Rightarrow> 'a::len word \<Rightarrow> byte list" where
  "be_bytes n w = rev (le_bytes n w)"

definition be_word :: "byte list \<Rightarrow> 'a::len word" where
  "be_word bs = le_word (rev bs)"

lemma length_le_bytes [simp]: "length (le_bytes n w) = n"
  by (induction n arbitrary: w) simp_all

lemma length_be_bytes [simp]: "length (be_bytes n w) = n"
  by (simp add: be_bytes_def)

lemma le_word_bytes_take: "le_word (le_bytes n w) = take_bit (8 * n) w"
proof (induction n arbitrary: w)
  case 0
  then show ?case by simp
next
  case (Suc n)
  show ?case
    by (rule bit_word_eqI) (auto simp: Suc bit_simps)
qed

lemma le_word_bytes: "LENGTH('a) \<le> 8 * n \<Longrightarrow> le_word (le_bytes n w) = (w :: 'a::len word)"
  by (simp add: le_word_bytes_take take_bit_word_eq_self)

lemma be_word_bytes: "LENGTH('a) \<le> 8 * n \<Longrightarrow> be_word (be_bytes n w) = (w :: 'a::len word)"
  by (simp add: be_word_def be_bytes_def le_word_bytes)

lemma le_word_bytes_32 [simp]: "le_word (le_bytes 4 w) = (w :: u32)"
  by (simp add: le_word_bytes)

lemma le_word_bytes_64 [simp]: "le_word (le_bytes 8 w) = (w :: u64)"
  by (simp add: le_word_bytes)

lemma be_word_bytes_32 [simp]: "be_word (be_bytes 4 w) = (w :: u32)"
  by (simp add: be_word_bytes)

lemma be_word_bytes_64 [simp]: "be_word (be_bytes 8 w) = (w :: u64)"
  by (simp add: be_word_bytes)

section \<open>Strings and bytes\<close>

text \<open>A Go string is a byte sequence; \<open>string_bytes\<close> and \<open>bytes_string\<close> are the conversions
  \<^verbatim>\<open>[]byte(s)\<close> and \<^verbatim>\<open>string(b)\<close>.\<close>

definition string_bytes :: "string \<Rightarrow> byte list" where
  "string_bytes s = map (\<lambda>c. of_nat (of_char c)) s"

definition bytes_string :: "byte list \<Rightarrow> string" where
  "bytes_string bs = map (\<lambda>b. char_of (unat b)) bs"

lemma length_string_bytes [simp]: "length (string_bytes s) = length s"
  by (simp add: string_bytes_def)

lemma bytes_string_bytes [simp]: "bytes_string (string_bytes s) = s"
proof -
  have "char_of (unat (of_nat (of_char c) :: byte)) = c" for c :: char
  proof -
    have "(of_char c :: nat) < 256" by simp
    then show ?thesis by (simp add: unat_of_nat take_bit_nat_eq_self)
  qed
  then show ?thesis by (simp add: string_bytes_def bytes_string_def o_def)
qed

section \<open>Signed 64-bit values as words\<close>

text \<open>\<^verbatim>\<open>uint64(x)\<close> of an \<^verbatim>\<open>int64\<close> and back.\<close>

lemma sint_word_of_int_i64: "i64_range x \<Longrightarrow> sint (word_of_int x :: u64) = x"
  by (simp add: i64_range_def sint_sbintrunc' signed_take_bit_int_eq_self)

section \<open>Sorted lists\<close>

lemma sort_key_strict:
  fixes f :: "'a \<Rightarrow> 'b::linorder"
  assumes "distinct (map f xs)"
  shows "sorted_wrt (\<lambda>a b. f a < f b) (sort_key f xs)"
proof -
  have "distinct (map f (sort_key f xs))" using assms
    by (metis distinct_map distinct_sort set_sort)
  then have "sorted_wrt (<) (map f (sort_key f xs))"
    by (metis sorted_sort_key strict_sorted_iff)
  then show ?thesis by (simp add: sorted_wrt_map)
qed

end
