(* ===== verification/Oplog_Ring.thy ===== *)
theory Oplog_Ring
  imports Stack_Prelude
begin

text \<open>
  The shared-memory oplog ring (\<^verbatim>\<open>internal/ring/ring.go\<close>): the file layout, its creation and
  opening, the producer's \<open>Append\<close> and the consumer's \<open>Pop\<close>.  The state is the mapped file
  itself; the two cursors are read from and written to its header as the code does through
  \<^verbatim>\<open>headPtr\<close> and \<^verbatim>\<open>tailPtr\<close> (on a little-endian host).  The main results: under the ring
  invariant no slice expression panics, \<open>Append\<close> adds its payload at the end of the abstract
  queue of payloads, and \<open>Pop\<close> returns and removes its first element.
\<close>

section \<open>Constants and errors\<close>

definition magic :: u32 where "magic = 0x4F524E47"
definition version :: u32 where "version = 1"
definition headerSize :: nat where "headerSize = 64"
definition skipMarker :: u32 where "skipMarker = 0xFFFFFFFF"
definition maxPayload :: u32 where "maxPayload = 0xFFFFFFFE"
definition minCapacity :: u64 where "minCapacity = 4096"

lemmas ring_consts = magic_def version_def headerSize_def skipMarker_def maxPayload_def minCapacity_def

text \<open>The errors of the package, and the run-time panics the slice and modulus expressions can
  raise (\<open>Panic\<close>), so that their absence can be stated.\<close>

datatype ring_error =
    ErrPayloadTooLarge
  | ErrRingFull
  | ErrBogusLength u32 u64
  | ErrCrossesBoundary u64
  | ErrCrcMismatch u64 u32 u32
  | ErrCapacityBelowMinimum u64
  | ErrFileTooSmall nat
  | ErrBadMagic u32
  | ErrUnsupportedVersion u32
  | ErrSizeMismatch int nat
  | ErrOS string
  | Panic

section \<open>CRC-32C\<close>

text \<open>\<^verbatim>\<open>crc32.Checksum\<close> with the Castagnoli table: the reflected polynomial \<^verbatim>\<open>0x82F63B78\<close>,
  initial value and final complement all ones.\<close>

definition crc_shift :: "u32 \<Rightarrow> u32" where
  "crc_shift c = (if bit c 0 then drop_bit 1 c XOR 0x82F63B78 else drop_bit 1 c)"

definition crc_byte :: "u32 \<Rightarrow> byte \<Rightarrow> u32" where
  "crc_byte c b = (crc_shift ^^ 8) (c XOR ucast b)"

definition crc32c :: "byte list \<Rightarrow> u32" where
  "crc32c bs = NOT (foldl crc_byte (NOT 0) bs)"

section \<open>The mapped file\<close>

record mapping =
  data :: "byte list"
  capacity :: u64

text \<open>\<open>panics o\<close> turns an out-of-range slice into the panic it is.\<close>

definition panics :: "'a option \<Rightarrow> ring_error + 'a" where
  "panics r = (case r of None \<Rightarrow> Inl Panic | Some a \<Rightarrow> Inr a)"

lemma panics_simps [simp]: "panics None = Inl Panic" "panics (Some a) = Inr a"
  by (simp_all add: panics_def)

definition getUint32 :: "byte list \<Rightarrow> nat \<Rightarrow> u32 option" where
  "getUint32 d i = map_option le_word (slice_at i 4 d)"

definition getUint64 :: "byte list \<Rightarrow> nat \<Rightarrow> u64 option" where
  "getUint64 d i = map_option le_word (slice_at i 8 d)"

definition putUint32 :: "nat \<Rightarrow> u32 \<Rightarrow> byte list \<Rightarrow> byte list option" where
  "putUint32 i w d = put_at i (le_bytes 4 w) d"

definition putUint64 :: "nat \<Rightarrow> u64 \<Rightarrow> byte list \<Rightarrow> byte list option" where
  "putUint64 i w d = put_at i (le_bytes 8 w) d"

definition alignUp :: "u64 \<Rightarrow> u64" where
  "alignUp n = (if n mod 8 = 0 then n else n + (8 - n mod 8))"

text \<open>\<open>Create io capacity\<close> is the content of the new file.  \<open>io total\<close> is the error the
  operating system reports for opening, truncating and mapping a file of \<open>total\<close> bytes, if any.\<close>

definition Create :: "(int \<Rightarrow> string option) \<Rightarrow> u64 \<Rightarrow> ring_error + byte list" where
  "Create io cap =
     (if cap < minCapacity then Inl (ErrCapacityBelowMinimum cap)
      else let cap = (if cap mod 8 \<noteq> 0 then cap + (8 - cap mod 8) else cap);
               total = i64 (int headerSize + sint cap)
           in case io total of
                Some e \<Rightarrow> Inl (ErrOS e)
              | None \<Rightarrow> panics
                  (Option.bind (putUint32 0 magic (replicate (nat total) 0)) (\<lambda>d.
                   Option.bind (putUint32 4 version d) (\<lambda>d.
                   Option.bind (putUint64 8 cap d) (\<lambda>d.
                   Option.bind (putUint64 16 0 d) (\<lambda>d. putUint64 24 0 d))))))"

definition openMapping :: "(nat \<Rightarrow> string option) \<Rightarrow> byte list \<Rightarrow> ring_error + mapping" where
  "openMapping io file =
     (case io (length file) of Some e \<Rightarrow> Inl (ErrOS e) | None \<Rightarrow>
      if length file < headerSize then Inl (ErrFileTooSmall (length file))
      else and_then (panics (getUint32 file 0)) (\<lambda>gotMagic.
           and_then (panics (getUint32 file 4)) (\<lambda>gotVersion.
           and_then (panics (getUint64 file 8)) (\<lambda>cap.
             if gotMagic \<noteq> magic then Inl (ErrBadMagic gotMagic)
             else if gotVersion \<noteq> version then Inl (ErrUnsupportedVersion gotVersion)
             else if i64 (int headerSize + sint cap) \<noteq> int (length file)
                  then Inl (ErrSizeMismatch (i64 (int headerSize + sint cap)) (length file))
             else Inr \<lparr>data = file, capacity = cap\<rparr>))))"

section \<open>Cursors\<close>

text \<open>The mapping is at least \<open>headerSize\<close> bytes (\<open>openMapping\<close> checks it), so the two cursor
  words always exist; outside a valid mapping the model reads 0.\<close>

definition loadHead :: "mapping \<Rightarrow> u64" where
  "loadHead m = le_word (take 8 (drop 16 (data m)))"

definition loadTail :: "mapping \<Rightarrow> u64" where
  "loadTail m = le_word (take 8 (drop 24 (data m)))"

definition storeHead :: "u64 \<Rightarrow> mapping \<Rightarrow> mapping" where
  "storeHead w m = m\<lparr>data := take 16 (data m) @ le_bytes 8 w @ drop 24 (data m)\<rparr>"

definition storeTail :: "u64 \<Rightarrow> mapping \<Rightarrow> mapping" where
  "storeTail w m = m\<lparr>data := take 24 (data m) @ le_bytes 8 w @ drop 32 (data m)\<rparr>"

definition Pending :: "mapping \<Rightarrow> u64" where
  "Pending m = loadTail m - loadHead m"

section \<open>The producer\<close>

definition writeSkip :: "nat \<Rightarrow> byte list \<Rightarrow> byte list option" where
  "writeSkip base d =
     Option.bind (putUint32 base skipMarker d) (\<lambda>d. putUint32 (base + 4) 0 d)"

definition writeEntry :: "nat \<Rightarrow> u32 \<Rightarrow> byte list \<Rightarrow> byte list \<Rightarrow> byte list option" where
  "writeEntry base payloadLen payload d =
     Option.bind (putUint32 base payloadLen d) (\<lambda>d.
     Option.bind (putUint32 (base + 4) (crc32c payload) d) (\<lambda>d.
       if base + 8 + unat payloadLen \<le> length d
       then put_at (base + 8) (take (unat payloadLen) payload) d else None))"

definition Append :: "mapping \<Rightarrow> byte list \<Rightarrow> ring_error + mapping" where
  "Append m payload =
     (let payloadLen = (of_nat (length payload) :: u32) in
      if unat payloadLen > unat maxPayload then Inl ErrPayloadTooLarge
      else let entrySize = alignUp (8 + ucast payloadLen); cap = capacity m in
      if entrySize > cap then Inl ErrPayloadTooLarge
      else let head = loadHead m; tail = loadTail m;
               used = tail - head; free = cap - used;
               posInRing = tail mod cap; spaceToBoundary = cap - posInRing;
               needSkip = spaceToBoundary < entrySize;
               needed = (if needSkip then spaceToBoundary + entrySize else entrySize) in
      if needed > free then Inl ErrRingFull
      else and_then
        (if needSkip
         then and_then (panics (writeSkip (headerSize + unat posInRing) (data m))) (\<lambda>d.
                Inr (d, tail + spaceToBoundary, 0))
         else Inr (data m, tail, posInRing)) (\<lambda>(d, tail, posInRing).
      and_then (panics (writeEntry (headerSize + unat posInRing) payloadLen payload d)) (\<lambda>d.
        Inr (storeTail (tail + entrySize) (m\<lparr>data := d\<rparr>)))))"

section \<open>The consumer\<close>

datatype pop_result = PopEmpty | PopEntry "byte list" | PopErr ring_error

text \<open>\<open>pop_step\<close> is one iteration of the loop of \<open>Pop\<close>: \<open>Inl\<close> continues with the moved head,
  \<open>Inr\<close> returns.\<close>

definition readEntry :: "mapping \<Rightarrow> u64 \<Rightarrow> nat \<Rightarrow> u64 \<Rightarrow> u32 \<Rightarrow> pop_result \<times> mapping" where
  "readEntry m head base posInRing rawLen =
     (if unat rawLen > unat maxPayload then (PopErr (ErrBogusLength rawLen head), m)
      else let payloadLen = (ucast rawLen :: u64); entrySize = alignUp (8 + payloadLen) in
      if entrySize > capacity m - posInRing then (PopErr (ErrCrossesBoundary head), m)
      else case (getUint32 (data m) (base + 4), slice_at (base + 8) (unat payloadLen) (data m)) of
        (Some crc, Some payload) \<Rightarrow>
          (let got = crc32c payload in
           if got \<noteq> crc then (PopErr (ErrCrcMismatch head got crc), m)
           else (PopEntry payload, storeHead (head + entrySize) m))
      | _ \<Rightarrow> (PopErr Panic, m))"

definition pop_step :: "mapping \<Rightarrow> mapping + (pop_result \<times> mapping)" where
  "pop_step m =
     (let tail = loadTail m; head = loadHead m in
      if head = tail then Inr (PopEmpty, m)
      else let cap = capacity m in
      if cap = 0 then Inr (PopErr Panic, m)
      else let posInRing = head mod cap; base = headerSize + unat posInRing in
      case getUint32 (data m) base of
        None \<Rightarrow> Inr (PopErr Panic, m)
      | Some rawLen \<Rightarrow>
          if rawLen = skipMarker
          then Inl (storeHead (head + (cap - posInRing)) m)
          else Inr (readEntry m head base posInRing rawLen))"

partial_function (option) Pop :: "mapping \<Rightarrow> (pop_result \<times> mapping) option" where
  "Pop m = (case pop_step m of Inl m' \<Rightarrow> Pop m' | Inr r \<Rightarrow> Some r)"

section \<open>Arithmetic of positions and sizes\<close>

definition esize :: "nat \<Rightarrow> nat" where
  "esize n = (n + 15) div 8 * 8"

lemma esize_bounds: "8 + n \<le> esize n" "esize n \<le> n + 15" "8 dvd esize n" "8 \<le> esize n"
proof -
  have "8 * ((n + 15) div 8) \<le> n + 15" "n + 15 < 8 * ((n + 15) div 8) + 8"
    by linarith+
  then show "8 + n \<le> esize n" "esize n \<le> n + 15" "8 \<le> esize n"
    unfolding esize_def by linarith+
  show "8 dvd esize n" by (simp add: esize_def)
qed

lemma unat_alignUp:
  assumes "unat n + 8 < 2 ^ 64"
  shows "unat (alignUp n) = (unat n + 7) div 8 * 8"
proof -
  have m: "unat (n mod 8) = unat n mod 8"
    by (simp add: unat_mod)
  have z: "n mod 8 = 0 \<longleftrightarrow> unat n mod 8 = 0"
    by (metis m unat_eq_zero)
  have le: "n mod 8 \<le> 8"
    by (simp add: word_le_nat_alt m)
  have s: "unat (8 - n mod 8) = 8 - unat n mod 8"
    using le by (simp add: unat_sub m)
  have a: "unat (n + (8 - n mod 8)) = unat n + (8 - unat n mod 8)"
    using assms by (subst unat_add_lem [THEN iffD1]) (auto simp: s)
  define q r where "q = unat n div 8" and "r = unat n mod 8"
  have n: "unat n = 8 * q + r" and r: "r < 8"
    by (simp_all add: q_def r_def)
  have z': "n mod 8 = 0 \<longleftrightarrow> r = 0" by (simp only: z r_def)
  have a': "unat (n + (8 - n mod 8)) = unat n + (8 - r)" by (simp only: a r_def)
  show ?thesis
  proof (cases "r = 0")
    case True
    then show ?thesis by (simp add: alignUp_def z' n)
  next
    case False
    have "(8 * q + r + 7) div 8 = q + (r + 7) div 8" by (simp add: add.assoc)
    also have "(r + 7) div 8 = 1" using False r by (intro div_nat_eqI) auto
    finally have "(unat n + 7) div 8 * 8 = unat n + (8 - r)" using r by (simp add: n)
    with False show ?thesis by (simp add: alignUp_def z' a')
  qed
qed

lemma unat_ucast_len: "L < 2 ^ 32 \<Longrightarrow> unat (ucast (of_nat L :: u32) :: u64) = L"
  by (simp add: unsigned_ucast_eq unat_of_nat take_bit_nat_eq_self)

lemma unat_entrySize:
  assumes "L < 2 ^ 32"
  shows "unat (alignUp (8 + ucast (of_nat L :: u32))) = esize L"
proof -
  have e: "unat (8 + ucast (of_nat L :: u32) :: u64) = 8 + L"
    using assms by (subst unat_add_lem [THEN iffD1]) (auto simp: unat_ucast_len)
  show ?thesis
    using assms by (subst unat_alignUp) (auto simp: e esize_def)
qed

lemma mod_add_within: "(h::nat) mod C + j < C \<Longrightarrow> (h + j) mod C = h mod C + j"
  using mod_add_left_eq [of h C j] by simp

lemma mod_boundary:
  assumes "0 < (C::nat)"
  shows "(h + (C - h mod C)) mod C = 0"
proof -
  have "h mod C < C" using assms by simp
  then have "h + (C - h mod C) = h div C * C + C"
    using div_mult_mod_eq [of h C] by linarith
  then show ?thesis by simp
qed

lemma mod_neq_within:
  assumes "(k::nat) < k'" and "k' < k + C"
  shows "k mod C \<noteq> k' mod C"
proof
  assume "k mod C = k' mod C"
  then have "C dvd k' - k" using assms(1) by (metis mod_eq_dvd_iff_nat less_imp_le)
  with assms show False by (auto dest: dvd_imp_le)
qed

section \<open>The abstract queue of a ring\<close>

text \<open>\<open>entry_at d C h p\<close>: the bytes at cursor \<open>h\<close> are a well-formed entry with payload \<open>p\<close>.
  \<open>ring_rep d C t h xs\<close>: the bytes between the cursors \<open>h\<close> and \<open>t\<close> are entries with the payloads
  \<open>xs\<close>, in order, with a skip marker wherever an entry did not fit before the boundary.\<close>

definition entry_at :: "byte list \<Rightarrow> nat \<Rightarrow> nat \<Rightarrow> byte list \<Rightarrow> bool" where
  "entry_at d C h p \<longleftrightarrow>
     length p < 2 ^ 32 - 1 \<and> h mod C + esize (length p) \<le> C \<and>
     getUint32 d (headerSize + h mod C) = Some (of_nat (length p)) \<and>
     getUint32 d (headerSize + h mod C + 4) = Some (crc32c p) \<and>
     slice_at (headerSize + h mod C + 8) (length p) d = Some p"

inductive ring_rep :: "byte list \<Rightarrow> nat \<Rightarrow> nat \<Rightarrow> nat \<Rightarrow> byte list list \<Rightarrow> bool"
  for d C t where
  rep_done: "ring_rep d C t t []"
| rep_skip: "ring_rep d C t h xs"
    if "h mod C + 8 \<le> C" "getUint32 d (headerSize + h mod C) = Some skipMarker"
      "h + (C - h mod C) < t" "ring_rep d C t (h + (C - h mod C)) xs" "xs \<noteq> []"
| rep_entry: "ring_rep d C t h (p # xs)"
    if "entry_at d C h p" "h + esize (length p) \<le> t" "ring_rep d C t (h + esize (length p)) xs"

inductive_cases ring_rep_NilE: "ring_rep d C t h []"

definition ring_inv :: "mapping \<Rightarrow> byte list list \<Rightarrow> bool" where
  "ring_inv m xs \<longleftrightarrow>
     (let C = unat (capacity m); h = unat (loadHead m); t = unat (loadTail m) in
      length (data m) = headerSize + C \<and> headerSize + C < 2 ^ 63 \<and> 8 dvd C \<and> 0 < C \<and> 8 dvd h \<and> 8 dvd t \<and>
      h \<le> t \<and> t \<le> h + C \<and> ring_rep (data m) C t h xs)"

lemma ring_rep_le: "ring_rep d C t h xs \<Longrightarrow> h \<le> t"
  by (induction rule: ring_rep.induct) auto

lemma ring_rep_Nil: "ring_rep d C t h [] \<Longrightarrow> h = t"
  by (erule ring_rep_NilE) auto

text \<open>The bytes between the cursors determine the queue.\<close>

lemma entry_length:
  assumes "entry_at d C h p"
  shows "getUint32 d (headerSize + h mod C) = Some w \<Longrightarrow> unat w = length p"
  using assms by (auto simp: entry_at_def unat_of_nat take_bit_nat_eq_self)

lemma entry_at_unique:
  assumes p: "entry_at d C h p" and q: "entry_at d C h q"
  shows "p = q"
proof -
  from p have "getUint32 d (headerSize + h mod C) = Some (of_nat (length p))" by (simp add: entry_at_def)
  from entry_length [OF p this] entry_length [OF q this] have "length p = length q" by (rule trans [OF sym])
  moreover from p q have "slice_at (headerSize + h mod C + 8) (length p) d = Some p"
    "slice_at (headerSize + h mod C + 8) (length q) d = Some q" by (simp_all only: entry_at_def)
  ultimately show ?thesis by (metis option.inject)
qed

lemma entry_at_not_skip:
  assumes "entry_at d C h p"
  shows "getUint32 d (headerSize + h mod C) \<noteq> Some skipMarker"
  using entry_length [OF assms, of skipMarker] assms by (auto simp: entry_at_def skipMarker_def)

lemma ring_rep_empty: "ring_rep d C t t ys \<Longrightarrow> ys = []"
proof (erule ring_rep.cases, goal_cases)
  case (3 h p xs)
  with esize_bounds(4) [of "length p"] show ?case by simp
qed simp_all

lemma ring_rep_unique: "ring_rep d C t h xs \<Longrightarrow> ring_rep d C t h ys \<Longrightarrow> xs = ys"
proof (induction arbitrary: ys rule: ring_rep.induct)
  case rep_done
  then show ?case using ring_rep_empty by blast
next
  case (rep_skip h xs)
  note skip = rep_skip.hyps and ih = rep_skip.IH
  from rep_skip.prems show ?case
  proof (rule ring_rep.cases, goal_cases)
    case (3 h' p zs)
    with entry_at_not_skip skip(2) show ?case by blast
  qed (use skip(3) ih in auto)
next
  case (rep_entry h p xs)
  note entry = rep_entry.hyps and ih = rep_entry.IH
  from rep_entry.prems show ?case
  proof (rule ring_rep.cases, goal_cases)
    case 1
    with entry(2) esize_bounds(4) [of "length p"] show ?case by simp
  next
    case (2 h' zs)
    with entry_at_not_skip entry(1) show ?case by blast
  next
    case (3 h' q zs)
    then have "q = p" using entry_at_unique entry(1) by blast
    with 3 ih show ?case by simp
  qed
qed

lemma ring_inv_unique: "ring_inv m xs \<Longrightarrow> ring_inv m ys \<Longrightarrow> xs = ys"
  by (auto simp: ring_inv_def Let_def intro: ring_rep_unique)

section \<open>Frames: what a write leaves alone\<close>

definition unmodified :: "nat \<Rightarrow> nat \<Rightarrow> nat \<Rightarrow> byte list \<Rightarrow> byte list \<Rightarrow> bool" where
  "unmodified C lo hi d d' \<longleftrightarrow>
     length d' = length d \<and>
     (\<forall>k. lo \<le> k \<longrightarrow> k < hi \<longrightarrow> d' ! (headerSize + k mod C) = d ! (headerSize + k mod C))"

lemma unmodified_refl [simp]: "unmodified C lo hi d d"
  by (simp add: unmodified_def)

lemma unmodified_trans:
  "unmodified C lo hi d d' \<Longrightarrow> unmodified C lo hi d' d'' \<Longrightarrow> unmodified C lo hi d d''"
  by (simp add: unmodified_def)

lemma unmodified_mono:
  "unmodified C lo hi d d' \<Longrightarrow> lo \<le> lo' \<Longrightarrow> hi' \<le> hi \<Longrightarrow> unmodified C lo' hi' d d'"
  by (auto simp: unmodified_def)

lemma unmodified_slice:
  assumes u: "unmodified C lo hi d d'" and "h mod C + i + n \<le> C" "lo \<le> h + i" "h + i + n \<le> hi"
  shows "slice_at (headerSize + h mod C + i) n d' = slice_at (headerSize + h mod C + i) n d"
proof (rule slice_at_cong)
  show "length d' = length d" using u by (simp add: unmodified_def)
  fix j assume j: "headerSize + h mod C + i \<le> j" "j < headerSize + h mod C + i + n"
  define k where "k = j - headerSize - h mod C"
  from j have k: "i \<le> k" "k < i + n" "j = headerSize + (h mod C + k)"
    by (auto simp: k_def)
  then have "(h + k) mod C = h mod C + k"
    using assms(2) by (intro mod_add_within) simp
  moreover have "d' ! (headerSize + (h + k) mod C) = d ! (headerSize + (h + k) mod C)"
    using u assms(3,4) k(1,2) by (simp add: unmodified_def)
  ultimately show "d' ! j = d ! j" by (simp add: k(3))
qed

lemma entry_at_frame:
  assumes "entry_at d C h p" "unmodified C lo hi d d'" "lo \<le> h" "h + esize (length p) \<le> hi"
  shows "entry_at d' C h p"
  using assms esize_bounds(1) [of "length p"]
    unmodified_slice [OF assms(2), of h 0 4] unmodified_slice [OF assms(2), of h 4 4]
    unmodified_slice [OF assms(2), of h 8 "length p"]
  by (simp add: entry_at_def getUint32_def)

lemma ring_rep_frame:
  assumes "ring_rep d C t h xs" and "unmodified C h t d d'"
  shows "ring_rep d' C t h xs"
  using assms
proof (induction rule: ring_rep.induct)
  case rep_done
  show ?case by (rule ring_rep.rep_done)
next
  case (rep_skip h xs)
  have "getUint32 d' (headerSize + h mod C) = Some skipMarker"
    using rep_skip unmodified_slice [OF rep_skip.prems, of h 0 4]
    by (simp add: getUint32_def)
  moreover have "unmodified C (h + (C - h mod C)) t d d'"
    using rep_skip.prems by (rule unmodified_mono) auto
  ultimately show ?case
    using rep_skip by (blast intro: ring_rep.rep_skip)
next
  case (rep_entry h p xs)
  have "entry_at d' C h p"
    using rep_entry by (intro entry_at_frame [OF rep_entry.hyps(1) rep_entry.prems]) auto
  moreover have "unmodified C (h + esize (length p)) t d d'"
    using rep_entry.prems by (rule unmodified_mono) auto
  ultimately show ?case
    using rep_entry by (blast intro: ring_rep.rep_entry)
qed

lemma ring_rep_append:
  assumes "ring_rep d C t h xs" "ring_rep d C t' t ys" "ys \<noteq> []" "t \<le> t'"
  shows "ring_rep d C t' h (xs @ ys)"
  using assms
proof (induction rule: ring_rep.induct)
  case rep_done
  then show ?case by simp
next
  case (rep_skip h xs)
  then show ?case by (simp add: ring_rep.rep_skip)
next
  case (rep_entry h p xs)
  then show ?case by (simp add: ring_rep.rep_entry)
qed

lemma put_at_unmodified:
  assumes p: "put_at (headerSize + s mod C + i) bs d = Some d'"
    and "s mod C + i + length bs \<le> C" "t \<le> s" "s + i + length bs \<le> h + C"
  shows "unmodified C h t d d'"
  unfolding unmodified_def
proof (intro conjI allI impI)
  show "length d' = length d" using p by (rule put_at_length)
  fix k assume k: "h \<le> k" "k < t"
  show "d' ! (headerSize + k mod C) = d ! (headerSize + k mod C)"
  proof (rule put_at_nth [OF p], rule ccontr)
    assume a: "\<not> (headerSize + k mod C < headerSize + s mod C + i \<or>
                 headerSize + s mod C + i + length bs \<le> headerSize + k mod C)"
    define j where "j = k mod C - s mod C"
    have j: "k mod C = s mod C + j" "j < i + length bs" "i \<le> j"
      using a by (auto simp: j_def)
    then have "k mod C = (s + j) mod C"
      using assms(2) by (subst mod_add_within) auto
    moreover have "k mod C \<noteq> (s + j) mod C"
      by (rule mod_neq_within) (use k j assms(3,4) in auto)
    ultimately show False by simp
  qed
qed

section \<open>Cursor updates\<close>

lemma cursor_simps [simp]:
  assumes "32 \<le> length (data m)"
  shows "loadTail (storeTail w m) = w" "loadHead (storeTail w m) = loadHead m"
    "loadHead (storeHead w m) = w" "loadTail (storeHead w m) = loadTail m"
    "length (data (storeTail w m)) = length (data m)"
    "length (data (storeHead w m)) = length (data m)"
  using assms
  by (simp_all add: loadTail_def loadHead_def storeTail_def storeHead_def drop_take)

lemma store_capacity [simp]:
  "capacity (storeTail w m) = capacity m" "capacity (storeHead w m) = capacity m"
  by (simp_all add: storeTail_def storeHead_def)

lemma store_unmodified:
  assumes "headerSize \<le> length (data m)"
  shows "unmodified C lo hi (data m) (data (storeTail w m))"
    "unmodified C lo hi (data m) (data (storeHead w m))"
  using assms
  by (auto simp: unmodified_def storeTail_def storeHead_def headerSize_def nth_append)

lemma loadHead_data_cong:
  "slice_at 16 8 d = slice_at 16 8 (data m) \<Longrightarrow> 32 \<le> length (data m) \<Longrightarrow>
   length d = length (data m) \<Longrightarrow> loadHead (m\<lparr>data := d\<rparr>) = loadHead m"
  by (simp add: loadHead_def slice_at_def)

section \<open>Effect of the producer's writes\<close>

lemma of_nat_len_facts:
  assumes "L < 2 ^ 32 - 1"
  shows "unat (of_nat L :: u32) = L" "\<not> unat (of_nat L :: u32) > unat maxPayload"
    "(of_nat L :: u32) \<noteq> skipMarker"
proof -
  show u: "unat (of_nat L :: u32) = L"
    using assms by (simp add: unat_of_nat take_bit_nat_eq_self)
  show "\<not> unat (of_nat L :: u32) > unat maxPayload"
    using assms by (simp add: u maxPayload_def)
  show "(of_nat L :: u32) \<noteq> skipMarker"
  proof
    assume "(of_nat L :: u32) = skipMarker"
    then have "L = unat skipMarker" using u by simp
    with assms show False by (simp add: skipMarker_def)
  qed
qed

lemma writeEntry_spec:
  assumes w: "writeEntry (headerSize + s mod C) (of_nat (length p)) p d = Some d'"
    and L: "length p < 2 ^ 32 - 1" and fit: "s mod C + esize (length p) \<le> C"
  shows "entry_at d' C s p" "length d' = length d"
    "t \<le> s \<Longrightarrow> s + esize (length p) \<le> h + C \<Longrightarrow> unmodified C h t d d'"
    "j + n \<le> headerSize \<Longrightarrow> slice_at j n d' = slice_at j n d"
proof -
  let ?b = "headerSize + s mod C"
  from w obtain d1 d2 where d1: "put_at ?b (le_bytes 4 (of_nat (length p) :: u32)) d = Some d1"
    and d2: "put_at (?b + 4) (le_bytes 4 (crc32c p)) d1 = Some d2"
    and d3: "put_at (?b + 8) p d2 = Some d'"
    using of_nat_len_facts(1) [OF L]
    by (auto simp: writeEntry_def putUint32_def bind_eq_Some_conv split: if_splits)
  note e = esize_bounds(1) [of "length p"]
  have "getUint32 d' ?b = Some (of_nat (length p))"
    using put_at_same [OF d1] put_at_other [OF d2, of ?b 4] put_at_other [OF d3, of ?b 4]
    by (simp add: getUint32_def)
  moreover have "getUint32 d' (?b + 4) = Some (crc32c p)"
    using put_at_same [OF d2] put_at_other [OF d3, of "?b + 4" 4] by (simp add: getUint32_def)
  moreover have "slice_at (?b + 8) (length p) d' = Some p"
    using put_at_same [OF d3] by simp
  ultimately show "entry_at d' C s p"
    using L fit by (simp add: entry_at_def)
  show "length d' = length d"
    using d1 d2 d3 by (simp add: put_at_length)
  show "slice_at j n d' = slice_at j n d" if "j + n \<le> headerSize"
    using that put_at_other [OF d1, of j n] put_at_other [OF d2, of j n] put_at_other [OF d3, of j n]
    by simp
  show "unmodified C h t d d'" if ts: "t \<le> s" "s + esize (length p) \<le> h + C"
  proof -
    have "unmodified C h t d d1"
      using put_at_unmodified [of s C 0, OF _ _ ts(1), of _ d d1 h] d1 fit e ts(2) by simp
    moreover have "unmodified C h t d1 d2"
      using put_at_unmodified [of s C 4, OF _ _ ts(1), of _ d1 d2 h] d2 fit e ts(2) by simp
    moreover have "unmodified C h t d2 d'"
      using put_at_unmodified [of s C 8, OF d3 _ ts(1), of h] fit e ts(2) by simp
    ultimately show ?thesis by (blast intro: unmodified_trans)
  qed
qed

lemma writeEntry_defined:
  assumes "headerSize + C = length d" "s mod C + esize (length p) \<le> C" "length p < 2 ^ 32 - 1"
  shows "\<exists>d'. writeEntry (headerSize + s mod C) (of_nat (length p)) p d = Some d'"
  using assms esize_bounds(1) [of "length p"] of_nat_len_facts(1) [OF assms(3)]
  by (simp add: writeEntry_def putUint32_def put_at_def)

lemma writeSkip_spec:
  assumes w: "writeSkip (headerSize + s mod C) d = Some d'" and fit: "s mod C + 8 \<le> C"
  shows "getUint32 d' (headerSize + s mod C) = Some skipMarker" "length d' = length d"
    "t \<le> s \<Longrightarrow> s + 8 \<le> h + C \<Longrightarrow> unmodified C h t d d'"
    "j + n \<le> headerSize \<Longrightarrow> slice_at j n d' = slice_at j n d"
proof -
  let ?b = "headerSize + s mod C"
  from w obtain d1 where d1: "put_at ?b (le_bytes 4 skipMarker) d = Some d1"
    and d2: "put_at (?b + 4) (le_bytes 4 (0 :: u32)) d1 = Some d'"
    by (auto simp: writeSkip_def putUint32_def bind_eq_Some_conv)
  show "getUint32 d' ?b = Some skipMarker"
    using put_at_same [OF d1] put_at_other [OF d2, of ?b 4] by (simp add: getUint32_def)
  show "length d' = length d"
    using d1 d2 by (simp add: put_at_length)
  show "slice_at j n d' = slice_at j n d" if "j + n \<le> headerSize"
    using that put_at_other [OF d1, of j n] put_at_other [OF d2, of j n] by simp
  show "unmodified C h t d d'" if ts: "t \<le> s" "s + 8 \<le> h + C"
  proof -
    have "unmodified C h t d d1"
      using put_at_unmodified [of s C 0, OF _ _ ts(1), of _ d d1 h] d1 fit ts(2) by simp
    moreover have "unmodified C h t d1 d'"
      using put_at_unmodified [of s C 4, OF d2 _ ts(1), of h] fit ts(2) by simp
    ultimately show ?thesis by (blast intro: unmodified_trans)
  qed
qed

lemma writeSkip_defined:
  "headerSize + C = length d \<Longrightarrow> s mod C + 8 \<le> C \<Longrightarrow>
   \<exists>d'. writeSkip (headerSize + s mod C) d = Some d'"
  by (simp add: writeSkip_def putUint32_def put_at_def)

section \<open>Append refines enqueueing\<close>

definition ring_needed :: "nat \<Rightarrow> nat \<Rightarrow> nat \<Rightarrow> nat" where
  "ring_needed C t n = (if C - t mod C < esize n then (C - t mod C) + esize n else esize n)"

definition ring_cap :: "mapping \<Rightarrow> nat" where "ring_cap m = unat (capacity m)"
definition ring_head :: "mapping \<Rightarrow> nat" where "ring_head m = unat (loadHead m)"
definition ring_tail :: "mapping \<Rightarrow> nat" where "ring_tail m = unat (loadTail m)"

lemmas ring_nat_defs = ring_cap_def ring_head_def ring_tail_def

lemma ring_invD:
  assumes "ring_inv m xs"
  shows "length (data m) = headerSize + ring_cap m" "headerSize + ring_cap m < 2 ^ 63"
    "8 dvd ring_cap m" "0 < ring_cap m" "8 dvd ring_head m" "8 dvd ring_tail m"
    "ring_head m \<le> ring_tail m" "ring_tail m \<le> ring_head m + ring_cap m"
    "ring_rep (data m) (ring_cap m) (ring_tail m) (ring_head m) xs"
  using assms by (auto simp: ring_inv_def Let_def ring_nat_defs)

lemma ring_invI:
  assumes "length (data m) = headerSize + ring_cap m" "headerSize + ring_cap m < 2 ^ 63"
    "8 dvd ring_cap m" "0 < ring_cap m" "8 dvd ring_head m" "8 dvd ring_tail m"
    "ring_tail m \<le> ring_head m + ring_cap m"
    "ring_rep (data m) (ring_cap m) (ring_tail m) (ring_head m) xs"
  shows "ring_inv m xs"
  using assms ring_rep_le [OF assms(8)] by (auto simp: ring_inv_def Let_def ring_nat_defs)

lemma ring_inv_len32: "ring_inv m xs \<Longrightarrow> 32 \<le> length (data m)"
  by (drule ring_invD(1)) (simp add: headerSize_def)

lemma ring_inv_words:
  assumes "ring_inv m xs"
  shows "unat (capacity m - (loadTail m - loadHead m)) = ring_cap m - (ring_tail m - ring_head m)"
    "unat (loadTail m mod capacity m) = ring_tail m mod ring_cap m"
    "unat (capacity m - loadTail m mod capacity m) = ring_cap m - ring_tail m mod ring_cap m"
proof -
  note d = ring_invD [OF assms]
  have "loadHead m \<le> loadTail m" using d(7) by (simp add: word_le_nat_alt ring_nat_defs)
  then have u: "unat (loadTail m - loadHead m) = ring_tail m - ring_head m"
    by (simp add: unat_sub ring_nat_defs)
  then have "loadTail m - loadHead m \<le> capacity m"
    using d(8) by (simp add: word_le_nat_alt ring_nat_defs)
  then show "unat (capacity m - (loadTail m - loadHead m)) = ring_cap m - (ring_tail m - ring_head m)"
    by (simp add: unat_sub u ring_cap_def)
  show m: "unat (loadTail m mod capacity m) = ring_tail m mod ring_cap m"
    by (simp add: unat_mod ring_nat_defs)
  have "loadTail m mod capacity m \<le> capacity m"
    using d(4) by (simp add: word_le_nat_alt m flip: ring_cap_def)
  then show "unat (capacity m - loadTail m mod capacity m) = ring_cap m - ring_tail m mod ring_cap m"
    by (simp add: unat_sub m ring_cap_def)
qed

lemma Append_unfold:
  fixes m p
  assumes inv: "ring_inv m xs" and L: "length p < 2 ^ 32 - 1"
  defines "C \<equiv> ring_cap m" and "t \<equiv> ring_tail m" and "n \<equiv> length p"
  defines "es \<equiv> alignUp (8 + ucast (of_nat n :: u32))"
  shows "Append m p =
    (if C < esize n then Inl ErrPayloadTooLarge
     else if C - (t - ring_head m) < ring_needed C t n then Inl ErrRingFull
     else if C - t mod C < esize n
     then and_then (panics (writeSkip (headerSize + t mod C) (data m))) (\<lambda>d.
          and_then (panics (writeEntry headerSize (of_nat n) p d)) (\<lambda>d.
            Inr (storeTail (loadTail m + (capacity m - loadTail m mod capacity m) + es) (m\<lparr>data := d\<rparr>))))
     else and_then (panics (writeEntry (headerSize + t mod C) (of_nat n) p (data m))) (\<lambda>d.
            Inr (storeTail (loadTail m + es) (m\<lparr>data := d\<rparr>))))"
proof -
  note w = ring_inv_words [OF inv]
  note d = ring_invD [OF inv]
  have e: "unat es = esize n" using L unfolding es_def n_def by (subst unat_entrySize) auto
  have big: "capacity m < es \<longleftrightarrow> C < esize n"
    by (simp add: word_less_nat_alt e C_def ring_cap_def)
  have skip: "capacity m - loadTail m mod capacity m < es \<longleftrightarrow> C - t mod C < esize n"
    by (simp add: word_less_nat_alt e w C_def t_def)
  have sum: "unat (capacity m - loadTail m mod capacity m + es) = C - t mod C + esize n"
    if "\<not> C < esize n"
  proof -
    have "C - t mod C + esize n < 2 ^ 64" using that d(2) by (simp add: C_def)
    then show ?thesis
      by (subst unat_add_lem [THEN iffD1]) (auto simp: e w C_def t_def)
  qed
  have free: "capacity m - (loadTail m - loadHead m) < x \<longleftrightarrow> C - (t - ring_head m) < unat x" for x
    by (simp add: word_less_nat_alt w(1) C_def t_def)
  have posIn: "unat (loadTail m mod capacity m) = t mod C" by (simp add: w(2) C_def t_def)
  note ok = of_nat_len_facts(2) [OF L, folded n_def]
  show ?thesis
  proof (cases "C < esize n")
    case True
    then show ?thesis
      unfolding Append_def Let_def n_def [symmetric] es_def [symmetric] by (simp add: ok big)
  next
    case fits: False
    show ?thesis
    proof (cases "C - t mod C < esize n")
      case True
      then have "unat (capacity m - loadTail m mod capacity m + es) = ring_needed C t n"
        by (simp only: sum [OF fits] ring_needed_def if_True)
      with True show ?thesis
        unfolding Append_def Let_def n_def [symmetric] es_def [symmetric]
        by (cases "panics (writeSkip (headerSize + t mod C) (data m))")
          (simp_all add: ok big fits skip free posIn)
    next
      case False
      then have "unat es = ring_needed C t n"
        by (simp only: e ring_needed_def if_False)
      with False show ?thesis
        unfolding Append_def Let_def n_def [symmetric] es_def [symmetric]
        by (simp add: ok big fits skip free posIn)
    qed
  qed
qed

lemma dvd8_mod: "8 dvd h \<Longrightarrow> 8 dvd C \<Longrightarrow> 0 < (C::nat) \<Longrightarrow> h mod C + 8 \<le> C"
proof -
  assume a: "8 dvd h" "8 dvd C" "0 < C"
  then have "8 dvd C - h mod C" and "0 < C - h mod C"
    by (auto intro: dvd_diff_nat simp: dvd_mod)
  then have "8 \<le> C - h mod C" by (rule dvd_imp_le)
  then show ?thesis by simp
qed

lemma storeTail_inv:
  assumes inv: "ring_inv m xs" and len: "length d = length (data m)"
    and hd: "\<And>j n. j + n \<le> headerSize \<Longrightarrow> slice_at j n d = slice_at j n (data m)"
    and um: "unmodified (ring_cap m) (ring_head m) (ring_tail m) (data m) d"
    and rep: "ring_rep d (ring_cap m) t' (ring_tail m) ys" and ne: "ys \<noteq> []"
    and t': "t' \<le> ring_head m + ring_cap m" "8 dvd t'" and w: "unat w = t'"
  shows "ring_inv (storeTail w (m\<lparr>data := d\<rparr>)) (xs @ ys)"
    "loadHead (storeTail w (m\<lparr>data := d\<rparr>)) = loadHead m"
    "loadTail (storeTail w (m\<lparr>data := d\<rparr>)) = w"
proof -
  let ?m = "storeTail w (m\<lparr>data := d\<rparr>)"
  note D = ring_invD [OF inv] and l32 = ring_inv_len32 [OF inv]
  have l: "32 \<le> length (data (m\<lparr>data := d\<rparr>))" using l32 len by simp
  show h: "loadHead ?m = loadHead m"
    using l hd [of 16 8] l32 len by (simp add: loadHead_data_cong headerSize_def)
  show t: "loadTail ?m = w" using l by simp
  have c: "ring_cap ?m = ring_cap m" "ring_head ?m = ring_head m" "ring_tail ?m = t'"
    by (simp_all add: ring_nat_defs h t w)
  have "ring_rep d (ring_cap m) t' (ring_head m) (xs @ ys)"
    using ring_rep_frame [OF D(9) um] rep ne ring_rep_le [OF rep] by (rule ring_rep_append)
  then have "ring_rep (data ?m) (ring_cap m) t' (ring_head m) (xs @ ys)"
    using store_unmodified(1) [of "m\<lparr>data := d\<rparr>"] D(1) len by (auto elim!: ring_rep_frame)
  then show "ring_inv ?m (xs @ ys)"
    using D t' l len by (intro ring_invI) (simp_all add: c)
qed

lemma Append_in_place:
  assumes inv: "ring_inv m xs" and L: "length p < 2 ^ 32 - 1"
    and fits: "esize (length p) \<le> ring_cap m"
    and room: "ring_needed (ring_cap m) (ring_tail m) (length p)
               \<le> ring_cap m - (ring_tail m - ring_head m)"
    and nowrap: "ring_head m + ring_cap m < 2 ^ 64"
    and inside: "\<not> ring_cap m - ring_tail m mod ring_cap m < esize (length p)"
  shows "\<exists>m'. Append m p = Inr m' \<and> ring_inv m' (xs @ [p]) \<and> capacity m' = capacity m \<and>
     ring_head m' = ring_head m \<and>
     ring_tail m' = ring_tail m + ring_needed (ring_cap m) (ring_tail m) (length p)"
proof -
  let ?C = "ring_cap m" and ?t = "ring_tail m" and ?h = "ring_head m" and ?n = "length p"
  let ?es = "alignUp (8 + ucast (of_nat ?n :: u32))"
  note D = ring_invD [OF inv] and w = ring_inv_words [OF inv]
  have es: "unat ?es = esize ?n" using L by (subst unat_entrySize) auto
  have room': "?t + ring_needed ?C ?t ?n \<le> ?h + ?C" using room D(7,8) by simp
  have t64: "unat (loadTail m) = ?t" by (simp add: ring_tail_def)
  from inside have nd: "ring_needed ?C ?t ?n = esize ?n" and fit: "?t mod ?C + esize ?n \<le> ?C"
    using mod_less_divisor [OF D(4), of ?t] by (auto simp: ring_needed_def)
  obtain d where d: "writeEntry (headerSize + ?t mod ?C) (of_nat ?n) p (data m) = Some d"
    using writeEntry_defined [OF D(1) [symmetric] fit L] by blast
  note ws = writeEntry_spec [OF d L fit]
  have wt: "unat (loadTail m + ?es) = ?t + esize ?n"
    using room' nowrap nd by (subst unat_add_lem [THEN iffD1]) (auto simp: es t64)
  have rep: "ring_rep d ?C (?t + esize ?n) ?t [p]"
    by (intro ring_rep.rep_entry [OF ws(1)] ring_rep.rep_done) simp
  have um: "unmodified ?C ?h ?t (data m) d" using room' nd by (intro ws(3)) auto
  have b: "?t + esize ?n \<le> ?h + ?C" "8 dvd ?t + esize ?n"
    using room' nd D(6) esize_bounds(3) by auto
  note I = storeTail_inv [OF inv ws(2) ws(4) um rep _ b wt, simplified]
  have "Append m p = Inr (storeTail (loadTail m + ?es) (m\<lparr>data := d\<rparr>))"
    using fits room inside d by (simp add: Append_unfold [OF inv L])
  with I wt show ?thesis by (simp add: nd ring_head_def ring_tail_def [of "storeTail _ _"])
qed

lemma Append_wrapping:
  assumes inv: "ring_inv m xs" and L: "length p < 2 ^ 32 - 1"
    and fits: "esize (length p) \<le> ring_cap m"
    and room: "ring_needed (ring_cap m) (ring_tail m) (length p)
               \<le> ring_cap m - (ring_tail m - ring_head m)"
    and nowrap: "ring_head m + ring_cap m < 2 ^ 64"
    and outside: "ring_cap m - ring_tail m mod ring_cap m < esize (length p)"
  shows "\<exists>m'. Append m p = Inr m' \<and> ring_inv m' (xs @ [p]) \<and> capacity m' = capacity m \<and>
     ring_head m' = ring_head m \<and>
     ring_tail m' = ring_tail m + ring_needed (ring_cap m) (ring_tail m) (length p)"
proof -
  let ?C = "ring_cap m" and ?t = "ring_tail m" and ?h = "ring_head m" and ?n = "length p"
  let ?es = "alignUp (8 + ucast (of_nat ?n :: u32))"
  note D = ring_invD [OF inv] and w = ring_inv_words [OF inv]
  have es: "unat ?es = esize ?n" using L by (subst unat_entrySize) auto
  have room': "?t + ring_needed ?C ?t ?n \<le> ?h + ?C" using room D(7,8) by simp
  have t64: "unat (loadTail m) = ?t" by (simp add: ring_tail_def)
  let ?s = "?t + (?C - ?t mod ?C)"
  have nd: "ring_needed ?C ?t ?n = ?C - ?t mod ?C + esize ?n" using outside by (simp add: ring_needed_def)
  have s0: "?s mod ?C = 0" using D(4) by (rule mod_boundary)
  have p8: "?t mod ?C + 8 \<le> ?C" using D(6,3,4) by (rule dvd8_mod)
  have s8: "8 dvd ?s" using D(3,6) by (auto intro: dvd_diff_nat simp: dvd_mod)
  obtain d where d: "writeSkip (headerSize + ?t mod ?C) (data m) = Some d"
    using writeSkip_defined [OF D(1) [symmetric] p8] by blast
  note sk = writeSkip_spec [OF d p8]
  have fit: "?s mod ?C + esize ?n \<le> ?C" using fits s0 by simp
  have ld: "headerSize + ?C = length d" using D(1) sk(2) by simp
  obtain d' where d': "writeEntry (headerSize + ?s mod ?C) (of_nat ?n) p d = Some d'"
    using writeEntry_defined [OF ld fit L] by blast
  note ws = writeEntry_spec [OF d' L fit]
  let ?w = "loadTail m + (capacity m - loadTail m mod capacity m) + ?es"
  have wt: "unat ?w = ?s + esize ?n"
    using room' nowrap nd w(3) es t64
    by (subst unat_add_lem [THEN iffD1], (subst unat_add_lem [THEN iffD1])?; simp)+
  have um: "unmodified ?C ?h ?t (data m) d'"
  proof (rule unmodified_trans)
    show "unmodified ?C ?h ?t (data m) d" by (rule sk(3)) (use room' nd p8 in linarith)+
    show "unmodified ?C ?h ?t d d'" by (rule ws(3)) (use room' nd in linarith)+
  qed
  have "getUint32 d' (headerSize + ?t mod ?C) = Some skipMarker"
  proof -
    have "unmodified ?C ?t ?s d d'" by (rule ws(3)) (use room' nd D(7) in linarith)+
    then show ?thesis
      using sk(1) unmodified_slice [of ?C ?t ?s d d' ?t 0 4] p8 by (simp add: getUint32_def)
  qed
  moreover have "ring_rep d' ?C (?s + esize ?n) ?s [p]"
    by (intro ring_rep.rep_entry [OF ws(1)] ring_rep.rep_done) simp
  ultimately have rep: "ring_rep d' ?C (?s + esize ?n) ?t [p]"
    using p8 esize_bounds(4) [of ?n] by (intro ring_rep.rep_skip [of ?t]) auto
  have b: "?s + esize ?n \<le> ?h + ?C" "8 dvd ?s + esize ?n"
    using room' nd s8 esize_bounds(3) by auto
  have len: "length d' = length (data m)" using ws(2) sk(2) by simp
  have hd: "slice_at j n d' = slice_at j n (data m)" if "j + n \<le> headerSize" for j n
    using ws(4) [OF that] sk(4) [OF that] by simp
  note I = storeTail_inv [OF inv len hd um rep _ b wt, simplified]
  have "Append m p = Inr (storeTail ?w (m\<lparr>data := d'\<rparr>))"
    using fits room outside d d' s0 by (simp add: Append_unfold [OF inv L])
  with I wt show ?thesis by (simp add: nd ring_head_def ring_tail_def [of "storeTail _ _"])
qed

lemma Append_success:
  assumes inv: "ring_inv m xs" and L: "length p < 2 ^ 32 - 1"
    and fits: "esize (length p) \<le> ring_cap m"
    and room: "ring_needed (ring_cap m) (ring_tail m) (length p)
               \<le> ring_cap m - (ring_tail m - ring_head m)"
    and nowrap: "ring_head m + ring_cap m < 2 ^ 64"
  shows "\<exists>m'. Append m p = Inr m' \<and> ring_inv m' (xs @ [p]) \<and> capacity m' = capacity m \<and>
     ring_head m' = ring_head m \<and>
     ring_tail m' = ring_tail m + ring_needed (ring_cap m) (ring_tail m) (length p)"
  using Append_in_place [OF assms] Append_wrapping [OF assms] by blast

section \<open>Pop refines dequeueing\<close>

lemma storeHead_inv:
  assumes inv: "ring_inv m xs" and rep: "ring_rep (data m) (ring_cap m) (ring_tail m) h' ys"
    and h': "ring_head m \<le> h'" "8 dvd h'" and w: "unat w = h'"
  shows "ring_inv (storeHead w m) ys" "ring_tail (storeHead w m) = ring_tail m"
    "ring_head (storeHead w m) = h'" "ring_cap (storeHead w m) = ring_cap m"
proof -
  note D = ring_invD [OF inv] and l32 = ring_inv_len32 [OF inv]
  show c: "ring_tail (storeHead w m) = ring_tail m" "ring_head (storeHead w m) = h'"
    "ring_cap (storeHead w m) = ring_cap m"
    using l32 by (simp_all add: ring_nat_defs w)
  have "ring_rep (data (storeHead w m)) (ring_cap m) (ring_tail m) h' ys"
    using rep store_unmodified(2) [of m] D(1) by (auto elim!: ring_rep_frame)
  then show "ring_inv (storeHead w m) ys"
    using D h' l32 by (intro ring_invI) (simp_all add: c)
qed

lemma head_words:
  assumes "ring_inv m xs" "ring_head m < ring_tail m"
  shows "loadHead m \<noteq> loadTail m" "capacity m \<noteq> 0"
    "unat (loadHead m mod capacity m) = ring_head m mod ring_cap m"
    "unat (capacity m - loadHead m mod capacity m) = ring_cap m - ring_head m mod ring_cap m"
proof -
  note D = ring_invD [OF assms(1)]
  show "loadHead m \<noteq> loadTail m" using assms(2) by (auto simp: ring_nat_defs)
  show "capacity m \<noteq> 0" using D(4) by (auto simp: ring_cap_def)
  show m: "unat (loadHead m mod capacity m) = ring_head m mod ring_cap m"
    by (simp add: unat_mod ring_nat_defs)
  have "loadHead m mod capacity m \<le> capacity m"
    using D(4) by (simp add: word_le_nat_alt m flip: ring_cap_def)
  then show "unat (capacity m - loadHead m mod capacity m) = ring_cap m - ring_head m mod ring_cap m"
    by (simp add: unat_sub m ring_cap_def)
qed

lemma pop_step_entry:
  assumes inv: "ring_inv m (p # xs)" and e: "entry_at (data m) (ring_cap m) (ring_head m) p"
    and le: "ring_head m + esize (length p) \<le> ring_tail m"
  shows "pop_step m = Inr (PopEntry p,
     storeHead (loadHead m + alignUp (8 + ucast (of_nat (length p) :: u32))) m)"
proof -
  have lt: "ring_head m < ring_tail m" using le esize_bounds(4) [of "length p"] by simp
  note w = head_words [OF inv lt]
  from e have L: "length p < 2 ^ 32 - 1" by (simp add: entry_at_def)
  note u = of_nat_len_facts [OF L]
  have es: "unat (alignUp (8 + ucast (of_nat (length p) :: u32))) = esize (length p)"
    using L by (subst unat_entrySize) auto
  have ul: "unat (ucast (of_nat (length p) :: u32) :: u64) = length p"
    using L by (intro unat_ucast_len) simp
  have nb: "\<not> capacity m - loadHead m mod capacity m < alignUp (8 + ucast (of_nat (length p) :: u32))"
    using e by (auto simp: word_less_nat_alt es w(4) entry_at_def)
  show ?thesis
    using e w u nb ul
    by (simp add: pop_step_def readEntry_def entry_at_def Let_def)
qed

lemma pop_step_skip:
  assumes inv: "ring_inv m xs" and lt: "ring_head m < ring_tail m"
    and sk: "getUint32 (data m) (headerSize + ring_head m mod ring_cap m) = Some skipMarker"
  shows "pop_step m = Inl (storeHead (loadHead m + (capacity m - loadHead m mod capacity m)) m)"
  using head_words [OF inv lt] sk by (simp add: pop_step_def Let_def)

lemma Pop_entry:
  "ring_inv m (p # xs) \<Longrightarrow>
   \<exists>m'. Pop m = Some (PopEntry p, m') \<and> ring_inv m' xs \<and> capacity m' = capacity m \<and>
     ring_tail m' = ring_tail m"
proof (induction "ring_tail m - ring_head m" arbitrary: m rule: less_induct)
  case less
  note inv = less.prems and D = ring_invD [OF less.prems]
  have hw: "unat (loadHead m) = ring_head m" "unat (loadTail m) = ring_tail m"
    by (simp_all add: ring_nat_defs)
  have t64: "ring_tail m < 2 ^ 64" using unsigned_less [of "loadTail m"] by (simp add: ring_tail_def)
  from D(9) show ?case
  proof (cases rule: ring_rep.cases)
    case sk: rep_skip
    let ?s = "ring_head m + (ring_cap m - ring_head m mod ring_cap m)"
    let ?w = "loadHead m + (capacity m - loadHead m mod capacity m)"
    have lt: "ring_head m < ring_tail m" using sk by simp
    have w: "unat ?w = ?s"
      using sk(3) t64 head_words(4) [OF inv lt] hw
      by (subst unat_add_lem [THEN iffD1]) auto
    have "8 dvd ?s" using D(3,5) by (auto intro: dvd_diff_nat simp: dvd_mod)
    note S = storeHead_inv [OF inv sk(4) _ this w, simplified]
    have "ring_tail (storeHead ?w m) - ring_head (storeHead ?w m) < ring_tail m - ring_head m"
      using S lt mod_less_divisor [OF D(4), of "ring_head m"] by simp
    from less.hyps [OF this S(1)] S(2) obtain m' where
      "Pop (storeHead ?w m) = Some (PopEntry p, m')" "ring_inv m' xs" "capacity m' = capacity m"
      "ring_tail m' = ring_tail m"
      by auto
    then show ?thesis
      using pop_step_skip [OF inv lt sk(2)] by (simp add: Pop.simps [of m])
  next
    case en: (rep_entry)
    let ?w = "loadHead m + alignUp (8 + ucast (of_nat (length p) :: u32))"
    have L: "length p < 2 ^ 32" using en(1) by (simp add: entry_at_def)
    have w: "unat ?w = ring_head m + esize (length p)"
      using en(2) t64 hw by (subst unat_add_lem [THEN iffD1]) (auto simp: unat_entrySize [OF L])
    have "8 dvd ring_head m + esize (length p)" using D(5) esize_bounds(3) by simp
    note S = storeHead_inv [OF inv en(3) _ this w, simplified]
    show ?thesis
      using pop_step_entry [OF inv en(1,2)] S by (simp add: Pop.simps [of m])
  qed
qed

lemma Pop_empty: "ring_inv m [] \<Longrightarrow> Pop m = Some (PopEmpty, m)"
proof -
  assume inv: "ring_inv m []"
  then have "ring_head m = ring_tail m" by (rule ring_rep_Nil [OF ring_invD(9)])
  then have "loadHead m = loadTail m" by (simp add: ring_nat_defs unsigned_word_eqI)
  then have "pop_step m = Inr (PopEmpty, m)" by (simp add: pop_step_def)
  then show ?thesis by (simp add: Pop.simps [of m])
qed

section \<open>The channel interface\<close>

locale oplog_channel =
  fixes enq :: "'r \<Rightarrow> byte list \<Rightarrow> ring_error + 'r"
    and deq :: "'r \<Rightarrow> (pop_result \<times> 'r) option"
    and chan :: "'r \<Rightarrow> byte list list \<Rightarrow> bool"
    and fresh :: "'r \<Rightarrow> nat \<Rightarrow> bool"
  assumes append_ok: "chan r xs \<Longrightarrow> fresh r (Suc n) \<Longrightarrow> length p < 2 ^ 32 - 1 \<Longrightarrow>
      enq r p = Inr r' \<Longrightarrow> chan r' (xs @ [p]) \<and> fresh r' n"
    and append_refuse: "chan r xs \<Longrightarrow> fresh r (Suc n) \<Longrightarrow> length p < 2 ^ 32 - 1 \<Longrightarrow>
      enq r p = Inl e \<Longrightarrow> e = ErrPayloadTooLarge \<or> e = ErrRingFull"
    and pop_empty: "chan r [] \<Longrightarrow> deq r = Some (PopEmpty, r)"
    and pop_entry: "chan r (p # xs) \<Longrightarrow>
      \<exists>r'. deq r = Some (PopEntry p, r') \<and> chan r' xs \<and> (\<forall>n. fresh r n \<longrightarrow> fresh r' n)"
    and fresh_Suc: "fresh r (Suc n) \<Longrightarrow> fresh r n"

datatype chan_op = DoAppend "byte list" | DoPop

fun chan_run :: "('r \<Rightarrow> byte list \<Rightarrow> ring_error + 'r) \<Rightarrow> ('r \<Rightarrow> (pop_result \<times> 'r) option) \<Rightarrow> 'r \<Rightarrow>
    chan_op list \<Rightarrow> ('r \<times> byte list list \<times> byte list list) option" where
  "chan_run enq deq r [] = Some (r, [], [])"
| "chan_run enq deq r (DoAppend p # ops) =
     (case enq r p of
        Inl _ \<Rightarrow> chan_run enq deq r ops
      | Inr r' \<Rightarrow> map_option (\<lambda>(r'', ins, outs). (r'', p # ins, outs)) (chan_run enq deq r' ops))"
| "chan_run enq deq r (DoPop # ops) =
     (case deq r of
        Some (PopEntry p, r') \<Rightarrow>
          map_option (\<lambda>(r'', ins, outs). (r'', ins, p # outs)) (chan_run enq deq r' ops)
      | Some (PopEmpty, r') \<Rightarrow> chan_run enq deq r' ops
      | _ \<Rightarrow> None)"

fun small_payloads :: "chan_op list \<Rightarrow> bool" where
  "small_payloads [] = True"
| "small_payloads (DoAppend p # ops) = (length p < 2 ^ 32 - 1 \<and> small_payloads ops)"
| "small_payloads (DoPop # ops) = small_payloads ops"

context oplog_channel
begin

lemma run_fifo:
  "chan r xs \<Longrightarrow> fresh r (length ops) \<Longrightarrow> small_payloads ops \<Longrightarrow>
   \<exists>r' ins outs ys. chan_run enq deq r ops = Some (r', ins, outs) \<and> chan r' ys \<and>
     xs @ ins = outs @ ys"
proof (induction ops arbitrary: r xs)
  case Nil
  then show ?case by simp
next
  case (Cons op ops)
  show ?case
  proof (cases op)
    case (DoAppend p)
    show ?thesis
    proof (cases "enq r p")
      case (Inl e)
      from Cons.prems(2,3) DoAppend have "fresh r (length ops)" "small_payloads ops"
        by (auto dest: fresh_Suc)
      from Cons.IH [OF Cons.prems(1) this] DoAppend Inl show ?thesis by simp
    next
      case (Inr r')
      then have "chan r' (xs @ [p])" "fresh r' (length ops)" "small_payloads ops"
        using append_ok [OF Cons.prems(1) _ _ Inr] Cons.prems(2,3) DoAppend by auto
      from Cons.IH [OF this] DoAppend Inr show ?thesis by auto
    qed
  next
    case DoPop
    have f: "fresh r (length ops)" using Cons.prems(2) fresh_Suc by simp
    have sm: "small_payloads ops" using Cons.prems(3) DoPop by simp
    show ?thesis
    proof (cases xs)
      case Nil
      then have "deq r = Some (PopEmpty, r)" using pop_empty Cons.prems(1) by simp
      with Cons.IH [OF Cons.prems(1) f sm] DoPop show ?thesis by simp
    next
      case xs: (Cons p ys)
      from pop_entry [of r p ys] Cons.prems(1) xs f obtain r' where r':
        "deq r = Some (PopEntry p, r')" "chan r' ys" "fresh r' (length ops)"
        by auto
      from Cons.IH [OF r'(2,3) sm] DoPop xs r'(1) show ?thesis by fastforce
    qed
  qed
qed

end

definition ring_fresh :: "mapping \<Rightarrow> nat \<Rightarrow> bool" where
  "ring_fresh m n \<longleftrightarrow> ring_tail m + 2 * n * ring_cap m + ring_cap m < 2 ^ 64"

lemma ring_needed_le: "esize n \<le> C \<Longrightarrow> ring_needed C t n \<le> 2 * C"
  by (auto simp: ring_needed_def)

lemma Append_cases:
  assumes inv: "ring_inv m xs" and L: "length p < 2 ^ 32 - 1"
    and nowrap: "ring_head m + ring_cap m < 2 ^ 64"
  obtains (large) "Append m p = Inl ErrPayloadTooLarge" "ring_cap m < esize (length p)"
  | (full) "Append m p = Inl ErrRingFull" "esize (length p) \<le> ring_cap m"
      "ring_cap m - (ring_tail m - ring_head m) < ring_needed (ring_cap m) (ring_tail m) (length p)"
  | (accepted) m' where "Append m p = Inr m'" "esize (length p) \<le> ring_cap m"
      "ring_inv m' (xs @ [p])" "capacity m' = capacity m"
      "ring_head m' = ring_head m"
      "ring_tail m' = ring_tail m + ring_needed (ring_cap m) (ring_tail m) (length p)"
proof (cases "ring_cap m < esize (length p)")
  case True
  then show ?thesis using large by (simp add: Append_unfold [OF inv L])
next
  case fits: False
  show ?thesis
  proof (cases "ring_cap m - (ring_tail m - ring_head m)
      < ring_needed (ring_cap m) (ring_tail m) (length p)")
    case True
    then show ?thesis using full fits by (simp add: Append_unfold [OF inv L])
  next
    case False
    with Append_success [OF inv L _ _ nowrap] fits accepted show ?thesis by auto
  qed
qed

lemma ring_fresh_nowrap: "ring_inv m xs \<Longrightarrow> ring_fresh m n \<Longrightarrow> ring_head m + ring_cap m < 2 ^ 64"
  using ring_invD(7) [of m xs] by (simp add: ring_fresh_def)

lemma ring_cap_cong: "capacity m' = capacity m \<Longrightarrow> ring_cap m' = ring_cap m"
  by (simp add: ring_cap_def)

interpretation rq: oplog_channel Append Pop ring_inv ring_fresh
proof unfold_locales
  fix r xs n p r'
  assume a: "ring_inv r xs" "ring_fresh r (Suc n)" "length p < 2 ^ 32 - 1" "Append r p = Inr r'"
  from a(1,3) ring_fresh_nowrap [OF a(1,2)] show "ring_inv r' (xs @ [p]) \<and> ring_fresh r' n"
  proof (cases rule: Append_cases)
    case (accepted m')
    then have "ring_inv r' (xs @ [p])" "ring_cap r' = ring_cap r"
      "ring_tail r' \<le> ring_tail r + 2 * ring_cap r"
      using a(4) ring_needed_le [OF accepted(2), of "ring_tail r"] by (auto intro: ring_cap_cong)
    then show ?thesis using a(2) by (auto simp: ring_fresh_def algebra_simps)
  qed (use a(4) in auto)
next
  fix r xs n p e
  assume a: "ring_inv r xs" "ring_fresh r (Suc n)" "length p < 2 ^ 32 - 1" "Append r p = Inl e"
  from a(1,3) ring_fresh_nowrap [OF a(1,2)] show "e = ErrPayloadTooLarge \<or> e = ErrRingFull"
    by (cases rule: Append_cases) (use a(4) in auto)
next
  fix r assume "ring_inv r []"
  then show "Pop r = Some (PopEmpty, r)" by (rule Pop_empty)
next
  fix r p xs assume "ring_inv r (p # xs)"
  from Pop_entry [OF this] show "\<exists>r'. Pop r = Some (PopEntry p, r') \<and> ring_inv r' xs \<and>
      (\<forall>n. ring_fresh r n \<longrightarrow> ring_fresh r' n)"
    by (auto simp: ring_fresh_def dest: ring_cap_cong)
next
  fix r n assume "ring_fresh r (Suc n)"
  then show "ring_fresh r n" by (simp add: ring_fresh_def)
qed

section \<open>Creation and opening\<close>

lemma sint_small:
  assumes "unat (w :: u64) < 2 ^ 63"
  shows "sint w = int (unat w)"
proof -
  have "int (unat w) < int (2 ^ 63)" using assms by (simp only: of_nat_less_iff)
  then have "uint w < 2 ^ 63" by simp
  moreover have "- (2 ^ 63) \<le> uint w" by (rule order_trans [OF _ unsigned_greater_eq]) simp
  ultimately have "signed_take_bit 63 (uint w) = uint w" by (intro signed_take_bit_int_eq_self)
  then show ?thesis by (simp add: sint_uint)
qed

lemma header_reads:
  assumes "putUint32 0 a d0 = Some d1" "putUint32 4 b d1 = Some d2" "putUint64 8 c d2 = Some d3"
    "putUint64 16 h d3 = Some d4" "putUint64 24 t d4 = Some d5"
  shows "getUint32 d5 0 = Some a" "getUint32 d5 4 = Some b" "getUint64 d5 8 = Some c"
    "loadHead \<lparr>data = d5, capacity = k\<rparr> = h" "loadTail \<lparr>data = d5, capacity = k\<rparr> = t"
    "length d5 = length d0"
proof -
  note P = assms [unfolded putUint32_def putUint64_def]
  note O = put_at_other [OF P(2)] put_at_other [OF P(3)] put_at_other [OF P(4)] put_at_other [OF P(5)]
  show "getUint32 d5 0 = Some a"
    using put_at_same [OF P(1)] O [of 0 4] by (simp add: getUint32_def)
  show "getUint32 d5 4 = Some b"
    using put_at_same [OF P(2)] O(2-4) [of 4 4] by (simp add: getUint32_def)
  show "getUint64 d5 8 = Some c"
    using put_at_same [OF P(3)] O(3-4) [of 8 8] by (simp add: getUint64_def)
  have "slice_at 16 8 d5 = Some (le_bytes 8 h)"
    using put_at_same [OF P(4)] O(4) [of 16 8] by simp
  then show "loadHead \<lparr>data = d5, capacity = k\<rparr> = h"
    by (simp add: loadHead_def slice_at_def split: if_splits)
  have "slice_at 24 8 d5 = Some (le_bytes 8 t)"
    using put_at_same [OF P(5)] by simp
  then show "loadTail \<lparr>data = d5, capacity = k\<rparr> = t"
    by (simp add: loadTail_def slice_at_def split: if_splits)
  show "length d5 = length d0" using P by (simp add: put_at_length)
qed

lemma Create_open:
  assumes c: "Create io cap = Inr content" and cap: "unat cap < 2 ^ 62" and os: "io' (length content) = None"
  shows "openMapping io' content = Inr \<lparr>data = content, capacity = alignUp cap\<rparr>"
    "ring_inv \<lparr>data = content, capacity = alignUp cap\<rparr> []"
proof -
  let ?cap = "alignUp cap" and ?m = "\<lparr>data = content, capacity = alignUp cap\<rparr>"
  define N where "N = unat ?cap"
  have "unat ?cap = (unat cap + 7) div 8 * 8" using cap by (intro unat_alignUp) simp
  then have N: "N < 2 ^ 62 + 8" "8 dvd N" "unat cap \<le> N" using cap by (auto simp: N_def)
  have eq: "(if cap mod 8 \<noteq> 0 then cap + (8 - cap mod 8) else cap) = ?cap"
    by (simp add: alignUp_def)
  have "sint ?cap = int N" using N(1) by (simp add: sint_small N_def)
  moreover have "i64_range (int headerSize + int N)"
    using N(1) by (simp add: i64_range_def headerSize_def)
  ultimately have tot: "i64 (int headerSize + sint ?cap) = int (headerSize + N)"
    by (simp add: i64_id)
  then have ntot: "nat (i64 (int headerSize + sint ?cap)) = headerSize + N" by simp
  from c have ge: "\<not> cap < minCapacity" by (auto simp: Create_def)
  have pos: "0 < N" using ge N(3) by (simp add: word_less_nat_alt minCapacity_def)
  from c obtain d1 d2 d3 d4 where
    d: "putUint32 0 magic (replicate (headerSize + N) 0) = Some d1"
      "putUint32 4 version d1 = Some d2" "putUint64 8 ?cap d2 = Some d3"
      "putUint64 16 0 d3 = Some d4" "putUint64 24 0 d4 = Some content"
    unfolding Create_def eq Let_def ntot
    by (auto simp: panics_def bind_eq_Some_conv split: if_splits option.splits)
  note R = header_reads [OF d]
  have len: "length content = headerSize + N" using R(6) by simp
  show "openMapping io' content = Inr ?m"
    using os R(1-3) len tot by (simp add: openMapping_def)
  have "unat (capacity ?m) = N" by (simp add: N_def)
  then show "ring_inv ?m []"
    using len N pos R(4,5) [of ?cap]
    by (simp add: ring_inv_def headerSize_def ring_rep.rep_done)
qed

section \<open>An empty ring of any capacity\<close>

definition zero_ring :: "nat \<Rightarrow> mapping" where
  "zero_ring n = \<lparr>data = replicate (64 + n) 0, capacity = of_nat n\<rparr>"

lemma zero_ring_cursors:
  "loadHead (zero_ring n) = 0" "loadTail (zero_ring n) = 0" "Pending (zero_ring n) = 0"
proof -
  have z: "le_word (replicate 8 0) = (0 :: u64)" by code_simp
  show h: "loadHead (zero_ring n) = 0" and t: "loadTail (zero_ring n) = 0"
    by (simp_all add: loadHead_def loadTail_def zero_ring_def z)
  show "Pending (zero_ring n) = 0" by (simp add: Pending_def h t)
qed

lemma zero_ring_inv:
  assumes "8 dvd n" "0 < n" "64 + n < 2 ^ 63"
  shows "ring_inv (zero_ring n) []" "ring_cap (zero_ring n) = n"
proof -
  have u: "unat (of_nat n :: u64) = n" using assms(3) by (simp add: unat_of_nat take_bit_nat_eq_self)
  show "ring_cap (zero_ring n) = n" using u by (simp add: ring_cap_def zero_ring_def)
  show "ring_inv (zero_ring n) []"
    using assms u zero_ring_cursors [of n]
    by (simp add: ring_inv_def headerSize_def ring_rep.rep_done) (simp add: zero_ring_def)
qed

lemma zero_ring_append:
  assumes "8 dvd n" "0 < n" "64 + n < 2 ^ 63" "length p + 15 \<le> n" "length p < 2 ^ 32 - 1"
  shows "\<exists>m. Append (zero_ring n) p = Inr m \<and> ring_inv m [p]"
proof -
  note inv = zero_ring_inv [OF assms(1-3)]
  have e: "esize (length p) \<le> n" using esize_bounds(2) [of "length p"] assms(4) by linarith
  have "ring_tail (zero_ring n) = 0" "ring_head (zero_ring n) = 0"
    by (simp_all add: ring_nat_defs zero_ring_cursors)
  with e assms(3) show ?thesis
    using Append_success [OF inv(1) assms(5)] by (fastforce simp: inv(2) ring_needed_def)
qed

section \<open>Properties of the ring\<close>

text \<open>C1. \<open>Append\<close> refines enqueueing.  On a ring whose unread entries carry the payloads \<open>xs\<close>, it
  fails with \<open>ErrPayloadTooLarge\<close> exactly when the aligned entry exceeds the capacity, with
  \<open>ErrRingFull\<close> exactly when the entry (with the skip to the boundary it needs) exceeds the free
  space, and otherwise leaves a well-formed ring carrying \<open>xs\<close> followed by the payload; it never
  panics and never moves the consumer's cursor.\<close>

theorem append_refines_enqueue:
  assumes "ring_inv m xs" and "length p < 2 ^ 32 - 1" and "ring_head m + ring_cap m < 2 ^ 64"
  shows "if ring_cap m < esize (length p) then Append m p = Inl ErrPayloadTooLarge
     else if ring_cap m - (ring_tail m - ring_head m)
               < ring_needed (ring_cap m) (ring_tail m) (length p) then Append m p = Inl ErrRingFull
     else \<exists>m'. Append m p = Inr m' \<and> ring_inv m' (xs @ [p]) \<and> capacity m' = capacity m \<and>
            ring_head m' = ring_head m"
proof (cases "ring_cap m < esize (length p)")
  case True
  then show ?thesis by (simp add: Append_unfold [OF assms(1,2)])
next
  case False
  with Append_success [OF assms(1,2) _ _ assms(3)] show ?thesis
    by (auto simp: Append_unfold [OF assms(1,2)])
qed

definition demo_ring :: mapping where
  "demo_ring = \<lparr>data = replicate 96 0, capacity = 32\<rparr>"

lemma demo_ring_inv: "ring_inv demo_ring []"
proof -
  have "loadHead demo_ring = 0" "loadTail demo_ring = 0" by code_simp+
  then show ?thesis
    by (simp add: ring_inv_def headerSize_def ring_rep.rep_done demo_ring_def)
qed

lemma demo_ring_nats: "ring_cap demo_ring = 32" "ring_head demo_ring = 0" "ring_tail demo_ring = 0"
  by code_simp+

theorem append_refines_enqueue_witness:
  "ring_inv demo_ring [] \<and> ring_head demo_ring + ring_cap demo_ring < 2 ^ 64 \<and>
   (\<exists>m'. Append demo_ring [7, 8, 9] = Inr m' \<and> ring_inv m' [[7, 8, 9]])"
  using append_refines_enqueue [OF demo_ring_inv, of "[7, 8, 9]"] demo_ring_inv
  by (auto simp: demo_ring_nats esize_def ring_needed_def split: if_splits)

text \<open>C2. \<open>Pop\<close> refines dequeueing, and always returns: on an empty queue it reports no entry and
  changes nothing, otherwise it returns the oldest payload (skipping at most the padding before
  the boundary) and leaves a well-formed ring carrying the rest.\<close>

theorem pop_refines_dequeue:
  assumes "ring_inv m xs"
  shows "case xs of [] \<Rightarrow> Pop m = Some (PopEmpty, m)
     | p # ys \<Rightarrow> \<exists>m'. Pop m = Some (PopEntry p, m') \<and> ring_inv m' ys \<and> capacity m' = capacity m \<and>
         ring_tail m' = ring_tail m"
  using assms by (auto split: list.split dest: Pop_empty Pop_entry)

theorem pop_refines_dequeue_witness:
  "ring_inv demo_ring [] \<and> Pop demo_ring = Some (PopEmpty, demo_ring)"
  using pop_refines_dequeue [OF demo_ring_inv] demo_ring_inv by simp

text \<open>C3. The ring is a lossless FIFO channel: for every interleaved sequence of append and pop
  operations (payloads below the 32-bit length limit, cursors short of their 64-bit range), the
  run returns, and the payloads that were in the ring followed by those accepted are exactly the
  payloads popped followed by those still in the ring: none is lost, duplicated or reordered.\<close>

theorem ring_channel_fifo:
  assumes "ring_inv m xs" and "ring_fresh m (length ops)" and "small_payloads ops"
  shows "\<exists>m' ins outs ys. chan_run Append Pop m ops = Some (m', ins, outs) \<and> ring_inv m' ys \<and>
     xs @ ins = outs @ ys"
  using assms by (rule rq.run_fifo)

theorem ring_channel_fifo_witness:
  "ring_inv demo_ring [] \<and>
   (\<exists>m' ins outs ys. chan_run Append Pop demo_ring [DoAppend [1, 2], DoPop] = Some (m', ins, outs) \<and>
      ring_inv m' ys \<and> ins = outs @ ys)"
  using ring_channel_fifo [OF demo_ring_inv, of "[DoAppend [1, 2], DoPop]"] demo_ring_inv
  by (simp add: ring_fresh_def demo_ring_nats)

text \<open>C21. A ring that \<open>Create\<close> made is one that \<open>openMapping\<close> accepts: the header checks (magic,
  version, size) pass, the capacity is the requested one rounded up to a multiple of 8, and the
  ring is well-formed and empty.\<close>

theorem create_then_open:
  assumes "Create io cap = Inr content" and "unat cap < 2 ^ 62" and "io' (length content) = None"
  shows "openMapping io' content = Inr \<lparr>data = content, capacity = alignUp cap\<rparr> \<and>
     ring_inv \<lparr>data = content, capacity = alignUp cap\<rparr> []"
  using Create_open [of io cap content io'] assms by blast

theorem create_then_open_witness:
  "\<exists>content. Create (\<lambda>_. None) 4096 = Inr content \<and>
     openMapping (\<lambda>_. None) content = Inr \<lparr>data = content, capacity = alignUp 4096\<rparr>"
proof -
  have "\<exists>content. Create (\<lambda>_. None) 4096 = Inr content"
    by (simp add: Create_def Let_def minCapacity_def headerSize_def i64_def putUint32_def
        putUint64_def put_at_def)
  then obtain content where f: "Create (\<lambda>_. None) 4096 = Inr content" by blast
  then show ?thesis using create_then_open [OF f, of "\<lambda>_. None"] by simp
qed

text \<open>An empty ring can refuse an entry it could hold: when the tail sits so that the entry
  fits neither before the boundary nor, with the skip, in the whole capacity, \<open>Append\<close> reports
  \<open>ErrRingFull\<close> although the consumer has read everything; since \<open>Pop\<close> does not move the cursors of
  an empty ring, every retry fails the same way.\<close>

theorem append_full_on_empty_ring:
  assumes "ring_inv m []" and "length p < 2 ^ 32 - 1" and "esize (length p) \<le> ring_cap m"
    and "ring_cap m - ring_tail m mod ring_cap m < esize (length p)"
    and "ring_tail m mod ring_cap m < esize (length p)"
  shows "Append m p = Inl ErrRingFull \<and> Pop m = Some (PopEmpty, m)"
proof -
  have "ring_head m = ring_tail m" by (rule ring_rep_Nil [OF ring_invD(9) [OF assms(1)]])
  moreover have "ring_tail m mod ring_cap m < ring_cap m"
    using ring_invD(4) [OF assms(1)] by simp
  ultimately show ?thesis
    using assms Pop_empty [OF assms(1)]
    by (auto simp: Append_unfold [OF assms(1,2)] ring_needed_def)
qed

definition demo_stuck_ring :: mapping where
  "demo_stuck_ring = \<lparr>data = replicate 16 0 @ le_bytes 8 (16 :: u64) @ le_bytes 8 (16 :: u64)
     @ replicate 64 0, capacity = 32\<rparr>"

theorem append_full_on_empty_ring_witness:
  "ring_inv demo_stuck_ring [] \<and> Append demo_stuck_ring (replicate 20 1) = Inl ErrRingFull"
proof -
  have c: "loadHead demo_stuck_ring = 16" "loadTail demo_stuck_ring = 16" by code_simp+
  then have "ring_inv demo_stuck_ring []"
    by (simp add: ring_inv_def headerSize_def ring_rep.rep_done demo_stuck_ring_def)
  moreover have "ring_cap demo_stuck_ring = 32" "ring_tail demo_stuck_ring = 16" by code_simp+
  ultimately show ?thesis
    using append_full_on_empty_ring [of demo_stuck_ring "replicate 20 1"] by (simp add: esize_def)
qed

end
