(* ===== verification/Topology_Types.thy ===== *)
theory Topology_Types
  imports Stack_Prelude "HOL-Library.AList"
begin

text \<open>
  Data shared by the control plane: the enumerations and messages of the topology protocol
  (\<^verbatim>\<open>api/topology/v1\<close>), instants and durations, and Go maps as association lists, whose order
  stands for the unspecified iteration order of a \<^verbatim>\<open>range\<close> loop.
\<close>

section \<open>Time\<close>

text \<open>A \<^verbatim>\<open>time.Time\<close> is its distance in nanoseconds from the Unix epoch, a \<^verbatim>\<open>time.Duration\<close> an
  \<^verbatim>\<open>int64\<close> of nanoseconds.  \<open>time_sub\<close> saturates as \<^verbatim>\<open>Time.Sub\<close> does.\<close>

type_synonym time = int
type_synonym duration = int64

definition zero_time :: time where
  "zero_time = -62135596800 * 10 ^ 9"

definition UnixMilli :: "time \<Rightarrow> int64" where
  "UnixMilli t = t div 1000000"

definition time_sub :: "time \<Rightarrow> time \<Rightarrow> duration" where
  "time_sub t u = max (- (2 ^ 63)) (min (2 ^ 63 - 1) (t - u))"

abbreviation second :: duration where "second \<equiv> 1000000000"
abbreviation millisecond :: duration where "millisecond \<equiv> 1000000"

lemma UnixMilli_mono: "t \<le> u \<Longrightarrow> UnixMilli t \<le> UnixMilli u"
  by (simp add: UnixMilli_def zdiv_mono1)

lemma UnixMilli_nonneg: "0 \<le> t \<Longrightarrow> 0 \<le> UnixMilli t"
  by (simp add: UnixMilli_def pos_imp_zdiv_nonneg_iff)

lemma time_sub_gt:
  "d < 2 ^ 63 - 1 \<Longrightarrow> - (2 ^ 63) \<le> d \<Longrightarrow> d < time_sub t u \<longleftrightarrow> d < t - u"
  by (auto simp: time_sub_def)

section \<open>Maps\<close>

text \<open>\<^verbatim>\<open>m[k]\<close> is \<open>map_of m k\<close>, \<^verbatim>\<open>m[k] = v\<close> is \<open>AList.update k v m\<close> and \<^verbatim>\<open>delete(m, k)\<close> is
  \<open>AList.delete k m\<close>.  A Go map has each key once: \<open>gomap\<close>.\<close>

definition gomap :: "('k \<times> 'v) list \<Rightarrow> bool" where
  "gomap m \<longleftrightarrow> distinct (map fst m)"

lemma gomap_empty [simp]: "gomap []"
  by (simp add: gomap_def)

lemma gomap_update [simp]: "gomap m \<Longrightarrow> gomap (AList.update k v m)"
  by (simp add: gomap_def distinct_update)

lemma gomap_delete [simp]: "gomap m \<Longrightarrow> gomap (AList.delete k m)"
  by (simp add: gomap_def distinct_delete)

lemma gomap_in: "gomap m \<Longrightarrow> (k, v) \<in> set m \<longleftrightarrow> map_of m k = Some v"
  by (auto simp: gomap_def map_of_is_SomeI dest: map_of_SomeD)

lemma gomap_map_vals [simp]: "gomap (map (\<lambda>(k, v). (k, f k v)) m) = gomap m"
  by (simp add: gomap_def o_def case_prod_unfold)

lemma gomap_filter [simp]: "gomap m \<Longrightarrow> gomap (filter P m)"
  by (simp add: gomap_def distinct_map_filter)

lemma map_of_map_vals: "map_of (map (\<lambda>(k, v). (k, f k v)) m) k = map_option (f k) (map_of m k)"
  by (induction m) auto

lemma map_of_filter_gomap:
  "gomap m \<Longrightarrow> map_of (filter P m) k =
    (case map_of m k of None \<Rightarrow> None | Some v \<Rightarrow> if P (k, v) then Some v else None)"
proof (induction m)
  case (Cons x m)
  obtain a b where x: "x = (a, b)" by (cases x)
  from Cons.prems have "gomap m" and "a \<notin> fst ` set m" by (auto simp: gomap_def x)
  then have "map_of m a = None" "map_of (filter P m) a = None"
    by (auto simp: map_of_eq_None_iff)
  with Cons.IH [OF \<open>gomap m\<close>] show ?case by (auto simp: x)
qed simp

section \<open>Enumerations\<close>

text \<open>A protobuf enumeration is open: a value without a name is carried by the last constructor.\<close>

datatype NodeState =
    NODE_STATE_UNSPECIFIED | NODE_STATE_JOINING | NODE_STATE_READY | NODE_STATE_SUSPECT
  | NODE_STATE_UNREACHABLE | NODE_STATE_DRAINING | NODE_STATE_LEAVING | NODE_STATE_REMOVED
  | NODE_STATE_OTHER int

datatype WatchdogRole =
    WATCHDOG_ROLE_UNSPECIFIED | WATCHDOG_ROLE_PRIMARY | WATCHDOG_ROLE_STANDBY
  | WATCHDOG_ROLE_OTHER int

datatype TopologyReason =
    TOPOLOGY_REASON_UNSPECIFIED | TOPOLOGY_REASON_EVENT | TOPOLOGY_REASON_BOOKWORM
  | TOPOLOGY_REASON_PRUNE | TOPOLOGY_REASON_RECONCILE | TOPOLOGY_REASON_PRIMARY_CHANGE

section \<open>Messages\<close>

record Heartbeat =
  hb_stack_id :: string
  hb_node_id :: string
  hb_pod_name :: string
  hb_pod_ip :: string
  hb_incarnation :: int64
  hb_observed_epoch :: int64
  hb_state :: NodeState
  hb_protocol_version :: string

record Member =
  mb_node_id :: string
  mb_pod_name :: string
  mb_pod_ip :: string
  mb_incarnation :: int64
  mb_state :: NodeState
  mb_last_seen_unix_ms :: int64

record TopologyEnvelope =
  env_stack_id :: string
  env_members :: "Member list"
  env_epoch :: int64
  env_reason :: TopologyReason
  env_valid_until_unix_ms :: int64
  env_watchdog_id :: string
  env_watchdog_generation :: int64
  env_watchdog_role :: WatchdogRole

end
