(* ===== verification/Olric_Store.thy ===== *)
theory Olric_Store
  imports Topology_Types
begin

text \<open>
  The storage engine of a partition (\<^verbatim>\<open>internal/olricstore\<close>): the entry codec of
  \<^verbatim>\<open>entry.go\<close> and the in-memory engine of \<^verbatim>\<open>engine.go\<close> with its scan and transfer iterators.
  The main results: the codec round trip with its exact limit on keys, the map laws of the
  engine, that a paged scan visits every matching entry exactly once in key order, and that a
  transfer moves every entry.
\<close>

section \<open>Entries\<close>

record Entry =
  en_key :: string
  en_value :: "byte list"
  en_ttl :: int64
  en_timestamp :: int64
  en_lastAccess :: int64

definition NewEntry :: Entry where
  "NewEntry = \<lparr>en_key = '''', en_value = [], en_ttl = 0, en_timestamp = 0, en_lastAccess = 0\<rparr>"

definition Entry_Encode :: "Entry \<Rightarrow> byte list" where
  "Entry_Encode e =
     [of_nat (length (en_key e))] @ string_bytes (en_key e)
     @ be_bytes 8 (word_of_int (en_ttl e) :: u64)
     @ be_bytes 8 (word_of_int (en_timestamp e) :: u64)
     @ be_bytes 8 (word_of_int (en_lastAccess e) :: u64)
     @ be_bytes 4 (of_nat (length (en_value e)) :: u32)
     @ en_value e"

text \<open>\<open>Decode\<close> reads a buffer without spare capacity; \<open>None\<close> is the panic of a read past its
  end.\<close>

definition read_u64 :: "nat \<Rightarrow> byte list \<Rightarrow> int64 option" where
  "read_u64 offset buf = map_option (\<lambda>bs. sint (be_word bs :: u64)) (slice_at offset 8 buf)"

definition Entry_Decode :: "byte list \<Rightarrow> Entry option" where
  "Entry_Decode buf =
     Option.bind (slice_at 0 1 buf) (\<lambda>b.
     let keyLen = unat (hd b); offset = 1 in
     Option.bind (slice_at offset keyLen buf) (\<lambda>key.
     let offset = offset + keyLen in
     Option.bind (read_u64 offset buf) (\<lambda>ttl.
     Option.bind (read_u64 (offset + 8) buf) (\<lambda>timestamp.
     Option.bind (read_u64 (offset + 16) buf) (\<lambda>lastAccess.
     Option.bind (slice_at (offset + 24) 4 buf) (\<lambda>l.
     let valueLen = unat (be_word l :: u32) in
     Option.bind (slice_at (offset + 28) valueLen buf) (\<lambda>value.
     Some \<lparr>en_key = bytes_string key, en_value = value, en_ttl = ttl,
           en_timestamp = timestamp, en_lastAccess = lastAccess\<rparr>)))))))"

definition cloneEntry :: "Entry \<Rightarrow> Entry" where
  "cloneEntry entry =
     NewEntry\<lparr>en_key := en_key entry, en_value := en_value entry, en_ttl := en_ttl entry,
              en_timestamp := en_timestamp entry, en_lastAccess := en_lastAccess entry\<rparr>"

lemma cloneEntry_id [simp]: "cloneEntry e = e"
  by (cases e) (simp add: cloneEntry_def NewEntry_def)

section \<open>The engine\<close>

datatype store_error =
    ErrKeyNotFound | ErrNotPositioned | ErrCodec string | ErrCallback string | StorePanic

record Engine =
  entries :: "(u64 \<times> Entry) list"

definition Engine_New :: Engine where
  "Engine_New = \<lparr>entries = []\<rparr>"

definition Engine_Fork :: "Engine \<Rightarrow> Engine" where
  "Engine_Fork e = \<lparr>entries = []\<rparr>"

definition Engine_Put :: "Engine \<Rightarrow> u64 \<Rightarrow> Entry \<Rightarrow> Engine" where
  "Engine_Put e hkey entry = e\<lparr>entries := AList.update hkey (cloneEntry entry) (entries e)\<rparr>"

definition Engine_PutRaw :: "Engine \<Rightarrow> u64 \<Rightarrow> byte list \<Rightarrow> store_error + Engine" where
  "Engine_PutRaw e hkey raw =
     (case Entry_Decode raw of None \<Rightarrow> Inl StorePanic | Some entry \<Rightarrow> Inr (Engine_Put e hkey entry))"

definition Engine_Get :: "Engine \<Rightarrow> u64 \<Rightarrow> store_error + Entry" where
  "Engine_Get e hkey =
     (case map_of (entries e) hkey of
        Some entry \<Rightarrow> Inr (cloneEntry entry) | None \<Rightarrow> Inl ErrKeyNotFound)"

definition Engine_GetRaw :: "Engine \<Rightarrow> u64 \<Rightarrow> store_error + byte list" where
  "Engine_GetRaw e hkey = and_then (Engine_Get e hkey) (\<lambda>entry. Inr (Entry_Encode entry))"

definition Engine_GetTTL :: "Engine \<Rightarrow> u64 \<Rightarrow> store_error + int64" where
  "Engine_GetTTL e hkey = and_then (Engine_Get e hkey) (\<lambda>entry. Inr (en_ttl entry))"

definition Engine_GetLastAccess :: "Engine \<Rightarrow> u64 \<Rightarrow> store_error + int64" where
  "Engine_GetLastAccess e hkey = and_then (Engine_Get e hkey) (\<lambda>entry. Inr (en_lastAccess entry))"

definition Engine_GetKey :: "Engine \<Rightarrow> u64 \<Rightarrow> store_error + string" where
  "Engine_GetKey e hkey = and_then (Engine_Get e hkey) (\<lambda>entry. Inr (en_key entry))"

definition Engine_Delete :: "Engine \<Rightarrow> u64 \<Rightarrow> Engine" where
  "Engine_Delete e hkey = e\<lparr>entries := AList.delete hkey (entries e)\<rparr>"

definition Engine_UpdateTTL :: "Engine \<Rightarrow> u64 \<Rightarrow> Entry \<Rightarrow> store_error + Engine" where
  "Engine_UpdateTTL e hkey entry =
     (case map_of (entries e) hkey of
        None \<Rightarrow> Inl ErrKeyNotFound
      | Some current \<Rightarrow>
          Inr (e\<lparr>entries := AList.update hkey
                  (cloneEntry (current\<lparr>en_ttl := en_ttl entry, en_timestamp := en_timestamp entry,
                                       en_lastAccess := en_lastAccess entry\<rparr>)) (entries e)\<rparr>))"

definition Engine_Check :: "Engine \<Rightarrow> u64 \<Rightarrow> bool" where
  "Engine_Check e hkey \<longleftrightarrow> map_of (entries e) hkey \<noteq> None"

record Stats =
  st_Allocated :: int
  st_Inuse :: int
  st_Length :: int
  st_NumTables :: int

definition Engine_Stats :: "Engine \<Rightarrow> Stats" where
  "Engine_Stats e =
     (let inuse = fold (\<lambda>(_, entry) acc. i64 (acc + (int (length (en_key entry)) +
                        int (length (en_value entry)) + 32))) (entries e) 0
      in \<lparr>st_Allocated = inuse, st_Inuse = inuse, st_Length = int (length (entries e)),
          st_NumTables = 1\<rparr>)"

definition Engine_Destroy :: "Engine \<Rightarrow> Engine" where
  "Engine_Destroy e = e\<lparr>entries := []\<rparr>"

text \<open>\<open>Range\<close> hands the entries of a copy to the callback, in the unspecified order of the map,
  until it returns false; the callback's effects are on a state \<open>'s\<close>.\<close>

fun range_loop :: "('s \<Rightarrow> u64 \<Rightarrow> Entry \<Rightarrow> bool \<times> 's) \<Rightarrow> (u64 \<times> Entry) list \<Rightarrow> 's \<Rightarrow> 's" where
  "range_loop f [] s = s"
| "range_loop f ((hkey, entry) # items) s =
     (case f s hkey entry of (go, s') \<Rightarrow> if \<not> go then s' else range_loop f items s')"

definition Engine_Range :: "Engine \<Rightarrow> ('s \<Rightarrow> u64 \<Rightarrow> Entry \<Rightarrow> bool \<times> 's) \<Rightarrow> 's \<Rightarrow> 's" where
  "Engine_Range e f s = range_loop f (map (\<lambda>(hkey, entry). (hkey, cloneEntry entry)) (entries e)) s"

definition Engine_RangeHKey :: "Engine \<Rightarrow> ('s \<Rightarrow> u64 \<Rightarrow> bool \<times> 's) \<Rightarrow> 's \<Rightarrow> 's" where
  "Engine_RangeHKey e f s = Engine_Range e (\<lambda>s hkey _. f s hkey) s"

section \<open>Scan\<close>

fun scan_loop :: "(string \<Rightarrow> bool) option \<Rightarrow> int \<Rightarrow> ('s \<Rightarrow> Entry \<Rightarrow> bool \<times> 's) \<Rightarrow> int \<Rightarrow>
    (u64 \<times> Entry) list \<Rightarrow> 's \<Rightarrow> u64 \<times> 's" where
  "scan_loop re count f emitted [] s = (0, s)"
| "scan_loop re count f emitted ((hkey, entry) # items) s =
     (if (case re of None \<Rightarrow> False | Some match \<Rightarrow> \<not> match (en_key entry))
      then scan_loop re count f emitted items s
      else case f s entry of (go, s') \<Rightarrow>
        if \<not> go then (hkey, s')
        else if emitted + 1 \<ge> count
          then ((case items of [] \<Rightarrow> 0 | (next, _) # _ \<Rightarrow> next), s')
        else scan_loop re count f (emitted + 1) items s')"

definition Engine_scan :: "Engine \<Rightarrow> u64 \<Rightarrow> int \<Rightarrow> (string \<Rightarrow> bool) option \<Rightarrow>
    ('s \<Rightarrow> Entry \<Rightarrow> bool \<times> 's) \<Rightarrow> 's \<Rightarrow> u64 \<times> 's" where
  "Engine_scan e cursor count re f s =
     (let items = sort_key fst (filter (\<lambda>(hkey, _). hkey \<ge> cursor) (entries e));
          items = map (\<lambda>(hkey, entry). (hkey, cloneEntry entry)) items;
          count = (if count \<le> 0 then int (length items) else count)
      in scan_loop re count f 0 items s)"

definition Engine_Scan :: "Engine \<Rightarrow> u64 \<Rightarrow> int \<Rightarrow> ('s \<Rightarrow> Entry \<Rightarrow> bool \<times> 's) \<Rightarrow> 's \<Rightarrow> u64 \<times> 's" where
  "Engine_Scan e cursor count f s = Engine_scan e cursor count None f s"

text \<open>The regular expressions of \<^verbatim>\<open>regexp\<close> are an argument: \<open>compile\<close> gives an error or the
  matcher of an expression.\<close>

definition Engine_ScanRegexMatch :: "(string \<Rightarrow> string + (string \<Rightarrow> bool)) \<Rightarrow> Engine \<Rightarrow> u64 \<Rightarrow>
    string \<Rightarrow> int \<Rightarrow> ('s \<Rightarrow> Entry \<Rightarrow> bool \<times> 's) \<Rightarrow> 's \<Rightarrow> string + u64 \<times> 's" where
  "Engine_ScanRegexMatch compile e cursor match count f s =
     and_then (compile match) (\<lambda>re. Inr (Engine_scan e cursor count (Some re) f s))"

section \<open>Transfer\<close>

record transferItem =
  ti_HKey :: u64
  ti_Raw :: "byte list"

record transferIterator =
  it_items :: "transferItem list"
  it_next :: bool

definition Engine_TransferIterator :: "Engine \<Rightarrow> transferIterator" where
  "Engine_TransferIterator e =
     \<lparr>it_items = sort_key ti_HKey
        (map (\<lambda>(hkey, entry). \<lparr>ti_HKey = hkey, ti_Raw = Entry_Encode entry\<rparr>) (entries e)),
      it_next = False\<rparr>"

definition iter_Next :: "transferIterator \<Rightarrow> bool \<times> transferIterator" where
  "iter_Next i = (if it_next i \<or> it_items i = [] then (False, i) else (True, i\<lparr>it_next := True\<rparr>))"

text \<open>The MessagePack codec of \<^verbatim>\<open>vmihailenco/msgpack\<close> is an argument.\<close>

definition iter_Export :: "(transferItem list \<Rightarrow> string + byte list) \<Rightarrow> transferIterator \<Rightarrow>
    store_error + byte list \<times> int" where
  "iter_Export marshal i =
     (if \<not> it_next i then Inl ErrNotPositioned
      else case marshal (it_items i) of
        Inl err \<Rightarrow> Inl (ErrCodec err) | Inr bytes \<Rightarrow> Inr (bytes, 0))"

definition iter_Drop :: "transferIterator \<Rightarrow> Engine \<Rightarrow> Engine" where
  "iter_Drop i e = e\<lparr>entries := fold (\<lambda>item. AList.delete (ti_HKey item)) (it_items i) (entries e)\<rparr>"

fun import_loop :: "('s \<Rightarrow> u64 \<Rightarrow> Entry \<Rightarrow> string option \<times> 's) \<Rightarrow> transferItem list \<Rightarrow> 's \<Rightarrow>
    store_error option \<times> 's" where
  "import_loop f [] s = (None, s)"
| "import_loop f (item # items) s =
     (case Entry_Decode (ti_Raw item) of
        None \<Rightarrow> (Some StorePanic, s)
      | Some entry \<Rightarrow>
          (case f s (ti_HKey item) entry of
             (Some err, s') \<Rightarrow> (Some (ErrCallback err), s')
           | (None, s') \<Rightarrow> import_loop f items s'))"

definition Engine_Import :: "(byte list \<Rightarrow> string + transferItem list) \<Rightarrow> byte list \<Rightarrow>
    ('s \<Rightarrow> u64 \<Rightarrow> Entry \<Rightarrow> string option \<times> 's) \<Rightarrow> 's \<Rightarrow> store_error option \<times> 's" where
  "Engine_Import unmarshal bytes f s =
     (case unmarshal bytes of
        Inl err \<Rightarrow> (Some (ErrCodec err), s) | Inr items \<Rightarrow> import_loop f items s)"

section \<open>The codec\<close>

definition storable :: "Entry \<Rightarrow> bool" where
  "storable e \<longleftrightarrow> length (en_key e) < 256 \<and> length (en_value e) < 2 ^ 32 \<and>
     i64_range (en_ttl e) \<and> i64_range (en_timestamp e) \<and> i64_range (en_lastAccess e)"

lemma slice_at_middle: "d = a @ b @ c \<Longrightarrow> length a = i \<Longrightarrow> length b = n \<Longrightarrow> slice_at i n d = Some b"
  by (auto simp: slice_at_def)

lemma read_u64_middle:
  assumes "d = a @ be_bytes 8 (word_of_int x :: u64) @ c" "length a = i" "i64_range x"
  shows "read_u64 i d = Some x"
proof -
  from assms(1,2) have "slice_at i 8 d = Some (be_bytes 8 (word_of_int x :: u64))"
    by (rule slice_at_middle) simp
  with assms(3) show ?thesis by (simp add: read_u64_def sint_word_of_int_i64)
qed

lemma unat_of_nat_byte: "n < 256 \<Longrightarrow> unat (of_nat n :: byte) = n"
  by (simp add: unat_of_nat take_bit_nat_eq_self)

lemma Entry_Decode_Encode:
  assumes "storable e"
  shows "Entry_Decode (Entry_Encode e) = Some e"
proof -
  define K where "K = string_bytes (en_key e)"
  define T where "T = be_bytes 8 (word_of_int (en_ttl e) :: u64)"
  define S where "S = be_bytes 8 (word_of_int (en_timestamp e) :: u64)"
  define A where "A = be_bytes 8 (word_of_int (en_lastAccess e) :: u64)"
  define L where "L = be_bytes 4 (of_nat (length (en_value e)) :: u32)"
  define k where "k = length (en_key e)"
  define d where "d = Entry_Encode e"
  have d: "d = [of_nat k] @ K @ T @ S @ A @ L @ en_value e"
    by (simp add: d_def Entry_Encode_def K_def T_def S_def A_def L_def k_def)
  have len: "length K = k" "length T = 8" "length S = 8" "length A = 8" "length L = 4"
    by (simp_all add: K_def T_def S_def A_def L_def k_def)
  from assms have k: "unat (of_nat k :: byte) = k"
    by (simp add: k_def storable_def unat_of_nat_byte)
  have 1: "slice_at 0 1 d = Some [of_nat k]"
    by (rule slice_at_middle [of _ "[]" _ "K @ T @ S @ A @ L @ en_value e"]) (simp_all add: d)
  have 2: "slice_at 1 k d = Some K"
    by (rule slice_at_middle [of _ "[of_nat k]" _ "T @ S @ A @ L @ en_value e"])
      (simp_all add: d len)
  have 3: "read_u64 (1 + k) d = Some (en_ttl e)"
    by (rule read_u64_middle [of _ "[of_nat k] @ K" _ "S @ A @ L @ en_value e"])
      (use assms in \<open>simp_all add: d len T_def storable_def\<close>)
  have 4: "read_u64 (1 + k + 8) d = Some (en_timestamp e)"
    by (rule read_u64_middle [of _ "[of_nat k] @ K @ T" _ "A @ L @ en_value e"])
      (use assms in \<open>simp_all add: d len S_def storable_def\<close>)
  have 5: "read_u64 (1 + k + 16) d = Some (en_lastAccess e)"
    by (rule read_u64_middle [of _ "[of_nat k] @ K @ T @ S" _ "L @ en_value e"])
      (use assms in \<open>simp_all add: d len A_def storable_def\<close>)
  have 6: "slice_at (1 + k + 24) 4 d = Some L"
    by (rule slice_at_middle [of _ "[of_nat k] @ K @ T @ S @ A" _ "en_value e"])
      (simp_all add: d len)
  have 7: "unat (be_word L :: u32) = length (en_value e)"
    using assms by (simp add: L_def storable_def unat_of_nat take_bit_nat_eq_self)
  have 8: "slice_at (1 + k + 28) (length (en_value e)) d = Some (en_value e)"
    by (rule slice_at_middle [of _ "[of_nat k] @ K @ T @ S @ A @ L" _ "[]"]) (simp_all add: d len)
  show ?thesis
    unfolding d_def [symmetric] Entry_Decode_def Let_def 1 Option.bind.simps list.sel k 2 3 4 5 6 7 8
    by (simp add: K_def)
qed

lemma Entry_Decode_key_length:
  assumes "Entry_Decode buf = Some e"
  shows "length (en_key e) < 256"
proof -
  from assms obtain b key where
    "slice_at 1 (unat (hd b :: byte)) buf = Some key" "en_key e = bytes_string key"
    by (auto simp: Entry_Decode_def Let_def bind_eq_Some_conv)
  with slice_at_length [of 1 _ buf key] unsigned_less [of "hd b"] show ?thesis
    by (simp add: bytes_string_def)
qed

section \<open>The engine as a map\<close>

datatype store_op =
    StorePut u64 Entry | StoreDelete u64 | StoreUpdateTTL u64 Entry | StoreDestroy

text \<open>The abstract engine is a map from hash keys to entries.\<close>

fun spec_op :: "store_op \<Rightarrow> (u64 \<rightharpoonup> Entry) \<Rightarrow> (u64 \<rightharpoonup> Entry)" where
  "spec_op (StorePut h x) m = m(h \<mapsto> x)"
| "spec_op (StoreDelete h) m = m(h := None)"
| "spec_op (StoreUpdateTTL h x) m =
     (case m h of None \<Rightarrow> m
      | Some c \<Rightarrow> m(h \<mapsto> c\<lparr>en_ttl := en_ttl x, en_timestamp := en_timestamp x,
                          en_lastAccess := en_lastAccess x\<rparr>))"
| "spec_op StoreDestroy m = Map.empty"

fun engine_op :: "store_op \<Rightarrow> Engine \<Rightarrow> Engine" where
  "engine_op (StorePut h x) e = Engine_Put e h x"
| "engine_op (StoreDelete h) e = Engine_Delete e h"
| "engine_op (StoreUpdateTTL h x) e = (case Engine_UpdateTTL e h x of Inl _ \<Rightarrow> e | Inr e' \<Rightarrow> e')"
| "engine_op StoreDestroy e = Engine_Destroy e"

locale storage_engine =
  fixes exec :: "store_op \<Rightarrow> 'e \<Rightarrow> 'e"
    and get :: "'e \<Rightarrow> u64 \<Rightarrow> store_error + Entry"
    and view :: "'e \<Rightarrow> u64 \<rightharpoonup> Entry"
    and ok :: "'e \<Rightarrow> bool"
  assumes exec_view: "ok e \<Longrightarrow> ok (exec x e) \<and> view (exec x e) = spec_op x (view e)"
    and get_view: "get e h = (case view e h of None \<Rightarrow> Inl ErrKeyNotFound | Some x \<Rightarrow> Inr x)"
begin

lemma run_view: "ok e \<Longrightarrow> ok (fold exec xs e) \<and> view (fold exec xs e) = fold spec_op xs (view e)"
  by (induction xs arbitrary: e) (simp_all add: exec_view)

lemma run_get:
  "ok e \<Longrightarrow> get (fold exec xs e) h =
    (case fold spec_op xs (view e) h of None \<Rightarrow> Inl ErrKeyNotFound | Some x \<Rightarrow> Inr x)"
  by (simp add: get_view run_view)

end

definition engine_view :: "Engine \<Rightarrow> u64 \<rightharpoonup> Entry" where
  "engine_view e = map_of (entries e)"

definition engine_ok :: "Engine \<Rightarrow> bool" where
  "engine_ok e \<longleftrightarrow> gomap (entries e)"

lemma Engine_Put_view [simp]: "engine_view (Engine_Put e h x) = (engine_view e)(h \<mapsto> x)"
  by (simp add: engine_view_def Engine_Put_def update_conv')

lemma Engine_Delete_view [simp]: "engine_view (Engine_Delete e h) = (engine_view e)(h := None)"
  by (simp add: engine_view_def Engine_Delete_def delete_conv')

interpretation es: storage_engine engine_op Engine_Get engine_view engine_ok
proof
  show "engine_ok e \<Longrightarrow> engine_ok (engine_op x e) \<and> engine_view (engine_op x e) = spec_op x (engine_view e)"
    for e x
  proof (cases x)
    case (StoreUpdateTTL h y)
    assume "engine_ok e"
    with StoreUpdateTTL show ?thesis
      by (auto simp: engine_ok_def engine_view_def Engine_UpdateTTL_def update_conv'
          split: option.splits)
  qed (simp_all add: engine_ok_def Engine_Put_def Engine_Delete_def Engine_Destroy_def
         engine_view_def update_conv' delete_conv')
  show "Engine_Get e h = (case engine_view e h of None \<Rightarrow> Inl ErrKeyNotFound | Some x \<Rightarrow> Inr x)" for e h
    by (simp add: Engine_Get_def engine_view_def split: option.split)
qed

section \<open>Scanning in pages\<close>

abbreviation re_matches :: "(string \<Rightarrow> bool) option \<Rightarrow> u64 \<times> Entry \<Rightarrow> bool" where
  "re_matches re x \<equiv> (case re of None \<Rightarrow> True | Some match \<Rightarrow> match (en_key (snd x)))"

abbreviation collect :: "Entry list \<Rightarrow> Entry \<Rightarrow> bool \<times> Entry list" where
  "collect \<equiv> (\<lambda>acc e. (True, acc @ [e]))"

text \<open>A client reads pages until the returned cursor is zero.\<close>

fun scan_pages :: "nat \<Rightarrow> Engine \<Rightarrow> u64 \<Rightarrow> int \<Rightarrow> (string \<Rightarrow> bool) option \<Rightarrow> Entry list \<Rightarrow>
    Entry list option" where
  "scan_pages 0 e cursor count re acc = None"
| "scan_pages (Suc n) e cursor count re acc =
     (case Engine_scan e cursor count re collect acc of
        (cursor', acc') \<Rightarrow> if cursor' = 0 then Some acc' else scan_pages n e cursor' count re acc')"

definition cursor_of :: "(u64 \<times> Entry) list \<Rightarrow> u64" where
  "cursor_of xs = (case xs of [] \<Rightarrow> 0 | (h, _) # _ \<Rightarrow> h)"

lemma scan_loop_collect:
  "\<exists>P Q. R = P @ Q \<and> (R \<noteq> [] \<longrightarrow> P \<noteq> []) \<and>
     scan_loop re count collect emitted R acc =
       (cursor_of Q, acc @ map snd (filter (re_matches re) P))"
proof (induction R arbitrary: emitted acc)
  case (Cons x R)
  obtain h e where x: "x = (h, e)" by (cases x)
  consider (skip) "\<not> re_matches re x" | (last) "re_matches re x" "emitted + 1 \<ge> count"
    | (more) "re_matches re x" "emitted + 1 < count" by linarith
  then show ?case
  proof cases
    case skip
    from Cons.IH [of emitted acc] obtain P Q where "R = P @ Q"
      "scan_loop re count collect emitted R acc = (cursor_of Q, acc @ map snd (filter (re_matches re) P))"
      by blast
    with skip show ?thesis
      by - (rule exI [of _ "x # P"], rule exI [of _ Q], auto simp: x split: option.splits)
  next
    case last
    then show ?thesis
      by - (rule exI [of _ "[x]"], rule exI [of _ R],
          auto simp: x cursor_of_def split: option.splits)
  next
    case more
    from Cons.IH [of "emitted + 1" "acc @ [e]"] obtain P Q where "R = P @ Q"
      "scan_loop re count collect (emitted + 1) R (acc @ [e]) =
        (cursor_of Q, (acc @ [e]) @ map snd (filter (re_matches re) P))"
      by blast
    with more show ?thesis
      by - (rule exI [of _ "x # P"], rule exI [of _ Q], auto simp: x split: option.splits)
  qed
qed (auto simp: cursor_of_def)

lemma sorted_suffix_filter:
  assumes "sorted_wrt (\<lambda>x y. fst x < fst y) (A @ R)" "R = (h, e) # R'"
  shows "filter (\<lambda>x. (h :: u64) \<le> fst x) (A @ R) = R"
proof -
  from assms have "filter (\<lambda>x. h \<le> fst x) A = []" "\<forall>x \<in> set R. h \<le> fst x"
    by (auto simp: sorted_wrt_append filter_empty_conv less_imp_le not_le)
  then show ?thesis by simp
qed

lemma sort_fst_strict:
  "gomap m \<Longrightarrow> sorted_wrt (\<lambda>x y. fst x < fst (y :: u64 \<times> 'v)) (sort_key fst m)"
  by (rule sort_key_strict) (simp add: gomap_def)

lemma Engine_scan_eq:
  "0 < count \<Longrightarrow> Engine_scan e cursor count re f s =
     scan_loop re count f 0 (filter (\<lambda>x. cursor \<le> fst x) (sort_key fst (entries e))) s"
  by (simp add: Engine_scan_def Let_def filter_sort case_prod_unfold)

lemma scan_pages_suffix:
  assumes "gomap (entries e)" "0 < count" "sort_key fst (entries e) = A @ R" "length R < n"
    and "R = [] \<Longrightarrow> A = []"
  shows "scan_pages n e (cursor_of R) count re acc = Some (acc @ map snd (filter (re_matches re) R))"
  using assms(3-)
proof (induction n arbitrary: A R acc)
  case (Suc n)
  have srt: "sorted_wrt (\<lambda>x y. fst x < fst y) (A @ R)"
    using sort_fst_strict [OF assms(1)] Suc.prems(1) by simp
  have page: "filter (\<lambda>x. cursor_of R \<le> fst x) (A @ R) = R"
  proof (cases R)
    case (Cons x R')
    then show ?thesis using sorted_suffix_filter [OF srt] by (cases x) (simp add: cursor_of_def)
  qed (use Suc.prems in \<open>simp add: cursor_of_def\<close>)
  obtain P Q where R: "R = P @ Q" and ne: "R \<noteq> [] \<longrightarrow> P \<noteq> []" and loop:
    "scan_loop re count collect 0 R acc = (cursor_of Q, acc @ map snd (filter (re_matches re) P))"
    using scan_loop_collect by blast
  have scan: "Engine_scan e (cursor_of R) count re collect acc =
      (cursor_of Q, acc @ map snd (filter (re_matches re) P))"
    by (simp only: Engine_scan_eq [OF assms(2)] Suc.prems(1) page loop)
  have "cursor_of Q \<noteq> 0" if "Q \<noteq> []"
  proof -
    from that ne R have "P \<noteq> []" by auto
    with srt that have "fst (hd P) < fst (hd Q)" by (auto simp: R sorted_wrt_append)
    with that show ?thesis by (cases Q) (auto simp: cursor_of_def)
  qed
  then have z: "cursor_of Q = 0 \<longleftrightarrow> Q = []" by (auto simp: cursor_of_def)
  show ?case
  proof (cases "Q = []")
    case False
    with R ne Suc.prems(2) have "length Q < n" by (cases P) auto
    with Suc.IH [of "A @ P" Q "acc @ map snd (filter (re_matches re) P)"] Suc.prems False
    show ?thesis
      by (simp add: scan z) (simp add: R)
  next
    case True
    with z scan have "Engine_scan e (cursor_of R) count re collect acc =
        (0, acc @ map snd (filter (re_matches re) P))" by simp
    with True R show ?thesis by simp
  qed
qed simp

section \<open>Transfer\<close>

text \<open>The callback that puts every imported entry into an engine.\<close>

abbreviation import_put :: "Engine \<Rightarrow> u64 \<Rightarrow> Entry \<Rightarrow> string option \<times> Engine" where
  "import_put \<equiv> (\<lambda>e h x. (None, Engine_Put e h x))"

abbreviation items_of :: "(u64 \<times> Entry) list \<Rightarrow> transferItem list" where
  "items_of \<equiv> map (\<lambda>(hkey, entry). \<lparr>ti_HKey = hkey, ti_Raw = Entry_Encode entry\<rparr>)"

lemma sort_key_map_fst: "sort_key g (map f xs) = map f (sort_key (\<lambda>x. g (f x)) xs)"
proof -
  have ins: "insort_key g (f x) (map f ys) = map f (insort_key (\<lambda>x. g (f x)) x ys)" for x ys
    by (induction ys) simp_all
  show ?thesis by (induction xs) (simp_all add: ins)
qed

lemma TransferIterator_items: "it_items (Engine_TransferIterator e) = items_of (sort_key fst (entries e))"
  by (simp add: Engine_TransferIterator_def sort_key_map_fst o_def case_prod_unfold)

lemma import_loop_put:
  "\<forall>(h, x) \<in> set xs. storable x \<Longrightarrow>
    import_loop import_put (items_of xs) e = (None, foldl (\<lambda>e (h, x). Engine_Put e h x) e xs)"
  by (induction xs arbitrary: e) (auto simp: Entry_Decode_Encode)

lemma foldl_put_view:
  "engine_view (foldl (\<lambda>e (h, x). Engine_Put e h x) e xs) = engine_view e ++ map_of (rev xs)"
  by (induction xs arbitrary: e) (auto simp: map_add_def fun_eq_iff split: option.splits)

lemma fold_delete_view:
  "map_of (fold (\<lambda>item. AList.delete (ti_HKey item)) items m) h =
    (if h \<in> ti_HKey ` set items then None else map_of m h)"
  by (induction items arbitrary: m) (auto simp: delete_conv')

lemma engine_view_iter_Drop:
  "engine_view (iter_Drop it e) =
    (\<lambda>h. if h \<in> ti_HKey ` set (it_items it) then None else engine_view e h)"
  by (simp add: iter_Drop_def engine_view_def fold_delete_view fun_eq_iff)

lemma map_of_perm:
  assumes "gomap xs" "gomap ys" "set xs = set ys"
  shows "map_of xs = map_of ys"
proof
  fix k
  show "map_of xs k = map_of ys k"
    using gomap_in [OF assms(1)] gomap_in [OF assms(2)] assms(3)
    by (metis not_Some_eq)
qed

lemma gomap_sort_key: "gomap m \<Longrightarrow> gomap (sort_key fst m)"
  by (simp add: gomap_def distinct_map)

lemma gomap_rev: "gomap (rev m) = gomap m"
  by (simp add: gomap_def rev_map [symmetric])

lemma map_of_rev_sort: "gomap m \<Longrightarrow> map_of (rev (sort_key fst m)) = map_of m"
  by (rule map_of_perm) (simp_all add: gomap_rev gomap_sort_key)

section \<open>Properties\<close>

text \<open>C22. An entry with a key of fewer than 256 bytes, a value of fewer than 2^32 bytes and
  \<^verbatim>\<open>int64\<close> times is restored exactly by \<open>Decode\<close> from what \<open>Encode\<close> wrote; for a longer key
  \<open>Decode\<close> never gives the entry back, because the length byte is truncated.\<close>

theorem entry_round_trip:
  "(storable e \<longrightarrow> Entry_Decode (Entry_Encode e) = Some e) \<and>
   (256 \<le> length (en_key e) \<longrightarrow> Entry_Decode (Entry_Encode e) \<noteq> Some e)"
  using Entry_Decode_Encode [of e] Entry_Decode_key_length [of "Entry_Encode e" e] by auto

definition example_entry :: "nat \<Rightarrow> Entry" where
  "example_entry n = \<lparr>en_key = replicate n CHR ''k'', en_value = [1, 2], en_ttl = -1,
     en_timestamp = 5, en_lastAccess = 0\<rparr>"

theorem entry_round_trip_witness:
  "Entry_Decode (Entry_Encode (example_entry 3)) = Some (example_entry 3) \<and>
   Entry_Decode (Entry_Encode (example_entry 300)) \<noteq> Some (example_entry 300)"
proof -
  have "storable (example_entry 3)" "256 \<le> length (en_key (example_entry 300))"
    by (simp_all add: storable_def example_entry_def i64_range_def)
  with entry_round_trip [of "example_entry 3"] entry_round_trip [of "example_entry 300"]
  show ?thesis by blast
qed


text \<open>C24. Reading an engine page by page, starting at cursor zero and continuing with each
  returned cursor until it is zero, ends after at most one page per entry (plus one) and visits
  every entry that matches exactly once, in ascending order of hash key, whatever the page size.\<close>

theorem paged_scan_complete:
  assumes "gomap (entries e)" "0 < count" "length (entries e) < n"
  shows "scan_pages n e 0 count re [] = Some (map snd (filter (re_matches re) (sort_key fst (entries e))))"
proof -
  define R where "R = sort_key fst (entries e)"
  have all: "filter (\<lambda>x. 0 \<le> fst x) R = R" by (simp add: filter_id_conv)
  have "scan_pages n e 0 count re [] = scan_pages n e (cursor_of R) count re []"
  proof (cases n)
    case (Suc m)
    have "filter (\<lambda>x. cursor_of R \<le> fst x) R = R"
      using sorted_suffix_filter [of "[]" R] sort_fst_strict [OF assms(1)]
      by (cases R) (auto simp: R_def [symmetric] cursor_of_def)
    with all show ?thesis
      by (simp add: Suc Engine_scan_eq [OF assms(2)] R_def [symmetric])
  qed simp
  with scan_pages_suffix [OF assms(1,2), of "[]" R n re "[]"] assms(3) show ?thesis
    by (simp add: R_def)
qed

definition example_engine :: Engine where
  "example_engine = \<lparr>entries = [(9, example_entry 1), (0, example_entry 2), (4, example_entry 3)]\<rparr>"

theorem paged_scan_complete_witness:
  "scan_pages 4 example_engine 0 1 None [] = Some [example_entry 2, example_entry 3, example_entry 1]"
proof -
  have "gomap (entries example_engine)" "length (entries example_engine) < 4"
    by (simp_all add: example_engine_def gomap_def)
  from paged_scan_complete [OF this(1) _ this(2), of 1 None] show ?thesis
    by (simp add: example_engine_def)
qed

text \<open>Moving an engine: when the MessagePack codec restores the items it wrote, exporting the
  transfer iterator of an engine of storable entries and importing the bytes into another engine
  with \<open>Put\<close> succeeds and makes the target the old target overridden by the source, and \<open>Drop\<close> then
  leaves in the source exactly the entries that were not exported.\<close>

theorem transfer_moves_entries:
  assumes codec: "marshal (it_items (Engine_TransferIterator src)) = Inr bytes"
      "unmarshal bytes = Inr (it_items (Engine_TransferIterator src))"
    and src: "gomap (entries src)" "entries src \<noteq> []" "\<forall>(h, x) \<in> set (entries src). storable x"
  shows "\<exists>it dst'. iter_Next (Engine_TransferIterator src) = (True, it) \<and>
    iter_Export marshal it = Inr (bytes, 0) \<and>
    Engine_Import unmarshal bytes import_put dst = (None, dst') \<and>
    engine_view dst' = engine_view dst ++ engine_view src \<and>
    engine_view (iter_Drop it (foldl (\<lambda>e (h, x). Engine_Put e h x) src new)) =
      (\<lambda>h. if h \<in> dom (engine_view src) then None else map_of (rev new) h)"
proof -
  define it where "it = (Engine_TransferIterator src)\<lparr>it_next := True\<rparr>"
  have items: "it_items it = items_of (sort_key fst (entries src))"
    by (simp add: it_def TransferIterator_items)
  have "set (sort_key fst (entries src)) \<noteq> {}" using src(2) by simp
  then have ne: "it_items (Engine_TransferIterator src) \<noteq> []"
    by (auto simp only: TransferIterator_items list.map_disc_iff set_empty)
  then have nxt: "iter_Next (Engine_TransferIterator src) = (True, it)"
    by (simp add: iter_Next_def it_def) (simp add: Engine_TransferIterator_def)
  have b: "marshal (it_items it) = Inr bytes" "unmarshal bytes = Inr (it_items it)"
    using codec by (simp_all add: it_def)
  then have exp: "iter_Export marshal it = Inr (bytes, 0)" by (simp add: iter_Export_def it_def)
  define dst' where "dst' = foldl (\<lambda>e (h, x). Engine_Put e h x) dst (sort_key fst (entries src))"
  have "\<forall>(h, x) \<in> set (sort_key fst (entries src)). storable x" using src(3) by simp
  from import_loop_put [OF this, of dst] have imp: "Engine_Import unmarshal bytes import_put dst = (None, dst')"
    by (simp add: Engine_Import_def b(2) items dst'_def)
  have view: "engine_view dst' = engine_view dst ++ engine_view src"
    by (simp add: dst'_def foldl_put_view map_of_rev_sort [OF src(1)]) (simp add: engine_view_def)
  have dom: "ti_HKey ` set (it_items it) = dom (engine_view src)"
    by (simp add: items engine_view_def dom_map_of_conv_image_fst image_image case_prod_unfold)
  have "engine_view (iter_Drop it (foldl (\<lambda>e (h, x). Engine_Put e h x) src new)) =
      (\<lambda>h. if h \<in> dom (engine_view src) then None else (engine_view src ++ map_of (rev new)) h)"
    by (simp only: engine_view_iter_Drop dom foldl_put_view)
  also have "\<dots> = (\<lambda>h. if h \<in> dom (engine_view src) then None else map_of (rev new) h)"
    by (auto simp: fun_eq_iff map_add_def domIff split: option.splits)
  finally show ?thesis using nxt exp imp view by (intro exI conjI)
qed

text \<open>A length-prefixed codec for the witness.\<close>

definition example_marshal :: "transferItem list \<Rightarrow> string + byte list" where
  "example_marshal items =
     Inr (concat (map (\<lambda>i. [of_nat (length (ti_Raw i))] @ be_bytes 8 (ti_HKey i) @ ti_Raw i) items))"

fun example_items :: "nat \<Rightarrow> byte list \<Rightarrow> transferItem list" where
  "example_items (Suc n) (l # bs) =
     \<lparr>ti_HKey = be_word (take 8 bs), ti_Raw = take (unat l) (drop 8 bs)\<rparr>
     # example_items n (drop (8 + unat l) bs)"
| "example_items _ _ = []"

definition example_unmarshal :: "byte list \<Rightarrow> string + transferItem list" where
  "example_unmarshal bs = Inr (example_items (length bs) bs)"

definition example_bytes :: "byte list" where
  "example_bytes = concat (map (\<lambda>i. [of_nat (length (ti_Raw i))] @ be_bytes 8 (ti_HKey i) @ ti_Raw i)
     (it_items (Engine_TransferIterator example_engine)))"

lemma example_bytes_decode:
  "example_unmarshal example_bytes = Inr (it_items (Engine_TransferIterator example_engine))"
  by code_simp

theorem transfer_moves_entries_witness:
  "\<exists>it dst'. iter_Next (Engine_TransferIterator example_engine) = (True, it) \<and>
    iter_Export example_marshal it = Inr (example_bytes, 0) \<and>
    Engine_Import example_unmarshal example_bytes import_put Engine_New = (None, dst') \<and>
    engine_view dst' = engine_view Engine_New ++ engine_view example_engine \<and>
    engine_view (iter_Drop it (foldl (\<lambda>e (h, x). Engine_Put e h x) example_engine
        [(7, example_entry 5), (4, example_entry 6)])) =
      (\<lambda>h. if h \<in> dom (engine_view example_engine) then None
           else map_of (rev [(7, example_entry 5), (4, example_entry 6)]) h)"
proof (rule transfer_moves_entries)
  show "example_marshal (it_items (Engine_TransferIterator example_engine)) = Inr example_bytes"
    by (simp add: example_marshal_def example_bytes_def)
  show "example_unmarshal example_bytes = Inr (it_items (Engine_TransferIterator example_engine))"
    by (rule example_bytes_decode)
  show "gomap (entries example_engine)" "entries example_engine \<noteq> []"
    by (simp_all add: example_engine_def gomap_def)
  show "\<forall>(h, x) \<in> set (entries example_engine). storable x"
    by (simp add: example_engine_def example_entry_def storable_def i64_range_def)
qed

end
