(* ===== verification/Fence_Lease.thy ===== *)
theory Fence_Lease
  imports Topology_Types
begin

text \<open>
  The node side of the fence: the lease tracker and the subscription loop
  (\<^verbatim>\<open>internal/node/subscriber.go\<close>) and the owner sequencer
  (\<^verbatim>\<open>internal/stringkv/sequencer.go\<close>).  The main results: the pair of watchdog generation and
  epoch a node has accepted never goes back, a fence that verifies was taken under the same
  generation with no newer epoch, a rejected envelope stops the node from serving, and the
  sequence numbers issued under the fence are strictly increasing in the order the database
  compares them.
\<close>

section \<open>The lease tracker\<close>

datatype lease_error =
    ErrTopologyLeaseExpired | ErrTopologyNotPrimary | ErrStaleTopologyEpoch
  | ErrStaleWatchdogGeneration

record LeaseTracker =
  lt_generation :: int64
  lt_epoch :: int64
  lt_validUntilUnixMs :: int64

definition NewLeaseTracker :: LeaseTracker where
  "NewLeaseTracker = \<lparr>lt_generation = 0, lt_epoch = 0, lt_validUntilUnixMs = 0\<rparr>"

definition Apply :: "LeaseTracker \<Rightarrow> TopologyEnvelope \<Rightarrow> time \<Rightarrow> lease_error + LeaseTracker" where
  "Apply l envelope now =
     (if env_watchdog_role envelope \<noteq> WATCHDOG_ROLE_PRIMARY then Inl ErrTopologyNotPrimary
      else if env_valid_until_unix_ms envelope \<le> UnixMilli now then Inl ErrTopologyLeaseExpired
      else if env_watchdog_generation envelope < lt_generation l
        then Inl ErrStaleWatchdogGeneration
      else if env_watchdog_generation envelope > lt_generation l
        then Inr (l\<lparr>lt_generation := env_watchdog_generation envelope,
                    lt_epoch := env_epoch envelope,
                    lt_validUntilUnixMs := env_valid_until_unix_ms envelope\<rparr>)
      else if env_epoch envelope < lt_epoch l then Inl ErrStaleTopologyEpoch
      else Inr (l\<lparr>lt_epoch := env_epoch envelope,
                  lt_validUntilUnixMs := env_valid_until_unix_ms envelope\<rparr>))"

definition Revoke :: "LeaseTracker \<Rightarrow> LeaseTracker" where
  "Revoke l = l\<lparr>lt_validUntilUnixMs := 0\<rparr>"

definition ServingAllowed :: "LeaseTracker \<Rightarrow> time \<Rightarrow> bool" where
  "ServingAllowed l now \<longleftrightarrow> lt_validUntilUnixMs l > UnixMilli now"

definition SnapshotForWrite :: "LeaseTracker \<Rightarrow> time \<Rightarrow> int64 \<times> int64 \<times> bool" where
  "SnapshotForWrite l now =
     (if lt_validUntilUnixMs l \<le> UnixMilli now then (0, 0, False)
      else (lt_generation l, lt_epoch l, True))"

definition VerifyFence :: "LeaseTracker \<Rightarrow> int64 \<Rightarrow> int64 \<Rightarrow> time \<Rightarrow> bool" where
  "VerifyFence l generation epoch now =
     (if lt_validUntilUnixMs l \<le> UnixMilli now then False
      else if lt_generation l \<noteq> generation then False
      else if lt_epoch l < epoch then False
      else True)"

definition shouldRevokeLease :: "lease_error \<Rightarrow> bool" where
  "shouldRevokeLease e \<longleftrightarrow>
     e = ErrTopologyLeaseExpired \<or> e = ErrTopologyNotPrimary \<or>
     e = ErrStaleTopologyEpoch \<or> e = ErrStaleWatchdogGeneration"

text \<open>\<open>WaitExpired\<close> goes once round its loop for each element: the tracker and the clock at the
  check, and whether the context is done when the ticker is awaited.  The result is \<open>None\<close> while
  the loop has not returned.\<close>

datatype wait_result = WaitLeaseExpired | WaitCancelled

fun WaitExpired :: "(LeaseTracker \<times> time \<times> bool) list \<Rightarrow> wait_result option" where
  "WaitExpired [] = None"
| "WaitExpired ((l, now, ctxDone) # rounds) =
     (if \<not> ServingAllowed l now then Some WaitLeaseExpired
      else if ctxDone then Some WaitCancelled
      else WaitExpired rounds)"

section \<open>The subscription loop\<close>

record SubscriberConfig =
  sc_StackID :: string
  sc_NodeID :: string
  sc_PodName :: string
  sc_PodIP :: string
  sc_Incarnation :: int64
  sc_ProtocolVersion :: string
  sc_HeartbeatInterval :: duration
  sc_Lease :: "LeaseTracker option"

record Subscriber =
  sub_cfg :: SubscriberConfig
  sub_lease :: LeaseTracker

datatype subscriber_error = ErrStackIDRequired | ErrNodeIDRequired | ErrPodIPRequired

definition sc_withDefaults :: "SubscriberConfig \<Rightarrow> time \<Rightarrow> SubscriberConfig" where
  "sc_withDefaults c now =
     (let c = (if sc_HeartbeatInterval c \<le> 0 then c\<lparr>sc_HeartbeatInterval := 10 * second\<rparr> else c);
          c = (if sc_ProtocolVersion c = '''' then c\<lparr>sc_ProtocolVersion := ''v2''\<rparr> else c)
      in if sc_Incarnation c \<le> 0 then c\<lparr>sc_Incarnation := i64 now\<rparr> else c)"

definition NewSubscriber :: "SubscriberConfig \<Rightarrow> time \<Rightarrow> subscriber_error + Subscriber" where
  "NewSubscriber cfg now =
     (let cfg = sc_withDefaults cfg now in
      if sc_StackID cfg = '''' then Inl ErrStackIDRequired
      else if sc_NodeID cfg = '''' then Inl ErrNodeIDRequired
      else if sc_PodIP cfg = '''' then Inl ErrPodIPRequired
      else Inr \<lparr>sub_cfg = cfg,
                 sub_lease = (case sc_Lease cfg of None \<Rightarrow> NewLeaseTracker | Some l \<Rightarrow> l)\<rparr>)"

definition sendHeartbeat :: "SubscriberConfig \<Rightarrow> int64 \<Rightarrow> Heartbeat" where
  "sendHeartbeat c observedEpoch =
     \<lparr>hb_stack_id = sc_StackID c, hb_node_id = sc_NodeID c, hb_pod_name = sc_PodName c,
      hb_pod_ip = sc_PodIP c, hb_incarnation = sc_Incarnation c,
      hb_observed_epoch = observedEpoch, hb_state = NODE_STATE_READY,
      hb_protocol_version = sc_ProtocolVersion c\<rparr>"

text \<open>What one round of the receive loop of \<open>Run\<close> meets: the result of \<^verbatim>\<open>stream.Recv\<close> with the
  instant it is applied at, the result of the joiner, and an error of the heartbeat goroutine.\<close>

datatype stream_event =
    RecvError string
  | RecvEnvelope TopologyEnvelope time "string option" "string option"

datatype run_error = StreamError string | LeaseError lease_error | JoinError string
  | HeartbeatError string

record subscriber_state =
  ss_lease :: LeaseTracker
  ss_observedEpoch :: int64

fun recv_step :: "subscriber_state \<Rightarrow> stream_event \<Rightarrow> subscriber_state \<times> run_error option" where
  "recv_step s (RecvError e) = (s, Some (StreamError e))"
| "recv_step s (RecvEnvelope envelope now joinErr hbErr) =
     (case Apply (ss_lease s) envelope now of
        Inl e \<Rightarrow> ((if shouldRevokeLease e then s\<lparr>ss_lease := Revoke (ss_lease s)\<rparr> else s),
                  Some (LeaseError e))
      | Inr l \<Rightarrow>
          (let s = s\<lparr>ss_lease := l, ss_observedEpoch := env_epoch envelope\<rparr> in
           case joinErr of
             Some e \<Rightarrow> (s, Some (JoinError e))
           | None \<Rightarrow> (s, map_option HeartbeatError hbErr)))"

fun recv_loop :: "subscriber_state \<Rightarrow> stream_event list \<Rightarrow> subscriber_state \<times> run_error option" where
  "recv_loop s [] = (s, None)"
| "recv_loop s (ev # evs) =
     (case recv_step s ev of (s', Some e) \<Rightarrow> (s', Some e) | (s', None) \<Rightarrow> recv_loop s' evs)"

text \<open>\<open>Run\<close> is given the errors of \<^verbatim>\<open>client.Watch\<close> and of the first heartbeat, and what the loop
  then receives; a result without an error means that the loop is still receiving.\<close>

definition Run :: "Subscriber \<Rightarrow> string option \<Rightarrow> string option \<Rightarrow> stream_event list \<Rightarrow>
    subscriber_state \<times> run_error option" where
  "Run sub watchErr sendErr evs =
     (let s = \<lparr>ss_lease = sub_lease sub, ss_observedEpoch = 0\<rparr> in
      case watchErr of
        Some e \<Rightarrow> (s, Some (StreamError e))
      | None \<Rightarrow>
          (case sendErr of
             Some e \<Rightarrow> (s, Some (HeartbeatError e))
           | None \<Rightarrow> recv_loop s evs))"

section \<open>The owner sequencer\<close>

record MemoryFenceSequencer =
  fs_generation :: int64
  fs_epoch :: int64
  fs_seq :: int64

datatype stamp_error = ErrInvalidFence int64 int64 | ErrOwnerSequenceRollback int64 int64 int64 int64

definition NewMemoryFenceSequencer :: MemoryFenceSequencer where
  "NewMemoryFenceSequencer = \<lparr>fs_generation = 0, fs_epoch = 0, fs_seq = 0\<rparr>"

definition Stamp :: "MemoryFenceSequencer \<Rightarrow> int64 \<Rightarrow> int64 \<Rightarrow>
    (stamp_error + int64 \<times> int64 \<times> int64) \<times> MemoryFenceSequencer" where
  "Stamp s generation epoch =
     (if generation \<le> 0 \<or> epoch < 0 then (Inl (ErrInvalidFence generation epoch), s)
      else if generation > fs_generation s \<or> (generation = fs_generation s \<and> epoch > fs_epoch s)
      then let s = \<lparr>fs_generation = generation, fs_epoch = epoch, fs_seq = 1\<rparr>
           in (Inr (fs_generation s, fs_epoch s, fs_seq s), s)
      else if generation = fs_generation s \<and> epoch = fs_epoch s
      then let s = s\<lparr>fs_seq := i64 (fs_seq s + 1)\<rparr>
           in (Inr (fs_generation s, fs_epoch s, fs_seq s), s)
      else (Inl (ErrOwnerSequenceRollback (fs_generation s) (fs_epoch s) generation epoch), s))"

section \<open>Order of fences\<close>

text \<open>The order in which the database compares fences: generation, then epoch, then sequence.\<close>

definition fence_less :: "int64 \<times> int64 \<times> int64 \<Rightarrow> int64 \<times> int64 \<times> int64 \<Rightarrow> bool" where
  "fence_less a b \<longleftrightarrow>
     (case a of (g, e, s) \<Rightarrow> case b of (g', e', s') \<Rightarrow>
        g < g' \<or> (g = g' \<and> (e < e' \<or> (e = e' \<and> s < s'))))"

definition pair_le :: "int64 \<times> int64 \<Rightarrow> int64 \<times> int64 \<Rightarrow> bool" where
  "pair_le a b \<longleftrightarrow> fst a < fst b \<or> (fst a = fst b \<and> snd a \<le> snd b)"

abbreviation lease_fence :: "LeaseTracker \<Rightarrow> int64 \<times> int64" where
  "lease_fence l \<equiv> (lt_generation l, lt_epoch l)"

lemma pair_le_refl [simp]: "pair_le a a"
  by (simp add: pair_le_def)

lemma pair_le_trans [trans]: "pair_le a b \<Longrightarrow> pair_le b c \<Longrightarrow> pair_le a c"
  by (auto simp: pair_le_def)

lemma fence_less_trans [trans]: "fence_less a b \<Longrightarrow> fence_less b c \<Longrightarrow> fence_less a c"
  by (auto simp: fence_less_def split: prod.splits)

lemma fence_less_irrefl [simp]: "\<not> fence_less a a"
  by (auto simp: fence_less_def split: prod.splits)

lemma fence_less_zero: "0 < g \<Longrightarrow> fence_less (0, 0, 0) (g, e, s)"
  by (simp add: fence_less_def)

section \<open>The fence a node has accepted never goes back\<close>

lemma Apply_fence_mono: "Apply l envelope now = Inr l' \<Longrightarrow> pair_le (lease_fence l) (lease_fence l')"
  by (auto simp: Apply_def pair_le_def split: if_splits)

lemma Revoke_fence [simp]: "lt_generation (Revoke l) = lt_generation l" "lt_epoch (Revoke l) = lt_epoch l"
  by (simp_all add: Revoke_def)

lemma Revoke_not_serving: "0 \<le> now \<Longrightarrow> \<not> ServingAllowed (Revoke l) now"
  by (simp add: ServingAllowed_def Revoke_def UnixMilli_nonneg not_less)

lemma shouldRevokeLease_all [simp]: "shouldRevokeLease e"
  by (cases e) (simp_all add: shouldRevokeLease_def)

lemma recv_step_fence_mono:
  "pair_le (lease_fence (ss_lease s)) (lease_fence (ss_lease (fst (recv_step s ev))))"
  by (cases ev) (auto simp: Let_def split: sum.splits option.splits dest: Apply_fence_mono)

lemma recv_loop_fence_mono:
  "pair_le (lease_fence (ss_lease s)) (lease_fence (ss_lease (fst (recv_loop s evs))))"
proof (induction evs arbitrary: s)
  case (Cons ev evs)
  obtain s' r where step: "recv_step s ev = (s', r)" by fastforce
  with recv_step_fence_mono [of s ev]
  have "pair_le (lease_fence (ss_lease s)) (lease_fence (ss_lease s'))" by simp
  from pair_le_trans [OF this Cons.IH] this show ?case
    by (simp add: step split: option.split)
qed simp

lemma recv_step_lease_error:
  "recv_step s ev = (s', Some (LeaseError e)) \<Longrightarrow> \<exists>l. ss_lease s' = Revoke l"
  by (cases ev) (auto simp: Let_def split: sum.splits option.splits)

lemma recv_loop_lease_error:
  "recv_loop s evs = (s', Some (LeaseError e)) \<Longrightarrow> \<exists>l. ss_lease s' = Revoke l"
  by (induction evs arbitrary: s)
    (auto split: prod.splits option.splits dest: recv_step_lease_error)

lemma VerifyFence_iff:
  "VerifyFence l g e now \<longleftrightarrow> ServingAllowed l now \<and> lt_generation l = g \<and> e \<le> lt_epoch l"
  by (auto simp: VerifyFence_def ServingAllowed_def)

lemma SnapshotForWrite_iff:
  "SnapshotForWrite l now = (g, e, True) \<longleftrightarrow>
     ServingAllowed l now \<and> g = lt_generation l \<and> e = lt_epoch l"
  by (auto simp: SnapshotForWrite_def ServingAllowed_def)

lemma Run_cases:
  "Run sub w h evs = (s, r) \<Longrightarrow>
    ss_lease s = sub_lease sub \<or>
    recv_loop \<lparr>ss_lease = sub_lease sub, ss_observedEpoch = 0\<rparr> evs = (s, r)"
  by (auto simp: Run_def Let_def split: option.splits)

lemma Run_fence_mono:
  "pair_le (lease_fence (sub_lease sub)) (lease_fence (ss_lease (fst (Run sub w h evs))))"
  using recv_loop_fence_mono [of "\<lparr>ss_lease = sub_lease sub, ss_observedEpoch = 0\<rparr>" evs]
  by (auto simp: Run_def Let_def split: option.splits)

section \<open>Fence sequencers\<close>

text \<open>The interface \<^verbatim>\<open>FenceSequencer\<close>: a sequencer issues fences above the last one it issued, in
  the window it was asked for, as long as it has \<open>room\<close> for that many more numbers, and a refused
  request leaves it unchanged.\<close>

fun stamp_run :: "('s \<Rightarrow> int64 \<Rightarrow> int64 \<Rightarrow> ('e + int64 \<times> int64 \<times> int64) \<times> 's) \<Rightarrow> 's \<Rightarrow>
    (int64 \<times> int64) list \<Rightarrow> (int64 \<times> int64 \<times> int64) list" where
  "stamp_run stamp s [] = []"
| "stamp_run stamp s ((g, e) # reqs) =
     (case stamp s g e of
        (Inl _, s') \<Rightarrow> stamp_run stamp s' reqs
      | (Inr f, s') \<Rightarrow> f # stamp_run stamp s' reqs)"

locale fence_sequencer =
  fixes stamp :: "'s \<Rightarrow> int64 \<Rightarrow> int64 \<Rightarrow> ('e + int64 \<times> int64 \<times> int64) \<times> 's"
    and issued :: "'s \<Rightarrow> int64 \<times> int64 \<times> int64"
    and room :: "'s \<Rightarrow> nat \<Rightarrow> bool"
  assumes stamp_issues:
      "room s (Suc n) \<Longrightarrow> stamp s g e = (Inr f, s') \<Longrightarrow>
         fence_less (issued s) f \<and> issued s' = f \<and> room s' n \<and> (\<exists>q. f = (g, e, q))"
    and stamp_refuses: "stamp s g e = (Inl x, s') \<Longrightarrow> s' = s"
    and room_less: "room s (Suc n) \<Longrightarrow> room s n"
begin

lemma run_above:
  "room s (length reqs) \<Longrightarrow> f \<in> set (stamp_run stamp s reqs) \<Longrightarrow> fence_less (issued s) f"
proof (induction reqs arbitrary: s)
  case (Cons r reqs)
  obtain g e where r: "r = (g, e)" by (cases r)
  obtain y s' where st: "stamp s g e = (y, s')" by fastforce
  show ?case
  proof (cases y)
    case (Inl x)
    with st have "s' = s" using stamp_refuses by blast
    with Cons room_less st Inl r show ?thesis by simp
  next
    case (Inr f')
    with st Cons.prems(1) have "fence_less (issued s) f'" "issued s' = f'" "room s' (length reqs)"
      using stamp_issues [of s "length reqs" g e f' s'] by simp_all
    with Cons.IH [of s'] Cons.prems(2) st Inr r show ?thesis
      by (auto intro: fence_less_trans)
  qed
qed simp

lemma run_increasing: "room s (length reqs) \<Longrightarrow> sorted_wrt fence_less (stamp_run stamp s reqs)"
proof (induction reqs arbitrary: s)
  case (Cons r reqs)
  obtain g e where r: "r = (g, e)" by (cases r)
  obtain y s' where st: "stamp s g e = (y, s')" by fastforce
  show ?case
  proof (cases y)
    case (Inl x)
    with st have "s' = s" using stamp_refuses by blast
    with Cons room_less st Inl r show ?thesis by simp
  next
    case (Inr f)
    with st Cons.prems have "issued s' = f" "room s' (length reqs)"
      using stamp_issues [of s "length reqs" g e f s'] by simp_all
    with Cons.IH [of s'] run_above [of s' reqs] st Inr r show ?thesis by simp
  qed
qed simp

end

definition seq_issued :: "MemoryFenceSequencer \<Rightarrow> int64 \<times> int64 \<times> int64" where
  "seq_issued s = (fs_generation s, fs_epoch s, fs_seq s)"

definition seq_room :: "MemoryFenceSequencer \<Rightarrow> nat \<Rightarrow> bool" where
  "seq_room s n \<longleftrightarrow> 0 \<le> fs_seq s \<and> fs_seq s + int n < 2 ^ 63"

lemma Stamp_issues:
  assumes "seq_room s (Suc n)" "Stamp s g e = (Inr f, s')"
  shows "fence_less (seq_issued s) f \<and> seq_issued s' = f \<and> seq_room s' n \<and> (\<exists>q. f = (g, e, q))"
proof -
  from assms(1) have "i64 (fs_seq s + 1) = fs_seq s + 1"
    by (intro i64_id) (simp add: seq_room_def i64_range_def)
  with assms show ?thesis
    by (auto simp: Stamp_def seq_issued_def seq_room_def fence_less_def Let_def split: if_splits)
qed

interpretation ms: fence_sequencer Stamp seq_issued seq_room
proof
  show "seq_room s (Suc n) \<Longrightarrow> Stamp s g e = (Inr f, s') \<Longrightarrow>
      fence_less (seq_issued s) f \<and> seq_issued s' = f \<and> seq_room s' n \<and> (\<exists>q. f = (g, e, q))"
    for s n g e f s' by (rule Stamp_issues)
  show "Stamp s g e = (Inl x, s') \<Longrightarrow> s' = s" for s g e x s'
    by (auto simp: Stamp_def Let_def split: if_splits)
  show "seq_room s (Suc n) \<Longrightarrow> seq_room s n" for s n
    by (simp add: seq_room_def)
qed

section \<open>Properties\<close>

text \<open>C17. Whatever a node receives from its watchdogs (envelopes of any primary or standby, of any
  age, in any order, stream and join errors), the pair of watchdog generation and epoch of its
  lease never decreases in the order generation first, then epoch; in particular \<open>Run\<close> returning
  and being called again with the same tracker never takes the fence back.\<close>

theorem lease_fence_monotone:
  "pair_le (lease_fence (sub_lease sub)) (lease_fence (ss_lease (fst (Run sub watchErr sendErr evs))))"
  by (rule Run_fence_mono)

text \<open>C6. A fence taken by \<open>SnapshotForWrite\<close> and checked by \<open>VerifyFence\<close> after the subscriber has
  processed any further sequence of envelopes is accepted exactly when the lease is valid at the
  second instant and the watchdog generation is still the one of the snapshot: an epoch that has
  advanced meanwhile never refuses a write, and a change of leadership always does.\<close>

theorem verify_fence_iff_same_leadership:
  assumes "SnapshotForWrite (sub_lease sub) t = (g, e, True)"
  shows "VerifyFence (ss_lease (fst (Run sub watchErr sendErr evs))) g e t' \<longleftrightarrow>
    ServingAllowed (ss_lease (fst (Run sub watchErr sendErr evs))) t' \<and>
    lt_generation (ss_lease (fst (Run sub watchErr sendErr evs))) = g"
  using assms Run_fence_mono [of sub watchErr sendErr evs]
  by (auto simp: VerifyFence_iff SnapshotForWrite_iff pair_le_def)

definition example_cfg :: SubscriberConfig where
  "example_cfg = \<lparr>sc_StackID = ''s'', sc_NodeID = ''n'', sc_PodName = ''p'', sc_PodIP = ''10.0.0.1'',
     sc_Incarnation = 1, sc_ProtocolVersion = ''v2'', sc_HeartbeatInterval = second,
     sc_Lease = Some \<lparr>lt_generation = 1, lt_epoch = 4, lt_validUntilUnixMs = 50\<rparr>\<rparr>"

definition example_sub :: Subscriber where
  "example_sub = \<lparr>sub_cfg = example_cfg,
     sub_lease = \<lparr>lt_generation = 1, lt_epoch = 4, lt_validUntilUnixMs = 50\<rparr>\<rparr>"

definition example_envelope :: "int64 \<Rightarrow> int64 \<Rightarrow> int64 \<Rightarrow> TopologyEnvelope" where
  "example_envelope g e valid = \<lparr>env_stack_id = ''s'', env_members = [], env_epoch = e,
     env_reason = TOPOLOGY_REASON_EVENT, env_valid_until_unix_ms = valid, env_watchdog_id = ''w'',
     env_watchdog_generation = g, env_watchdog_role = WATCHDOG_ROLE_PRIMARY\<rparr>"

lemmas example_defs =
  example_cfg_def example_sub_def example_envelope_def Run_def Apply_def ServingAllowed_def
  SnapshotForWrite_def VerifyFence_def Revoke_def UnixMilli_def Let_def

theorem verify_fence_iff_same_leadership_witness:
  "SnapshotForWrite (sub_lease example_sub) 0 = (1, 4, True) \<and>
   VerifyFence (ss_lease (fst (Run example_sub None None
     [RecvEnvelope (example_envelope 1 9 80) 0 None None]))) 1 4 60000000 \<and>
   \<not> VerifyFence (ss_lease (fst (Run example_sub None None
     [RecvEnvelope (example_envelope 2 0 80) 0 None None]))) 1 4 60000000"
proof -
  have s: "SnapshotForWrite (sub_lease example_sub) 0 = (1, 4, True)"
    by (simp add: example_defs)
  show ?thesis
    by (simp add: s verify_fence_iff_same_leadership [OF s]) (simp add: example_defs)
qed

text \<open>When the subscription ends because an envelope was rejected (not from a primary, expired,
  of an older generation or of an older epoch), the lease is revoked: the node serves no request
  at any later instant until a new envelope is accepted, and no earlier fence verifies.\<close>

theorem rejected_envelope_stops_serving:
  assumes "snd (Run sub watchErr sendErr evs) = Some (LeaseError err)" "0 \<le> now"
  shows "\<not> ServingAllowed (ss_lease (fst (Run sub watchErr sendErr evs))) now \<and>
    \<not> VerifyFence (ss_lease (fst (Run sub watchErr sendErr evs))) g e now"
proof -
  from assms(1) obtain s where
    "recv_loop \<lparr>ss_lease = sub_lease sub, ss_observedEpoch = 0\<rparr> evs = (s, Some (LeaseError err))"
    "Run sub watchErr sendErr evs = (s, Some (LeaseError err))"
    by (cases "Run sub watchErr sendErr evs") (auto simp: Run_def Let_def split: option.splits)
  with recv_loop_lease_error obtain l where "ss_lease (fst (Run sub watchErr sendErr evs)) = Revoke l"
    by fastforce
  with Revoke_not_serving [OF assms(2)] show ?thesis by (simp add: VerifyFence_iff)
qed

theorem rejected_envelope_stops_serving_witness:
  "snd (Run example_sub None None
     [RecvEnvelope (example_envelope 1 5 80) 0 None None,
      RecvEnvelope (example_envelope 1 4 90) 0 None None]) = Some (LeaseError ErrStaleTopologyEpoch) \<and>
   \<not> ServingAllowed (ss_lease (fst (Run example_sub None None
     [RecvEnvelope (example_envelope 1 5 80) 0 None None,
      RecvEnvelope (example_envelope 1 4 90) 0 None None]))) 1000000"
proof -
  have s: "snd (Run example_sub None None
     [RecvEnvelope (example_envelope 1 5 80) 0 None None,
      RecvEnvelope (example_envelope 1 4 90) 0 None None]) = Some (LeaseError ErrStaleTopologyEpoch)"
    by (simp add: example_defs)
  from rejected_envelope_stops_serving [OF s, of 1000000] s show ?thesis by simp
qed

text \<open>C18. The fences (generation, epoch, sequence) that \<open>MemoryFenceSequencer.Stamp\<close> issues, for any
  sequence of requested windows, refused requests included, are strictly increasing in the order
  the database compares them, so no two acknowledged writes of a process carry the same fence and
  a later write always wins; this holds as long as the sequence number stays below the \<^verbatim>\<open>int64\<close>
  limit.\<close>

theorem stamps_strictly_increase:
  assumes "seq_room s (length reqs)"
  shows "sorted_wrt fence_less (stamp_run Stamp s reqs) \<and>
    (\<forall>f \<in> set (stamp_run Stamp s reqs). fence_less (seq_issued s) f)"
  using assms ms.run_increasing ms.run_above by blast

theorem stamps_strictly_increase_witness:
  "sorted_wrt fence_less (stamp_run Stamp NewMemoryFenceSequencer [(1, 0), (1, 0), (1, 3), (1, 2), (2, 0)])
   \<and> stamp_run Stamp NewMemoryFenceSequencer [(1, 0), (1, 0), (1, 3), (1, 2), (2, 0)]
     = [(1, 0, 1), (1, 0, 2), (1, 3, 1), (2, 0, 1)]"
proof -
  have "seq_room NewMemoryFenceSequencer (length [(1, 0), (1, 0), (1, 3), (1, 2), (2, 0 :: int)])"
    by (simp add: seq_room_def NewMemoryFenceSequencer_def)
  from stamps_strictly_increase [OF this] show ?thesis
    by (simp add: NewMemoryFenceSequencer_def Stamp_def Let_def i64_def)
qed

end
