(* ===== verification/Oplog_Records.thy ===== *)
theory Oplog_Records
  imports Fence_Lease
begin

text \<open>
  The records a mutation travels in: the wire entry of the ring with its validation
  (\<^verbatim>\<open>internal/oplog\<close>), the row of the database (\<^verbatim>\<open>internal/store\<close>), the conversion between them
  and the expiry test (\<^verbatim>\<open>internal/sidecar\<close>).  The JSON codec of the wire is an argument of
  \<open>Encode\<close> and \<open>Decode\<close>.
\<close>

section \<open>Wire entries\<close>

definition OpSet :: string where "OpSet = ''set''"
definition OpDelete :: string where "OpDelete = ''delete''"
definition OpExpire :: string where "OpExpire = ''expire''"

lemmas Op_defs = OpSet_def OpDelete_def OpExpire_def

record oplog_Entry =
  oe_Version :: u32
  oe_Op :: string
  oe_DMap :: string
  oe_Key :: string
  oe_HKey :: u64
  oe_EncodedEntry :: "byte list"
  oe_TTL :: int64
  oe_Timestamp :: int64
  oe_Generation :: int64
  oe_Epoch :: int64
  oe_OwnerSeq :: int64
  oe_WriterID :: string
  oe_UpdatedAtUnixNano :: int64

definition currentVersion :: u32 where
  "currentVersion = 1"

datatype oplog_error =
    ErrJSON string | ErrVersion u32 | ErrUnknownOp string | ErrEmptyDMap
  | ErrMissingFence int64 int64 | ErrEmptyWriter

definition Encode :: "(oplog_Entry \<Rightarrow> string + byte list) \<Rightarrow> oplog_Entry \<Rightarrow> string + byte list" where
  "Encode marshal entry = marshal (entry\<lparr>oe_Version := currentVersion\<rparr>)"

definition Decode :: "(byte list \<Rightarrow> string + oplog_Entry) \<Rightarrow> byte list \<Rightarrow> oplog_error + oplog_Entry" where
  "Decode unmarshal payload =
     (case unmarshal payload of
        Inl err \<Rightarrow> Inl (ErrJSON err)
      | Inr e \<Rightarrow>
          if oe_Version e \<noteq> currentVersion then Inl (ErrVersion (oe_Version e))
          else if oe_Op e \<noteq> OpSet \<and> oe_Op e \<noteq> OpDelete \<and> oe_Op e \<noteq> OpExpire
            then Inl (ErrUnknownOp (oe_Op e))
          else if oe_DMap e = '''' then Inl ErrEmptyDMap
          else if oe_Generation e \<le> 0 \<or> oe_OwnerSeq e \<le> 0
            then Inl (ErrMissingFence (oe_Generation e) (oe_OwnerSeq e))
          else if oe_WriterID e = '''' then Inl ErrEmptyWriter
          else Inr e)"

definition oe_fence :: "oplog_Entry \<Rightarrow> int64 \<times> int64 \<times> int64" where
  "oe_fence e = (oe_Generation e, oe_Epoch e, oe_OwnerSeq e)"

text \<open>The entries \<open>Decode\<close> accepts.\<close>

definition valid_entry :: "oplog_Entry \<Rightarrow> bool" where
  "valid_entry e \<longleftrightarrow> oe_Version e = currentVersion \<and> oe_Op e \<in> {OpSet, OpDelete, OpExpire} \<and>
     oe_DMap e \<noteq> '''' \<and> 0 < oe_Generation e \<and> 0 < oe_OwnerSeq e \<and> oe_WriterID e \<noteq> ''''"

lemma Decode_Inr_iff:
  "Decode unmarshal payload = Inr e \<longleftrightarrow> unmarshal payload = Inr e \<and> valid_entry e"
  by (auto simp: Decode_def valid_entry_def not_le split: sum.splits if_splits)

section \<open>Rows\<close>

record EntryRef =
  ref_DMap :: string
  ref_Key :: string
  ref_HKey :: u64

record EntryRecord =
  er_DMap :: string
  er_Key :: string
  er_HKey :: u64
  er_EncodedEntry :: "byte list"
  er_TTL :: int64
  er_Timestamp :: int64
  er_Tombstone :: bool
  er_Generation :: int64
  er_Epoch :: int64
  er_OwnerSeq :: int64
  er_WriterID :: string
  er_UpdatedAt :: time

definition record_Ref :: "EntryRecord \<Rightarrow> EntryRef" where
  "record_Ref r = \<lparr>ref_DMap = er_DMap r, ref_Key = er_Key r, ref_HKey = er_HKey r\<rparr>"

definition recordFromEntry :: "oplog_Entry \<Rightarrow> EntryRecord" where
  "recordFromEntry e =
     \<lparr>er_DMap = oe_DMap e, er_Key = oe_Key e, er_HKey = oe_HKey e,
      er_EncodedEntry = oe_EncodedEntry e, er_TTL = oe_TTL e, er_Timestamp = oe_Timestamp e,
      er_Tombstone = (oe_Op e = OpDelete), er_Generation = oe_Generation e,
      er_Epoch = oe_Epoch e, er_OwnerSeq = oe_OwnerSeq e, er_WriterID = oe_WriterID e,
      er_UpdatedAt = oe_UpdatedAtUnixNano e\<rparr>"

definition recordExpiredAt :: "EntryRecord \<Rightarrow> time \<Rightarrow> bool" where
  "recordExpiredAt rec now = (if er_TTL rec \<le> 0 then False else UnixMilli now \<ge> er_TTL rec)"

definition entry_ref :: "oplog_Entry \<Rightarrow> EntryRef" where
  "entry_ref e = \<lparr>ref_DMap = oe_DMap e, ref_Key = oe_Key e, ref_HKey = oe_HKey e\<rparr>"

lemma record_Ref_recordFromEntry [simp]: "record_Ref (recordFromEntry e) = entry_ref e"
  by (simp add: record_Ref_def recordFromEntry_def entry_ref_def)

lemma recordFromEntry_simps [simp]:
  "er_DMap (recordFromEntry e) = oe_DMap e" "er_Key (recordFromEntry e) = oe_Key e"
  "er_HKey (recordFromEntry e) = oe_HKey e" "er_Generation (recordFromEntry e) = oe_Generation e"
  "er_Epoch (recordFromEntry e) = oe_Epoch e" "er_OwnerSeq (recordFromEntry e) = oe_OwnerSeq e"
  "er_WriterID (recordFromEntry e) = oe_WriterID e"
  by (simp_all add: recordFromEntry_def)

section \<open>A concrete codec\<close>

text \<open>A length-prefixed codec of wire entries, an instance of the codec argument at which the
  results are applied.\<close>

definition put_bytes :: "byte list \<Rightarrow> byte list" where
  "put_bytes bs = be_bytes 4 (of_nat (length bs) :: u32) @ bs"

definition take_bytes :: "byte list \<Rightarrow> (byte list \<times> byte list) option" where
  "take_bytes d = (if length d < 4 then None else
     let n = unat (be_word (take 4 d) :: u32); r = drop 4 d in
     if length r < n then None else Some (take n r, drop n r))"

definition put_int :: "int64 \<Rightarrow> byte list" where
  "put_int x = be_bytes 8 (word_of_int x :: u64)"

definition take_int :: "byte list \<Rightarrow> (int64 \<times> byte list) option" where
  "take_int d = (if length d < 8 then None else Some (sint (be_word (take 8 d) :: u64), drop 8 d))"

definition demo_marshal :: "oplog_Entry \<Rightarrow> string + byte list" where
  "demo_marshal e = Inr (
     put_int (uint (oe_Version e)) @ put_bytes (string_bytes (oe_Op e)) @
     put_bytes (string_bytes (oe_DMap e)) @ put_bytes (string_bytes (oe_Key e)) @
     put_int (sint (oe_HKey e)) @ put_bytes (oe_EncodedEntry e) @ put_int (oe_TTL e) @
     put_int (oe_Timestamp e) @ put_int (oe_Generation e) @ put_int (oe_Epoch e) @
     put_int (oe_OwnerSeq e) @ put_bytes (string_bytes (oe_WriterID e)) @
     put_int (oe_UpdatedAtUnixNano e))"

definition demo_parse :: "byte list \<Rightarrow> oplog_Entry option" where
  "demo_parse d =
     Option.bind (take_int d) (\<lambda>(v, d). Option.bind (take_bytes d) (\<lambda>(k, d).
     Option.bind (take_bytes d) (\<lambda>(m, d). Option.bind (take_bytes d) (\<lambda>(key, d).
     Option.bind (take_int d) (\<lambda>(h, d). Option.bind (take_bytes d) (\<lambda>(en, d).
     Option.bind (take_int d) (\<lambda>(ttl, d). Option.bind (take_int d) (\<lambda>(ts, d).
     Option.bind (take_int d) (\<lambda>(g, d). Option.bind (take_int d) (\<lambda>(e, d).
     Option.bind (take_int d) (\<lambda>(s, d). Option.bind (take_bytes d) (\<lambda>(w, d).
     Option.bind (take_int d) (\<lambda>(u, d).
     Some \<lparr>oe_Version = word_of_int v, oe_Op = bytes_string k, oe_DMap = bytes_string m,
       oe_Key = bytes_string key, oe_HKey = word_of_int h, oe_EncodedEntry = en, oe_TTL = ttl,
       oe_Timestamp = ts, oe_Generation = g, oe_Epoch = e, oe_OwnerSeq = s,
       oe_WriterID = bytes_string w, oe_UpdatedAtUnixNano = u\<rparr>)))))))))))))"

definition demo_unmarshal :: "byte list \<Rightarrow> string + oplog_Entry" where
  "demo_unmarshal d = (case demo_parse d of None \<Rightarrow> Inl ''malformed'' | Some e \<Rightarrow> Inr e)"

definition demo_small :: "oplog_Entry \<Rightarrow> bool" where
  "demo_small e \<longleftrightarrow>
     (\<forall>n \<in> {length (oe_Op e), length (oe_DMap e), length (oe_Key e), length (oe_EncodedEntry e),
            length (oe_WriterID e)}. n < 2 ^ 32) \<and>
     (\<forall>x \<in> {oe_TTL e, oe_Timestamp e, oe_Generation e, oe_Epoch e, oe_OwnerSeq e,
            oe_UpdatedAtUnixNano e}. i64_range x)"

lemma take_put_bytes: "length bs < 2 ^ 32 \<Longrightarrow> take_bytes (put_bytes bs @ r) = Some (bs, r)"
  by (simp add: take_bytes_def put_bytes_def Let_def unat_of_nat take_bit_nat_eq_self)

lemma take_put_int: "i64_range x \<Longrightarrow> take_int (put_int x @ r) = Some (x, r)"
  by (simp add: take_int_def put_int_def sint_word_of_int_i64)

lemma take_put_int_last: "i64_range x \<Longrightarrow> take_int (put_int x) = Some (x, [])"
  using take_put_int [of x "[]"] by simp

lemma demo_unmarshal_marshal:
  assumes "demo_small e" "demo_marshal e = Inr p"
  shows "demo_unmarshal p = Inr e"
proof -
  have "i64_range (uint (oe_Version e))"
    using uint_lt2p [of "oe_Version e"] order.trans [OF _ uint_ge_0 [of "oe_Version e"], of "- (2 ^ 63)"]
    by (simp add: i64_range_def)
  moreover have "i64_range (sint (oe_HKey e))"
    using sint_greater_eq [of "oe_HKey e"] sint_lt [of "oe_HKey e"] by (simp add: i64_range_def)
  ultimately show ?thesis
    using assms
    by (cases e) (auto simp: demo_marshal_def demo_unmarshal_def demo_parse_def demo_small_def
        take_put_bytes take_put_int take_put_int_last)
qed

definition demo_entry :: "int64 \<Rightarrow> int64 \<Rightarrow> string \<Rightarrow> oplog_Entry" where
  "demo_entry g s kind = \<lparr>oe_Version = 1, oe_Op = kind, oe_DMap = ''d'', oe_Key = ''k'', oe_HKey = 3,
     oe_EncodedEntry = [1], oe_TTL = 0, oe_Timestamp = 5, oe_Generation = g, oe_Epoch = 0,
     oe_OwnerSeq = s, oe_WriterID = ''w'', oe_UpdatedAtUnixNano = 7\<rparr>"

lemma demo_entry_payload:
  assumes "0 < g" "g < 100" "0 < s" "s < 100" "kind \<in> {OpSet, OpDelete, OpExpire}"
  shows "\<exists>p. demo_marshal (demo_entry g s kind) = Inr p \<and> length p \<le> 100 \<and>
    Decode demo_unmarshal p = Inr (demo_entry g s kind)"
proof -
  have small: "demo_small (demo_entry g s kind)"
    using assms by (auto simp: demo_small_def demo_entry_def i64_range_def Op_defs)
  obtain p where p: "demo_marshal (demo_entry g s kind) = Inr p" by (simp add: demo_marshal_def)
  then have "length p \<le> 100"
    using assms(5) by (auto simp: demo_marshal_def put_int_def put_bytes_def demo_entry_def Op_defs)
  with p demo_unmarshal_marshal [OF small p] assms show ?thesis
    by (auto simp: Decode_Inr_iff valid_entry_def demo_entry_def currentVersion_def)
qed

end
