(* ===== verification/Durable_Hook.thy ===== *)
theory Durable_Hook
  imports Oplog_Ring Olric_Store Oplog_Records
begin

text \<open>
  The durable hook of the node (\<^verbatim>\<open>internal/stringkv/durable_hook.go\<close>) and the operation it is
  called with (\<^verbatim>\<open>third_party/olric/config/durable.go\<close>).  The hook stands between a mutation in
  memory and its record in the ring.  The main results: a write that is acknowledged is in the
  ring exactly once with the fence of its snapshot and a fresh owner sequence, a write that
  failed after its mutation stops the node, and the bounded retry ends.
\<close>

section \<open>Operations\<close>

record DurableOperation =
  do_DMap :: string
  do_Key :: string
  do_HKey :: u64
  do_PartitionID :: u64
  do_Origin :: string
  do_Version :: int64
  do_Entry :: "Entry option"
  do_TTL :: duration
  do_FenceGeneration :: int64
  do_FenceEpoch :: int64
  do_FenceOwnerSeq :: int64

record DurableHandoff =
  dh_DMap :: string
  dh_PartitionID :: u64
  dh_PartitionCount :: u64
  dh_HKeys :: "u64 list"

section \<open>The hook\<close>

datatype hook_error =
    ErrLeaseExpired
  | ErrRingAlmostFull
  | ErrEntryNil
  | ErrStamp stamp_error
  | ErrEncodeOplog string
  | ErrRingAppend ring_error
  | ErrBudgetExceeded
  | ErrContextDone
  | ErrHookKeyNotFound
  | ErrLoadMiss string
  | ErrDrain string
  | HookPanic

datatype new_hook_error = ErrNilRing | ErrNilLease | ErrNilSequencer | ErrNoWriterID

text \<open>The ring, the lease and the sequencer are the ones the node wires in; \<open>h_control\<close> and
  \<open>h_onFatal\<close> say whether the optional collaborators are set, \<open>h_notified\<close> lists the calls of
  \<open>Notify\<close> and \<open>h_fatals\<close> the errors given to \<open>onFatal\<close>.\<close>

record DurableHook =
  h_ring :: mapping
  h_control :: bool
  h_lease :: LeaseTracker
  h_sequence :: MemoryFenceSequencer
  h_writerID :: string
  h_appendBudget :: duration
  h_onFatal :: bool
  h_fatalCalled :: bool
  h_notified :: "u64 list"
  h_fatals :: "hook_error list"

definition NewDurableHook :: "mapping option \<Rightarrow> bool \<Rightarrow> LeaseTracker option \<Rightarrow>
    MemoryFenceSequencer option \<Rightarrow> string \<Rightarrow> duration \<Rightarrow> bool \<Rightarrow> new_hook_error + DurableHook" where
  "NewDurableHook ring control lease sequence writerID appendBudget onFatal =
     (case ring of None \<Rightarrow> Inl ErrNilRing | Some ring \<Rightarrow>
      case lease of None \<Rightarrow> Inl ErrNilLease | Some lease \<Rightarrow>
      case sequence of None \<Rightarrow> Inl ErrNilSequencer | Some sequence \<Rightarrow>
      if writerID = '''' then Inl ErrNoWriterID
      else Inr \<lparr>h_ring = ring, h_control = control, h_lease = lease, h_sequence = sequence,
        h_writerID = writerID,
        h_appendBudget = (if appendBudget \<le> 0 then 5 * second else appendBudget),
        h_onFatal = onFatal, h_fatalCalled = False, h_notified = [], h_fatals = []\<rparr>)"

definition estimateOplogSize :: "DurableHook \<Rightarrow> DurableOperation \<Rightarrow> u64" where
  "estimateOplogSize h op =
     (let size = of_nat (length (do_DMap op) + length (do_Key op) + length (h_writerID h)) + 256 in
      case do_Entry op of
        None \<Rightarrow> size
      | Some entry \<Rightarrow> size + of_nat (length (Entry_Encode entry)) * 2)"

definition concurrentBuffer :: u64 where
  "concurrentBuffer = 64 * 1024"

definition hook_stamp :: "DurableHook \<Rightarrow> DurableOperation \<Rightarrow> time \<Rightarrow>
    DurableOperation \<times> hook_error option" where
  "hook_stamp h op now =
     (case SnapshotForWrite (h_lease h) now of (g, e, ok) \<Rightarrow>
      if \<not> ok then (op, Some ErrLeaseExpired)
      else let op = op\<lparr>do_FenceGeneration := g, do_FenceEpoch := e\<rparr>;
               estimatedSize = estimateOplogSize h op;
               free = capacity (h_ring h) - Pending (h_ring h) in
      if free < estimatedSize + concurrentBuffer then (op, Some ErrRingAlmostFull)
      else (op, None))"

definition BeforeSet :: "DurableHook \<Rightarrow> DurableOperation \<Rightarrow> time \<Rightarrow>
    DurableOperation \<times> hook_error option" where
  "BeforeSet h op now = (if do_Entry op = None then (op, Some ErrEntryNil) else hook_stamp h op now)"

definition BeforeDelete :: "DurableHook \<Rightarrow> DurableOperation \<Rightarrow> time \<Rightarrow>
    DurableOperation \<times> hook_error option" where
  "BeforeDelete h op now = hook_stamp h op now"

definition BeforeExpire :: "DurableHook \<Rightarrow> DurableOperation \<Rightarrow> time \<Rightarrow>
    DurableOperation \<times> hook_error option" where
  "BeforeExpire h op now = (if do_Entry op = None then (op, Some ErrEntryNil) else hook_stamp h op now)"

definition VerifyAfterLock :: "DurableHook \<Rightarrow> DurableOperation \<Rightarrow> time \<Rightarrow> hook_error option" where
  "VerifyAfterLock h op now =
     (if do_FenceGeneration op = 0 then None
      else if \<not> VerifyFence (h_lease h) (do_FenceGeneration op) (do_FenceEpoch op) now
        then Some ErrLeaseExpired
      else None)"

text \<open>What happens around the hook while it retries: the clock at the start, the clock at the \<open>k\<close>-th deadline check,
  whether the context is done at the \<open>k\<close>-th wait, and what the other users of the ring (the
  consumer in the sidecar, other writers) do to it during that wait.\<close>

record retry_env =
  re_start :: time
  re_now :: "nat \<Rightarrow> time"
  re_done :: "nat \<Rightarrow> bool"
  re_ring :: "nat \<Rightarrow> mapping \<Rightarrow> mapping"

partial_function (option) append_loop :: "retry_env \<Rightarrow> time \<Rightarrow> byte list \<Rightarrow> nat \<Rightarrow> mapping \<Rightarrow>
    (hook_error option \<times> mapping) option" where
  "append_loop env deadline payload k ring =
     (case Append ring payload of
        Inr ring' \<Rightarrow> Some (None, ring')
      | Inl err \<Rightarrow>
          if err \<noteq> ErrRingFull then Some (Some (ErrRingAppend err), ring)
          else if re_now env k > deadline then Some (Some ErrBudgetExceeded, ring)
          else if re_done env k then Some (Some ErrContextDone, ring)
          else append_loop env deadline payload (Suc k) (re_ring env k ring))"

definition appendWithBudget :: "retry_env \<Rightarrow> DurableHook \<Rightarrow> byte list \<Rightarrow>
    (hook_error option \<times> DurableHook) option" where
  "appendWithBudget env h payload =
     map_option (\<lambda>(err, ring). (err, h\<lparr>h_ring := ring\<rparr>))
       (append_loop env (re_start env + h_appendBudget h) payload 0 (h_ring h))"

definition oplog_entry :: "DurableHook \<Rightarrow> DurableOperation \<Rightarrow> string \<Rightarrow> int64 \<times> int64 \<times> int64 \<Rightarrow>
    time \<Rightarrow> oplog_Entry" where
  "oplog_entry h op kind fence now =
     (case fence of (g, e, s) \<Rightarrow>
      let entry = \<lparr>oe_Version = 0, oe_Op = kind, oe_DMap = do_DMap op, oe_Key = do_Key op,
        oe_HKey = do_HKey op, oe_EncodedEntry = [], oe_TTL = 0, oe_Timestamp = 0,
        oe_Generation = g, oe_Epoch = e, oe_OwnerSeq = s, oe_WriterID = h_writerID h,
        oe_UpdatedAtUnixNano = i64 now\<rparr> in
      case do_Entry op of
        None \<Rightarrow> entry
      | Some x \<Rightarrow> entry\<lparr>oe_EncodedEntry := Entry_Encode x, oe_TTL := en_ttl x,
                        oe_Timestamp := en_timestamp x\<rparr>)"

definition publish :: "(oplog_Entry \<Rightarrow> string + byte list) \<Rightarrow> retry_env \<Rightarrow> DurableHook \<Rightarrow>
    DurableOperation \<Rightarrow> string \<Rightarrow> time \<Rightarrow> (hook_error option \<times> DurableHook) option" where
  "publish marshal env h op kind now =
     (case Stamp (h_sequence h) (do_FenceGeneration op) (do_FenceEpoch op) of
        (Inl err, sequence) \<Rightarrow> Some (Some (ErrStamp err), h\<lparr>h_sequence := sequence\<rparr>)
      | (Inr fence, sequence) \<Rightarrow>
          (let h = h\<lparr>h_sequence := sequence\<rparr> in
           case Encode marshal (oplog_entry h op kind fence now) of
             Inl err \<Rightarrow> Some (Some (ErrEncodeOplog err), h)
           | Inr payload \<Rightarrow>
               Option.bind (appendWithBudget env h payload) (\<lambda>(err, h).
               case err of
                 Some err \<Rightarrow> Some (Some err, h)
               | None \<Rightarrow> Some (None,
                   if h_control h then h\<lparr>h_notified := h_notified h @ [of_nat (length payload)]\<rparr> else h))))"

definition hook_fatal :: "hook_error \<Rightarrow> DurableHook \<Rightarrow> DurableHook" where
  "hook_fatal err h =
     (if \<not> h_onFatal h then h
      else if \<not> h_fatalCalled h
        then h\<lparr>h_fatalCalled := True, h_fatals := h_fatals h @ [err]\<rparr>
      else h)"

text \<open>\<open>AfterSet\<close>, \<open>AfterDelete\<close> and \<open>AfterExpire\<close> differ in the kind they publish.\<close>

definition after_mutation :: "string \<Rightarrow> (oplog_Entry \<Rightarrow> string + byte list) \<Rightarrow> retry_env \<Rightarrow>
    DurableHook \<Rightarrow> DurableOperation \<Rightarrow> bool \<Rightarrow> time \<Rightarrow> (hook_error option \<times> DurableHook) option" where
  "after_mutation kind marshal env h op mutationErr now =
     (if mutationErr then Some (None, h)
      else Option.bind (publish marshal env h op kind now) (\<lambda>(err, h).
        case err of
          Some err \<Rightarrow> Some (Some err, hook_fatal err h)
        | None \<Rightarrow> Some (None, h)))"

definition AfterSet :: "(oplog_Entry \<Rightarrow> string + byte list) \<Rightarrow> retry_env \<Rightarrow>
    DurableHook \<Rightarrow> DurableOperation \<Rightarrow> bool \<Rightarrow> time \<Rightarrow> (hook_error option \<times> DurableHook) option" where
  "AfterSet = after_mutation OpSet"

definition AfterDelete :: "(oplog_Entry \<Rightarrow> string + byte list) \<Rightarrow> retry_env \<Rightarrow>
    DurableHook \<Rightarrow> DurableOperation \<Rightarrow> bool \<Rightarrow> time \<Rightarrow> (hook_error option \<times> DurableHook) option" where
  "AfterDelete = after_mutation OpDelete"

definition AfterExpire :: "(oplog_Entry \<Rightarrow> string + byte list) \<Rightarrow> retry_env \<Rightarrow>
    DurableHook \<Rightarrow> DurableOperation \<Rightarrow> bool \<Rightarrow> time \<Rightarrow> (hook_error option \<times> DurableHook) option" where
  "AfterExpire = after_mutation OpExpire"

text \<open>The read path: \<open>load\<close> and \<open>drain\<close> are the sidecar's control calls.\<close>

definition LoadOnMiss :: "DurableHook \<Rightarrow> (string \<Rightarrow> string \<Rightarrow> u64 \<Rightarrow> string + EntryRecord \<times> bool) \<Rightarrow>
    DurableOperation \<Rightarrow> hook_error + Entry" where
  "LoadOnMiss h load op =
     (if \<not> h_control h then Inl ErrHookKeyNotFound
      else case load (do_DMap op) (do_Key op) (do_HKey op) of
        Inl err \<Rightarrow> Inl (ErrLoadMiss err)
      | Inr (rec, found) \<Rightarrow>
          if \<not> found \<or> er_Tombstone rec then Inl ErrHookKeyNotFound
          else if do_Entry op = None then Inl ErrEntryNil
          else if er_EncodedEntry rec = [] then Inl ErrHookKeyNotFound
          else case Entry_Decode (er_EncodedEntry rec) of
            None \<Rightarrow> Inl HookPanic | Some entry \<Rightarrow> Inr entry)"

definition DrainForHandoff :: "DurableHook \<Rightarrow> (string \<Rightarrow> u64 \<Rightarrow> u64 \<Rightarrow> string option) \<Rightarrow>
    DurableHandoff \<Rightarrow> hook_error option" where
  "DrainForHandoff h drain handoff =
     (if \<not> h_control h then None
      else if dh_PartitionCount handoff = 0 then None
      else map_option ErrDrain
        (drain (dh_DMap handoff) (dh_PartitionID handoff) (dh_PartitionCount handoff)))"

section \<open>The retry loop\<close>

definition ring_live :: "mapping \<Rightarrow> bool" where
  "ring_live m \<longleftrightarrow> (\<exists>xs. ring_inv m xs) \<and> ring_head m + ring_cap m < 2 ^ 64"

text \<open>The other users of the ring keep it well formed.\<close>

definition ring_env_ok :: "retry_env \<Rightarrow> bool" where
  "ring_env_ok env \<longleftrightarrow> (\<forall>k m. ring_live m \<longrightarrow> ring_live (re_ring env k m))"

definition appended :: "mapping \<Rightarrow> byte list \<Rightarrow> bool" where
  "appended m p \<longleftrightarrow> (\<exists>m0 xs. ring_inv m0 xs \<and> Append m0 p = Inr m \<and> ring_inv m (xs @ [p]))"

lemma Append_appended:
  assumes "ring_live m" "length p < 2 ^ 32 - 1" "Append m p = Inr m'"
  shows "appended m' p"
proof -
  from assms(1) obtain xs where inv: "ring_inv m xs" and "ring_head m + ring_cap m < 2 ^ 64"
    by (auto simp: ring_live_def)
  from Append_cases [OF inv assms(2) this(2)] assms(3) have "ring_inv m' (xs @ [p])"
    by (metis Inl_Inr_False sum.inject(2))
  with inv assms(3) show ?thesis by (auto simp: appended_def)
qed

lemma append_loop_appended:
  assumes "append_loop env deadline p k m = Some r"
  shows "fst r = None \<longrightarrow> ring_live m \<longrightarrow> ring_env_ok env \<longrightarrow> length p < 2 ^ 32 - 1 \<longrightarrow> appended (snd r) p"
proof (rule append_loop.raw_induct [where P = "\<lambda>env deadline p k m r. fst r = None \<longrightarrow> ring_live m \<longrightarrow>
    ring_env_ok env \<longrightarrow> length p < 2 ^ 32 - 1 \<longrightarrow> appended (snd r) p", OF _ assms], goal_cases)
  case (1 loop env deadline p k m r)
  then show ?case
    by (cases "Append m p") (auto simp: ring_env_ok_def Append_appended split: if_splits)
qed

lemma append_loop_success:
  assumes "append_loop env deadline p k m = Some (None, m')"
    and "ring_live m" "ring_env_ok env" "length p < 2 ^ 32 - 1"
  shows "appended m' p"
  using append_loop_appended [OF assms(1)] assms(2-) by simp

lemma append_loop_returns:
  assumes "deadline < re_now env K" "k \<le> K"
  shows "\<exists>r. append_loop env deadline p k m = Some r"
  using assms(2)
proof (induction "K - k" arbitrary: k m)
  case 0
  with assms(1) show ?case by (subst append_loop.simps) (auto split: sum.split)
next
  case (Suc n)
  then have "\<exists>r. append_loop env deadline p (Suc k) m' = Some r" for m' by auto
  then show ?case by (subst append_loop.simps) (auto split: sum.split)
qed

lemma bind_returns: "\<exists>r. x = Some r \<Longrightarrow> (\<And>r. \<exists>y. f r = Some y) \<Longrightarrow> \<exists>y. Option.bind x f = Some y"
  by auto

lemma publish_returns:
  assumes "re_start env + h_appendBudget h < re_now env K"
  shows "\<exists>r. publish marshal env h op kind now = Some r"
proof -
  have "\<exists>r. appendWithBudget env (h\<lparr>h_sequence := s\<rparr>) p = Some r" for s p
    using append_loop_returns [OF assms, of 0 p "h_ring h"] by (auto simp: appendWithBudget_def)
  then show ?thesis
    unfolding publish_def Let_def
    by (auto simp del: split_paired_Ex split: sum.split prod.split option.split intro!: bind_returns)
qed

lemma publish_success:
  assumes "publish marshal env h op kind now = Some (None, h')"
  obtains fence seq payload where
    "Stamp (h_sequence h) (do_FenceGeneration op) (do_FenceEpoch op) = (Inr fence, seq)"
    "Encode marshal (oplog_entry h op kind fence now) = Inr payload"
    "append_loop env (re_start env + h_appendBudget h) payload 0 (h_ring h) = Some (None, h_ring h')"
    "h_sequence h' = seq" "h_lease h' = h_lease h"
    "h_fatals h' = h_fatals h" "h_fatalCalled h' = h_fatalCalled h" "h_onFatal h' = h_onFatal h"
  using assms
  by (fastforce simp: publish_def appendWithBudget_def oplog_entry_def Let_def bind_eq_Some_conv
      split: sum.splits prod.splits option.splits if_splits)

section \<open>Space before the mutation\<close>

lemma hook_stamp_None:
  assumes "hook_stamp h op now = (op', None)"
  shows "op' = op\<lparr>do_FenceGeneration := lt_generation (h_lease h), do_FenceEpoch := lt_epoch (h_lease h)\<rparr>"
    and "ServingAllowed (h_lease h) now"
    and "\<not> capacity (h_ring h) - Pending (h_ring h) < estimateOplogSize h op' + concurrentBuffer"
  using assms
  by (auto simp: hook_stamp_def SnapshotForWrite_def ServingAllowed_def Let_def
      split: if_splits prod.splits)

definition estimate_nat :: "DurableHook \<Rightarrow> DurableOperation \<Rightarrow> nat" where
  "estimate_nat h op = length (do_DMap op) + length (do_Key op) + length (h_writerID h) + 256 +
     (case do_Entry op of None \<Rightarrow> 0 | Some x \<Rightarrow> 2 * length (Entry_Encode x))"

lemma estimateOplogSize_nat: "estimateOplogSize h op = of_nat (estimate_nat h op)"
  by (simp add: estimateOplogSize_def estimate_nat_def Let_def split: option.split)

lemma hook_stamp_room:
  assumes "hook_stamp h op now = (op', None)" "ring_inv (h_ring h) xs" "estimate_nat h op < 2 ^ 63"
  shows "estimate_nat h op + 65536 \<le> ring_cap (h_ring h) - (ring_tail (h_ring h) - ring_head (h_ring h))"
proof -
  have est: "estimateOplogSize h op' = of_nat (estimate_nat h op)"
    by (simp add: hook_stamp_None(1) [OF assms(1)] estimateOplogSize_nat estimate_nat_def)
  have "unat (estimateOplogSize h op' + concurrentBuffer) = unat (of_nat (estimate_nat h op + 65536) :: u64)"
    by (simp add: est concurrentBuffer_def)
  also have "\<dots> = estimate_nat h op + 65536"
    using assms(3) by (simp only: unat_of_nat) (simp add: take_bit_nat_eq_self)
  finally show ?thesis
    using hook_stamp_None(3) [OF assms(1)] ring_inv_words(1) [OF assms(2)]
    by (simp add: word_less_nat_alt Pending_def not_less)
qed

section \<open>Stopping the node\<close>

lemma appendWithBudget_fields:
  assumes "appendWithBudget env h p = Some (r, h')"
  shows "h_onFatal h' = h_onFatal h \<and> h_fatals h' = h_fatals h \<and> h_fatalCalled h' = h_fatalCalled h"
  using assms by (auto simp: appendWithBudget_def)

lemma publish_fields:
  assumes "publish marshal env h op kind now = Some (r, h')"
  shows "h_onFatal h' = h_onFatal h \<and> h_fatals h' = h_fatals h \<and> h_fatalCalled h' = h_fatalCalled h"
proof (cases "Stamp (h_sequence h) (do_FenceGeneration op) (do_FenceEpoch op)")
  case st: (Pair x q)
  show ?thesis
  proof (cases x)
    case (Inl err)
    with assms st show ?thesis by (auto simp: publish_def)
  next
    case f: (Inr fence)
    show ?thesis
    proof (cases "Encode marshal (oplog_entry (h\<lparr>h_sequence := q\<rparr>) op kind fence now)")
      case (Inl err)
      with assms st f show ?thesis by (auto simp: publish_def Let_def)
    next
      case (Inr p)
      with assms st f obtain r1 h1 where "appendWithBudget env (h\<lparr>h_sequence := q\<rparr>) p = Some (r1, h1)"
        and "h' = h1 \<or> h' = h1\<lparr>h_notified := h_notified h1 @ [of_nat (length p)]\<rparr>"
        by (auto simp: publish_def Let_def bind_eq_Some_conv split: option.splits if_splits)
      with appendWithBudget_fields [OF this(1)] show ?thesis by auto
    qed
  qed
qed

lemma hook_fatal_fields:
  "h_onFatal (hook_fatal err h) = h_onFatal h"
  "h_onFatal h \<Longrightarrow> h_fatalCalled h = (h_fatals h \<noteq> []) \<Longrightarrow>
    h_fatalCalled (hook_fatal err h) = (h_fatals (hook_fatal err h) \<noteq> []) \<and>
    h_fatals (hook_fatal err h) = (if h_fatals h = [] then [err] else h_fatals h)"
  by (auto simp: hook_fatal_def)

lemma after_mutation_error:
  assumes "after_mutation kind marshal env h op mutationErr now = Some (r, h')"
    and "h_onFatal h" "h_fatalCalled h = (h_fatals h \<noteq> [])"
  shows "h_onFatal h' \<and> h_fatalCalled h' = (h_fatals h' \<noteq> []) \<and>
      h_fatals h' = (if h_fatals h = [] then case r of None \<Rightarrow> [] | Some err \<Rightarrow> [err] else h_fatals h)"
proof (cases mutationErr)
  case False
  with assms(1) obtain r1 h1 where pub: "publish marshal env h op kind now = Some (r1, h1)"
    and res: "(r, h') = (case r1 of Some err \<Rightarrow> (Some err, hook_fatal err h1) | None \<Rightarrow> (None, h1))"
    by (auto simp: after_mutation_def bind_eq_Some_conv split: option.splits)
  from publish_fields [OF pub] hook_fatal_fields(1) [of _ h1] hook_fatal_fields(2) [of h1] assms(2,3) res show ?thesis
    by (cases r1) simp_all
qed (use assms in \<open>auto simp: after_mutation_def\<close>)

record after_call =
  ac_kind :: string
  ac_env :: retry_env
  ac_op :: DurableOperation
  ac_mutationErr :: bool
  ac_now :: time

fun after_run :: "(oplog_Entry \<Rightarrow> string + byte list) \<Rightarrow> DurableHook \<Rightarrow> after_call list \<Rightarrow>
    (hook_error list \<times> DurableHook) option" where
  "after_run marshal h [] = Some ([], h)"
| "after_run marshal h (c # cs) =
     Option.bind (after_mutation (ac_kind c) marshal (ac_env c) h (ac_op c) (ac_mutationErr c) (ac_now c))
       (\<lambda>(r, h). map_option (\<lambda>(errs, h). ((case r of None \<Rightarrow> [] | Some err \<Rightarrow> [err]) @ errs, h))
          (after_run marshal h cs))"

lemma after_run_fatals:
  "after_run marshal h cs = Some (errs, h') \<Longrightarrow> h_onFatal h \<Longrightarrow>
   h_fatalCalled h = (h_fatals h \<noteq> []) \<Longrightarrow>
   h_fatalCalled h' = (h_fatals h' \<noteq> []) \<and>
   h_fatals h' = (if h_fatals h = [] then take 1 errs else h_fatals h)"
proof (induction cs arbitrary: h errs)
  case (Cons c cs)
  from Cons.prems(1) obtain r h1 errs1 where
    step: "after_mutation (ac_kind c) marshal (ac_env c) h (ac_op c) (ac_mutationErr c) (ac_now c) = Some (r, h1)"
    and rest: "after_run marshal h1 cs = Some (errs1, h')"
    and errs: "errs = (case r of None \<Rightarrow> [] | Some err \<Rightarrow> [err]) @ errs1"
    by (auto simp: bind_eq_Some_conv)
  from after_mutation_error [OF step Cons.prems(2,3)] Cons.IH [OF rest] show ?case
    by (auto simp: errs split: option.splits)
qed simp

section \<open>Properties\<close>

text \<open>A second half that returns no error has appended the encoded record under a fresh fence.\<close>

lemma after_mutation_appends:
  assumes "after_mutation kind marshal env h op False now = Some (None, h')"
    and "ring_live (h_ring h)" "ring_env_ok env"
    and "\<And>fence p. Encode marshal (oplog_entry h op kind fence now) = Inr p \<Longrightarrow> length p < 2 ^ 32 - 1"
  shows "\<exists>f payload. Stamp (h_sequence h) (do_FenceGeneration op) (do_FenceEpoch op) = (Inr f, h_sequence h') \<and>
    Encode marshal (oplog_entry h op kind f now) = Inr payload \<and> appended (h_ring h') payload"
proof -
  from assms(1) have "publish marshal env h op kind now = Some (None, h')"
    by (auto simp: after_mutation_def bind_eq_Some_conv split: option.splits)
  then obtain f q payload where p: "Stamp (h_sequence h) (do_FenceGeneration op) (do_FenceEpoch op) = (Inr f, q)"
    "Encode marshal (oplog_entry h op kind f now) = Inr payload"
    "append_loop env (re_start env + h_appendBudget h) payload 0 (h_ring h) = Some (None, h_ring h')"
    "h_sequence h' = q" by (rule publish_success)
  with append_loop_success [OF p(3) assms(2,3)] assms(4) [OF p(2)] show ?thesis by blast
qed

text \<open>C4. An acknowledged mutation is durable under its fence.  Let a write pass its first half
  (\<open>BeforeSet\<close>, \<open>BeforeDelete\<close> or \<open>BeforeExpire\<close>), the subscriber then process any envelopes, the
  check under the fragment lock pass, and the second half return no error after any retries while
  the other users of the ring keep it well formed.  Then the encoded record of the operation is
  the last entry appended to the ring; its fence has the generation of the lease at both instants
  and the epoch of the snapshot, is above every fence issued before, and the lease was valid under
  the lock.\<close>

theorem acknowledged_write_in_ring:
  assumes "(before, kind) \<in> {(BeforeSet, OpSet), (BeforeDelete, OpDelete), (BeforeExpire, OpExpire)}"
    and "before h0 op0 t0 = (op, None)"
    and "h_lease h = ss_lease (fst (Run sub watchErr sendErr evs))" "sub_lease sub = h_lease h0"
    and "VerifyAfterLock h op t1 = None"
    and "after_mutation kind marshal env h op False now = Some (None, h')"
    and "ring_live (h_ring h)" "ring_env_ok env" "seq_room (h_sequence h) 1"
    and "\<And>fence p. Encode marshal (oplog_entry h op kind fence now) = Inr p \<Longrightarrow> length p < 2 ^ 32 - 1"
  shows "\<exists>payload s. Encode marshal
        (oplog_entry h op kind (lt_generation (h_lease h0), lt_epoch (h_lease h0), s) now) = Inr payload \<and>
      appended (h_ring h') payload \<and>
      lt_generation (h_lease h) = lt_generation (h_lease h0) \<and> ServingAllowed (h_lease h) t1 \<and>
      fence_less (seq_issued (h_sequence h)) (lt_generation (h_lease h0), lt_epoch (h_lease h0), s) \<and>
      seq_issued (h_sequence h') = (lt_generation (h_lease h0), lt_epoch (h_lease h0), s)"
proof -
  from assms(1,2) have "hook_stamp h0 op0 t0 = (op, None)"
    by (auto simp: BeforeSet_def BeforeDelete_def BeforeExpire_def split: if_splits)
  then have fence: "do_FenceGeneration op = lt_generation (h_lease h0)"
    "do_FenceEpoch op = lt_epoch (h_lease h0)"
    by (auto dest: hook_stamp_None(1))
  obtain f payload where p: "Stamp (h_sequence h) (do_FenceGeneration op) (do_FenceEpoch op) = (Inr f, h_sequence h')"
    "Encode marshal (oplog_entry h op kind f now) = Inr payload" and app: "appended (h_ring h') payload"
    using after_mutation_appends [OF assms(6,7,8)] assms(10) by blast
  from Stamp_issues [of _ 0, OF _ p(1)] assms(9) obtain s where
    f: "f = (lt_generation (h_lease h0), lt_epoch (h_lease h0), s)"
      "fence_less (seq_issued (h_sequence h)) f" "seq_issued (h_sequence h') = f"
    by (auto simp: fence)
  from p(1) have "do_FenceGeneration op \<noteq> 0" by (auto simp: Stamp_def split: if_splits)
  with assms(5) fence have "lt_generation (h_lease h) = lt_generation (h_lease h0)"
    "ServingAllowed (h_lease h) t1"
    by (auto simp: VerifyAfterLock_def VerifyFence_iff split: if_splits)
  with app p(2) f show ?thesis by (intro exI [of _ payload] exI [of _ s]) simp
qed

definition demo_hook :: DurableHook where
  "demo_hook = \<lparr>h_ring = zero_ring 131072, h_control = True, h_lease = sub_lease example_sub,
     h_sequence = NewMemoryFenceSequencer, h_writerID = ''w'', h_appendBudget = 5 * second,
     h_onFatal = True, h_fatalCalled = False, h_notified = [], h_fatals = []\<rparr>"

definition demo_op :: DurableOperation where
  "demo_op = \<lparr>do_DMap = ''d'', do_Key = ''k'', do_HKey = 3, do_PartitionID = 1, do_Origin = '''',
     do_Version = 0, do_Entry = Some (example_entry 1), do_TTL = 0, do_FenceGeneration = 0,
     do_FenceEpoch = 0, do_FenceOwnerSeq = 0\<rparr>"

definition demo_env :: retry_env where
  "demo_env = \<lparr>re_start = 0, re_now = (\<lambda>k. int k * second), re_done = (\<lambda>_. False),
     re_ring = (\<lambda>_ m. m)\<rparr>"

lemma zero_ring_live: "8 dvd n \<Longrightarrow> 0 < n \<Longrightarrow> 64 + n < 2 ^ 63 \<Longrightarrow> ring_live (zero_ring n)"
  using zero_ring_inv [of n] by (auto simp: ring_live_def ring_head_def zero_ring_cursors)

lemmas demo_hook_defs = demo_hook_def demo_op_def demo_env_def example_entry_def BeforeSet_def
  hook_stamp_def estimateOplogSize_def concurrentBuffer_def Entry_Encode_def VerifyAfterLock_def

lemma demo_before:
  "BeforeSet demo_hook demo_op 0 =
    (demo_op\<lparr>do_FenceGeneration := 1, do_FenceEpoch := 4\<rparr>, None)"
  by (simp add: demo_hook_defs example_defs zero_ring_cursors) (simp add: zero_ring_def)

lemma demo_entry_bytes:
  "\<exists>p. Encode demo_marshal (oplog_entry demo_hook (demo_op\<lparr>do_FenceGeneration := g, do_FenceEpoch := e\<rparr>)
       OpSet f 0) = Inr p \<and> length p = 122"
  by (auto simp: Encode_def demo_marshal_def oplog_entry_def Let_def put_int_def put_bytes_def
      Op_defs Entry_Encode_def example_entry_def demo_hook_def demo_op_def split: prod.split)

definition demo_hook' :: DurableHook where
  "demo_hook' = demo_hook\<lparr>h_lease := ss_lease (fst (Run example_sub None None
     [RecvEnvelope (example_envelope 1 9 80) 0 None None]))\<rparr>"

lemma demo_hook'_ring: "h_ring demo_hook' = zero_ring 131072"
  by (simp add: demo_hook'_def demo_hook_def)

lemma demo_hook'_payload:
  "\<exists>p. Encode demo_marshal (oplog_entry demo_hook' (demo_op\<lparr>do_FenceGeneration := g, do_FenceEpoch := e\<rparr>) OpSet f 0) =
     Inr p \<and> length p = 122"
proof -
  have "oplog_entry demo_hook' op k f t = oplog_entry demo_hook op k f t" for op k f t
    by (simp add: oplog_entry_def demo_hook'_def)
  then show ?thesis using demo_entry_bytes by simp
qed

lemma demo_stamp:
  "Stamp (h_sequence demo_hook') 1 4 = (Inr (1, 4, 1), \<lparr>fs_generation = 1, fs_epoch = 4, fs_seq = 1\<rparr>)"
  by (simp add: demo_hook'_def demo_hook_def NewMemoryFenceSequencer_def Stamp_def Let_def)

lemma demo_acknowledged:
  "\<exists>h' p. after_mutation OpSet demo_marshal demo_env demo_hook'
      (demo_op\<lparr>do_FenceGeneration := 1, do_FenceEpoch := 4\<rparr>) False 0 = Some (None, h') \<and>
    Encode demo_marshal (oplog_entry demo_hook' (demo_op\<lparr>do_FenceGeneration := 1, do_FenceEpoch := 4\<rparr>) OpSet (1, 4, 1) 0) = Inr p \<and>
    ring_inv (h_ring h') [p]"
proof -
  let ?op = "demo_op\<lparr>do_FenceGeneration := 1, do_FenceEpoch := 4\<rparr>"
  obtain p where p: "Encode demo_marshal (oplog_entry demo_hook' ?op OpSet (1, 4, 1) 0) = Inr p" "length p = 122"
    using demo_hook'_payload by blast
  obtain m where m: "Append (zero_ring 131072) p = Inr m" "ring_inv m [p]"
    using zero_ring_append [of 131072 p] p(2) by auto
  have upd: "oplog_entry (demo_hook'\<lparr>h_sequence := q\<rparr>) op k f t = oplog_entry demo_hook' op k f t"
    for q op k f t by (simp add: oplog_entry_def)
  have "\<exists>h'. after_mutation OpSet demo_marshal demo_env demo_hook' ?op False 0 = Some (None, h') \<and> h_ring h' = m"
    by (simp add: after_mutation_def publish_def demo_op_def [symmetric] demo_stamp upd p(1) Let_def
        appendWithBudget_def demo_hook'_ring append_loop.simps m(1))
  with p(1) m(2) show ?thesis by blast
qed

theorem acknowledged_write_in_ring_witness:
  "\<exists>h' payload s. after_mutation OpSet demo_marshal demo_env demo_hook'
      (fst (BeforeSet demo_hook demo_op 0)) False 0 = Some (None, h') \<and>
    appended (h_ring h') payload \<and> seq_issued (h_sequence h') = (1, 4, s)"
proof -
  let ?op = "demo_op\<lparr>do_FenceGeneration := 1, do_FenceEpoch := 4\<rparr>"
  have len: "length p < 2 ^ 32 - 1"
    if "Encode demo_marshal (oplog_entry demo_hook' ?op OpSet f 0) = Inr p" for f p
    using that demo_hook'_payload [where g = 1 and e = 4 and f = f] by auto
  obtain h' where h': "after_mutation OpSet demo_marshal demo_env demo_hook' ?op False 0 = Some (None, h')"
    using demo_acknowledged by blast
  have "\<exists>payload s. Encode demo_marshal (oplog_entry demo_hook' ?op OpSet
        (lt_generation (h_lease demo_hook), lt_epoch (h_lease demo_hook), s) 0) = Inr payload \<and>
      appended (h_ring h') payload \<and>
      lt_generation (h_lease demo_hook') = lt_generation (h_lease demo_hook) \<and>
      ServingAllowed (h_lease demo_hook') 0 \<and>
      fence_less (seq_issued (h_sequence demo_hook'))
        (lt_generation (h_lease demo_hook), lt_epoch (h_lease demo_hook), s) \<and>
      seq_issued (h_sequence h') = (lt_generation (h_lease demo_hook), lt_epoch (h_lease demo_hook), s)"
  proof (rule acknowledged_write_in_ring [where before = BeforeSet and env = demo_env
        and sub = example_sub and ?t0.0 = 0, OF _ demo_before])
    show "h_lease demo_hook' = ss_lease (fst (Run example_sub None None
      [RecvEnvelope (example_envelope 1 9 80) 0 None None]))" by (simp add: demo_hook'_def)
    show "VerifyAfterLock demo_hook' ?op 0 = None"
      by (simp add: demo_hook'_def VerifyAfterLock_def example_defs)
    show "ring_live (h_ring demo_hook')" by (simp add: demo_hook'_ring zero_ring_live)
    show "ring_env_ok demo_env" by (simp add: ring_env_ok_def demo_env_def)
    show "seq_room (h_sequence demo_hook') 1"
      by (simp add: seq_room_def demo_hook'_def demo_hook_def NewMemoryFenceSequencer_def)
  qed (use h' len in \<open>simp_all add: demo_hook_def\<close>)
  moreover have "lt_generation (h_lease demo_hook) = 1" "lt_epoch (h_lease demo_hook) = 4"
    by (simp_all add: demo_hook_def example_sub_def)
  ultimately show ?thesis using h' by (auto simp: demo_before)
qed

text \<open>C19. The retry of a full ring is bounded: if the clock passes the deadline at some check (it
  need not do so at any particular one), \<open>AfterSet\<close>, \<open>AfterDelete\<close> and \<open>AfterExpire\<close> return, whatever
  the codec, the ring and its other users do.\<close>

theorem bounded_retry_returns:
  assumes "re_start env + h_appendBudget h < re_now env K"
  shows "(\<exists>r. AfterSet marshal env h op mutationErr now = Some r) \<and>
    (\<exists>r. AfterDelete marshal env h op mutationErr now = Some r) \<and>
    (\<exists>r. AfterExpire marshal env h op mutationErr now = Some r)"
proof -
  have "\<exists>r. after_mutation kind marshal env h op mutationErr now = Some r" for kind
    using publish_returns [OF assms, of marshal op kind now]
    by (auto simp: after_mutation_def split: option.split)
  then show ?thesis by (simp add: AfterSet_def AfterDelete_def AfterExpire_def)
qed

theorem bounded_retry_returns_witness:
  "\<exists>r. AfterSet demo_marshal demo_env (demo_hook\<lparr>h_ring := zero_ring 8\<rparr>)
     (demo_op\<lparr>do_FenceGeneration := 1, do_FenceEpoch := 4\<rparr>) False 0 = Some r"
  by (rule bounded_retry_returns [where K = 6, THEN conjunct1]) (simp add: demo_env_def demo_hook_def)

text \<open>A mutation whose record could not be published stops the node, once: over any sequence
  of second halves on a hook with an \<open>onFatal\<close> callback, the callback is given exactly the first
  error returned, and it is called at all exactly when some call returned an error.\<close>

theorem first_publish_error_is_fatal:
  assumes "after_run marshal h calls = Some (errs, h')"
    and "h_onFatal h" "\<not> h_fatalCalled h" "h_fatals h = []"
  shows "h_fatals h' = take 1 errs"
  using after_run_fatals [OF assms(1,2)] assms(3,4) by simp

theorem first_publish_error_is_fatal_witness:
  "\<exists>errs h'. after_run demo_marshal demo_hook
      [\<lparr>ac_kind = OpSet, ac_env = demo_env, ac_op = demo_op, ac_mutationErr = True, ac_now = 0\<rparr>,
       \<lparr>ac_kind = OpSet, ac_env = demo_env, ac_op = demo_op, ac_mutationErr = False, ac_now = 0\<rparr>,
       \<lparr>ac_kind = OpDelete, ac_env = demo_env, ac_op = demo_op, ac_mutationErr = False, ac_now = 0\<rparr>]
      = Some (errs, h') \<and> length errs = 2 \<and> h_fatals h' = [ErrStamp (ErrInvalidFence 0 0)]"
proof -
  have "Stamp q 0 0 = (Inl (ErrInvalidFence 0 0), q)" for q by (simp add: Stamp_def)
  then have step: "after_mutation k demo_marshal demo_env h demo_op False 0 =
      Some (Some (ErrStamp (ErrInvalidFence 0 0)), hook_fatal (ErrStamp (ErrInvalidFence 0 0)) h)" for k h
    by (simp add: after_mutation_def publish_def demo_op_def)
  have skip: "after_mutation k demo_marshal demo_env h demo_op True 0 = Some (None, h)" for k h
    by (simp add: after_mutation_def)
  let ?h = "hook_fatal (ErrStamp (ErrInvalidFence 0 0)) (hook_fatal (ErrStamp (ErrInvalidFence 0 0)) demo_hook)"
  have run: "after_run demo_marshal demo_hook
      [\<lparr>ac_kind = OpSet, ac_env = demo_env, ac_op = demo_op, ac_mutationErr = True, ac_now = 0\<rparr>,
       \<lparr>ac_kind = OpSet, ac_env = demo_env, ac_op = demo_op, ac_mutationErr = False, ac_now = 0\<rparr>,
       \<lparr>ac_kind = OpDelete, ac_env = demo_env, ac_op = demo_op, ac_mutationErr = False, ac_now = 0\<rparr>]
      = Some ([ErrStamp (ErrInvalidFence 0 0), ErrStamp (ErrInvalidFence 0 0)], ?h)"
    by (simp add: step skip)
  from first_publish_error_is_fatal [OF run] run show ?thesis by (simp add: demo_hook_def)
qed

text \<open>C20. The check before the mutation is sufficient for one writer: when a first half passed on a
  ring, a record no longer than its estimate and than 65 506 bytes is accepted by \<open>Append\<close> on that
  ring, the padding before the boundary included.\<close>

theorem precheck_guarantees_append:
  assumes "hook_stamp h op now = (op', None)" and "ring_inv (h_ring h) xs"
    and "ring_head (h_ring h) + ring_cap (h_ring h) < 2 ^ 64" and "estimate_nat h op < 2 ^ 63"
    and "length p \<le> estimate_nat h op" "length p \<le> 65506"
  shows "\<exists>ring'. Append (h_ring h) p = Inr ring' \<and> ring_inv ring' (xs @ [p])"
proof -
  note room = hook_stamp_room [OF assms(1,2,4)]
  have e: "esize (length p) \<le> length p + 15" by (rule esize_bounds)
  have "ring_needed (ring_cap (h_ring h)) (ring_tail (h_ring h)) (length p) \<le> 2 * esize (length p)"
    by (simp add: ring_needed_def)
  with e room assms(5,6) show ?thesis
    using Append_success [OF assms(2) _ _ _ assms(3), of p] by fastforce
qed

theorem precheck_guarantees_append_witness:
  "\<exists>ring'. Append (h_ring demo_hook) [1, 2, 3] = Inr ring' \<and> ring_inv ring' [[1, 2, 3]]"
proof -
  have stamp: "hook_stamp demo_hook demo_op 0 =
      (demo_op\<lparr>do_FenceGeneration := 1, do_FenceEpoch := 4\<rparr>, None)"
    using demo_before by (simp add: BeforeSet_def demo_op_def)
  have ring: "h_ring demo_hook = zero_ring 131072" by (simp add: demo_hook_def)
  have "\<exists>ring'. Append (h_ring demo_hook) [1, 2, 3] = Inr ring' \<and> ring_inv ring' ([] @ [[1, 2, 3]])"
    by (rule precheck_guarantees_append [OF stamp])
      (simp_all add: ring zero_ring_inv ring_head_def zero_ring_cursors estimate_nat_def demo_op_def
        demo_hook_def example_entry_def Entry_Encode_def)
  then show ?thesis by simp
qed

end
