(* ===== verification/Mysql_Backend.thy ===== *)
theory Mysql_Backend
  imports Oplog_Records
begin

text \<open>
  The database backend of the sidecar (\<^verbatim>\<open>internal/sidecar/backend_mysql.go\<close>).  The table is an
  association list keyed by the primary key; what the source fixes is the conflict clause: one
  \<^verbatim>\<open>CASE WHEN newer THEN new ELSE old\<close> per column.  How the database evaluates the assignments of
  one row is an argument: simultaneously, on the row as it was (standard SQL, SQLite, PostgreSQL),
  or one after the other in a column order, each seeing the columns already assigned (the
  documented behaviour of MySQL's \<^verbatim>\<open>ON DUPLICATE KEY UPDATE\<close>).  The main results: under the first
  the table is a register that keeps the highest fence, whatever the order of the writes; under
  the second, in the alphabetical order of the clause, the later columns keep their old values.
\<close>

section \<open>The conflict clause\<close>

datatype column =
    COL_key | COL_encoded_entry | COL_ttl | COL_timestamp | COL_tombstone | COL_generation
  | COL_epoch | COL_owner_seq | COL_writer_id | COL_updated_at

text \<open>\<open>gt\<close> is the database's order of strings (its collation), \<open>VALUES(...)\<close> or \<open>excluded\<close> is
  \<open>new\<close>.\<close>

definition newer :: "(string \<Rightarrow> string \<Rightarrow> bool) \<Rightarrow> EntryRecord \<Rightarrow> EntryRecord \<Rightarrow> bool" where
  "newer gt new row \<longleftrightarrow>
     er_Generation new > er_Generation row \<or>
     (er_Generation new = er_Generation row \<and> er_Epoch new > er_Epoch row) \<or>
     (er_Generation new = er_Generation row \<and> er_Epoch new = er_Epoch row \<and>
      er_OwnerSeq new > er_OwnerSeq row) \<or>
     (er_Generation new = er_Generation row \<and> er_Epoch new = er_Epoch row \<and>
      er_OwnerSeq new = er_OwnerSeq row \<and> gt (er_WriterID new) (er_WriterID row))"

text \<open>\<open>assign c src row\<close> is \<open>row\<close> with its column \<open>c\<close> taken from \<open>src\<close>.\<close>

fun assign :: "column \<Rightarrow> EntryRecord \<Rightarrow> EntryRecord \<Rightarrow> EntryRecord" where
  "assign COL_key src row = row\<lparr>er_Key := er_Key src\<rparr>"
| "assign COL_encoded_entry src row = row\<lparr>er_EncodedEntry := er_EncodedEntry src\<rparr>"
| "assign COL_ttl src row = row\<lparr>er_TTL := er_TTL src\<rparr>"
| "assign COL_timestamp src row = row\<lparr>er_Timestamp := er_Timestamp src\<rparr>"
| "assign COL_tombstone src row = row\<lparr>er_Tombstone := er_Tombstone src\<rparr>"
| "assign COL_generation src row = row\<lparr>er_Generation := er_Generation src\<rparr>"
| "assign COL_epoch src row = row\<lparr>er_Epoch := er_Epoch src\<rparr>"
| "assign COL_owner_seq src row = row\<lparr>er_OwnerSeq := er_OwnerSeq src\<rparr>"
| "assign COL_writer_id src row = row\<lparr>er_WriterID := er_WriterID src\<rparr>"
| "assign COL_updated_at src row = row\<lparr>er_UpdatedAt := er_UpdatedAt src\<rparr>"

text \<open>The columns of \<open>upsertClause\<close>, in the order the source writes them.\<close>

definition upsertColumns :: "column list" where
  "upsertColumns = [COL_key, COL_encoded_entry, COL_ttl, COL_timestamp, COL_tombstone,
     COL_generation, COL_epoch, COL_owner_seq, COL_writer_id, COL_updated_at]"

text \<open>The assignment of one column: the condition and the value of the \<^verbatim>\<open>ELSE\<close> branch are read
  from \<open>seen\<close>, the row as the expression sees it.\<close>

definition case_assign :: "(string \<Rightarrow> string \<Rightarrow> bool) \<Rightarrow> EntryRecord \<Rightarrow> EntryRecord \<Rightarrow> column \<Rightarrow>
    EntryRecord \<Rightarrow> EntryRecord" where
  "case_assign gt new seen c row = assign c (if newer gt new seen then new else seen) row"

datatype evaluation = Simultaneous | LeftToRight "column list"

fun upsertClause :: "evaluation \<Rightarrow> (string \<Rightarrow> string \<Rightarrow> bool) \<Rightarrow> EntryRecord \<Rightarrow> EntryRecord \<Rightarrow> EntryRecord" where
  "upsertClause Simultaneous gt new row = fold (case_assign gt new row) upsertColumns row"
| "upsertClause (LeftToRight cols) gt new row = fold (\<lambda>c r. case_assign gt new r c r) cols row"

section \<open>The backend\<close>

type_synonym row_key = "string \<times> u64"
type_synonym table = "(row_key \<times> EntryRecord) list"

datatype backend_error = ErrNotFound | ErrDatabase string

abbreviation record_key :: "EntryRecord \<Rightarrow> row_key" where
  "record_key r \<equiv> (er_DMap r, er_HKey r)"

definition upsert_row :: "evaluation \<Rightarrow> (string \<Rightarrow> string \<Rightarrow> bool) \<Rightarrow> EntryRecord \<Rightarrow> table \<Rightarrow> table" where
  "upsert_row ev gt r t =
     (case map_of t (record_key r) of
        None \<Rightarrow> AList.update (record_key r) r t
      | Some row \<Rightarrow> AList.update (record_key r) (upsertClause ev gt r row) t)"

text \<open>\<open>CreateInBatches\<close> runs in one transaction: \<open>dbErr\<close> is its error, and then the table is
  unchanged.\<close>

definition UpsertEntries :: "evaluation \<Rightarrow> (string \<Rightarrow> string \<Rightarrow> bool) \<Rightarrow> string option \<Rightarrow> table \<Rightarrow>
    EntryRecord list \<Rightarrow> backend_error option \<times> table" where
  "UpsertEntries ev gt dbErr t records =
     (if records = [] then (None, t)
      else case dbErr of
        Some e \<Rightarrow> (Some (ErrDatabase e), t)
      | None \<Rightarrow> (None, fold (upsert_row ev gt) records t))"

definition LoadFromMySQL :: "string option \<Rightarrow> table \<Rightarrow> EntryRef \<Rightarrow> time \<Rightarrow> backend_error + EntryRecord" where
  "LoadFromMySQL dbErr t ref now =
     (case dbErr of
        Some e \<Rightarrow> Inl (ErrDatabase e)
      | None \<Rightarrow>
          (case map_of t (ref_DMap ref, ref_HKey ref) of
             None \<Rightarrow> Inl ErrNotFound
           | Some rec \<Rightarrow>
               if er_Tombstone rec then Inl ErrNotFound
               else if recordExpiredAt rec now then Inl ErrNotFound
               else Inr rec))"

definition PurgeBelowGeneration :: "string option \<Rightarrow> table \<Rightarrow> int64 \<Rightarrow> (backend_error + nat) \<times> table" where
  "PurgeBelowGeneration dbErr t minGeneration =
     (if minGeneration \<le> 0 then (Inr 0, t)
      else case dbErr of
        Some e \<Rightarrow> (Inl (ErrDatabase e), t)
      | None \<Rightarrow>
          (Inr (length (filter (\<lambda>(_, r). er_Generation r < minGeneration) t)),
           filter (\<lambda>(_, r). \<not> er_Generation r < minGeneration) t))"

section \<open>Evaluation on the row as it was\<close>

lemma upsertClause_simultaneous:
  "upsertClause Simultaneous gt new row =
     (if newer gt new row then new\<lparr>er_DMap := er_DMap row, er_HKey := er_HKey row\<rparr> else row)"
  by (cases "newer gt new row")
    (simp_all add: upsertColumns_def case_assign_def EntryRecord.equality)

declare upsertClause.simps [simp del]

text \<open>A collation is a strict linear order of the writer ids.\<close>

definition strict_order :: "(string \<Rightarrow> string \<Rightarrow> bool) \<Rightarrow> bool" where
  "strict_order gt \<longleftrightarrow> (\<forall>a. \<not> gt a a) \<and> (\<forall>a b c. gt a b \<longrightarrow> gt b c \<longrightarrow> gt a c)"

definition rec_fence :: "EntryRecord \<Rightarrow> int64 \<times> int64 \<times> int64" where
  "rec_fence r = (er_Generation r, er_Epoch r, er_OwnerSeq r)"

lemma newer_iff:
  "newer gt a b \<longleftrightarrow> fence_less (rec_fence b) (rec_fence a) \<or>
     (rec_fence a = rec_fence b \<and> gt (er_WriterID a) (er_WriterID b))"
  by (auto simp: newer_def fence_less_def rec_fence_def)

lemma newer_irrefl: "strict_order gt \<Longrightarrow> \<not> newer gt r r"
  by (simp add: newer_iff strict_order_def)

lemma newer_trans:
  assumes "strict_order gt" "newer gt a b" "newer gt b c"
  shows "newer gt a c"
  using assms unfolding newer_iff strict_order_def by (metis fence_less_trans)

definition fence_le :: "int64 \<times> int64 \<times> int64 \<Rightarrow> int64 \<times> int64 \<times> int64 \<Rightarrow> bool" where
  "fence_le a b \<longleftrightarrow> a = b \<or> fence_less a b"

lemma fence_le_refl [simp]: "fence_le a a"
  by (simp add: fence_le_def)

lemma fence_le_trans [trans]: "fence_le a b \<Longrightarrow> fence_le b c \<Longrightarrow> fence_le a c"
  by (auto simp: fence_le_def intro: fence_less_trans)

lemma fence_linear: "fence_less a b \<or> a = b \<or> fence_less b a"
  by (auto simp: fence_less_def split: prod.splits)

lemma newer_fence_le: "newer gt a b \<Longrightarrow> fence_le (rec_fence b) (rec_fence a)"
  by (auto simp: newer_iff fence_le_def)

lemma not_newer_fence_le: "\<not> newer gt a b \<Longrightarrow> fence_le (rec_fence a) (rec_fence b)"
  using fence_linear [of "rec_fence a" "rec_fence b"] by (auto simp: newer_iff fence_le_def)

text \<open>The abstract register: a record takes the place of the current one when it is newer.\<close>

definition reg_write :: "(string \<Rightarrow> string \<Rightarrow> bool) \<Rightarrow> EntryRecord \<Rightarrow> EntryRecord option \<Rightarrow> EntryRecord option" where
  "reg_write gt r cur = (case cur of None \<Rightarrow> Some r | Some x \<Rightarrow> if newer gt r x then Some r else Some x)"

lemma reg_write_simps [simp]:
  "reg_write gt r None = Some r"
  "reg_write gt r (Some x) = (if newer gt r x then Some r else Some x)"
  by (simp_all add: reg_write_def)

definition keyed :: "table \<Rightarrow> bool" where
  "keyed t \<longleftrightarrow> gomap t \<and> (\<forall>(k, r) \<in> set t. record_key r = k)"

lemma keyed_iff: "keyed t \<longleftrightarrow> gomap t \<and> (\<forall>k r. map_of t k = Some r \<longrightarrow> record_key r = k)"
  unfolding keyed_def using gomap_in [of t] by fastforce
lemma keyed_get: "keyed t \<Longrightarrow> map_of t k = Some r \<Longrightarrow> record_key r = k"
  by (auto simp: keyed_def dest: map_of_SomeD)

lemma keyed_update: "keyed t \<Longrightarrow> record_key r = k \<Longrightarrow> keyed (AList.update k r t)"
  by (auto simp: keyed_iff update_conv' split: if_splits)

lemma upsert_row_simultaneous:
  assumes "keyed t"
  shows "keyed (upsert_row Simultaneous gt r t)"
    and "map_of (upsert_row Simultaneous gt r t) k =
      (if k = record_key r then reg_write gt r (map_of t k) else map_of t k)"
proof -
  have eq: "upsertClause Simultaneous gt r row = (if newer gt r row then r else row) \<and> record_key row = record_key r"
    if "map_of t (record_key r) = Some row" for row
    using keyed_get [OF assms that] by (cases r) (simp add: upsertClause_simultaneous)
  have upd: "upsert_row Simultaneous gt r t =
      AList.update (record_key r) (the (reg_write gt r (map_of t (record_key r)))) t"
    using eq by (cases "map_of t (record_key r)") (simp_all add: upsert_row_def)
  have "record_key (the (reg_write gt r (map_of t (record_key r)))) = record_key r"
    using eq by (cases "map_of t (record_key r)") simp_all
  then show "keyed (upsert_row Simultaneous gt r t)"
    unfolding upd by (rule keyed_update [OF assms])
  show "map_of (upsert_row Simultaneous gt r t) k =
      (if k = record_key r then reg_write gt r (map_of t k) else map_of t k)"
    unfolding upd by (cases "map_of t (record_key r)") (simp_all add: update_conv')
qed

lemma upsert_rows_simultaneous:
  "keyed t \<Longrightarrow> keyed (fold (upsert_row Simultaneous gt) rs t) \<and>
    map_of (fold (upsert_row Simultaneous gt) rs t) k =
      fold (reg_write gt) (filter (\<lambda>r. record_key r = k) rs) (map_of t k)"
  by (induction rs arbitrary: t) (simp_all add: upsert_row_simultaneous)

lemma reg_fold_max:
  assumes "strict_order gt"
  shows "case fold (reg_write gt) rs cur of
     None \<Rightarrow> rs = [] \<and> cur = None
   | Some x \<Rightarrow> (x \<in> set rs \<or> cur = Some x) \<and> (\<forall>y. y \<in> set rs \<or> cur = Some y \<longrightarrow> \<not> newer gt y x)"
proof (induction rs rule: rev_induct)
  case Nil
  then show ?case using newer_irrefl [OF assms] by (simp split: option.split)
next
  case (snoc r rs)
  show ?case
  proof (cases "fold (reg_write gt) rs cur")
    case None
    with snoc have "rs = []" "cur = None" by simp_all
    with newer_irrefl [OF assms] show ?thesis by simp
  next
    case (Some x)
    with snoc have x: "x \<in> set rs \<or> cur = Some x"
      "\<And>y. y \<in> set rs \<or> cur = Some y \<Longrightarrow> \<not> newer gt y x" by auto
    show ?thesis
    proof (cases "newer gt r x")
      case True
      have "\<not> newer gt y r" if "y \<in> set rs \<or> cur = Some y" for y
        using x(2) [OF that] newer_trans [OF assms _ True] by blast
      with True Some newer_irrefl [OF assms] show ?thesis by auto
    next
      case False
      with Some x show ?thesis by auto
    qed
  qed
qed

section \<open>The backend interface\<close>

text \<open>What the sidecar relies on when an upsert returns no error: every record of the batch is
  covered by a row of its key with the same or a higher fence, rows never go back to a lower
  fence, and a failed upsert changes nothing.\<close>

definition covered :: "('db \<Rightarrow> row_key \<Rightarrow> EntryRecord option) \<Rightarrow> 'db \<Rightarrow> EntryRecord \<Rightarrow> bool" where
  "covered row db r \<longleftrightarrow> (\<exists>x. row db (record_key r) = Some x \<and> fence_le (rec_fence r) (rec_fence x))"

locale durable_backend =
  fixes upsert :: "'db \<Rightarrow> EntryRecord list \<Rightarrow> backend_error option \<times> 'db"
    and row :: "'db \<Rightarrow> row_key \<Rightarrow> EntryRecord option"
    and ok :: "'db \<Rightarrow> bool"
  assumes upsert_ok: "ok db \<Longrightarrow> ok (snd (upsert db rs))"
    and upsert_covers: "ok db \<Longrightarrow> upsert db rs = (None, db') \<Longrightarrow> r \<in> set rs \<Longrightarrow>
      \<exists>x. row db' (record_key r) = Some x \<and> fence_le (rec_fence r) (rec_fence x)"
    and upsert_keeps: "ok db \<Longrightarrow> row db k = Some x \<Longrightarrow>
      \<exists>y. row (snd (upsert db rs)) k = Some y \<and> fence_le (rec_fence x) (rec_fence y)"
    and upsert_fails: "upsert db rs = (Some e, db') \<Longrightarrow> db' = db"
begin

lemma covered_upsert: "ok db \<Longrightarrow> upsert db rs = (None, db') \<Longrightarrow> r \<in> set rs \<Longrightarrow> covered row db' r"
  using upsert_covers by (auto simp: covered_def)

lemma covered_mono: "ok db \<Longrightarrow> covered row db r \<Longrightarrow> covered row (snd (upsert db rs)) r"
  unfolding covered_def using upsert_keeps fence_le_trans by blast

end

lemma reg_write_covers:
  "\<exists>x. reg_write gt r cur = Some x \<and> fence_le (rec_fence r) (rec_fence x)"
  by (cases cur) (auto simp: newer_fence_le not_newer_fence_le)

lemma reg_write_keeps:
  "cur = Some x \<Longrightarrow> \<exists>y. reg_write gt r cur = Some y \<and> fence_le (rec_fence x) (rec_fence y)"
  by (auto simp: newer_fence_le)

lemma reg_fold_keeps:
  "cur = Some x \<Longrightarrow> \<exists>y. fold (reg_write gt) rs cur = Some y \<and> fence_le (rec_fence x) (rec_fence y)"
proof (induction rs arbitrary: cur x)
  case (Cons r rs)
  from reg_write_keeps [OF Cons.prems] obtain y where
    "reg_write gt r cur = Some y" "fence_le (rec_fence x) (rec_fence y)" by blast
  with Cons.IH [OF this(1)] fence_le_trans show ?case by fastforce
qed simp

lemma reg_fold_covers:
  "r \<in> set rs \<Longrightarrow> \<exists>x. fold (reg_write gt) rs cur = Some x \<and> fence_le (rec_fence r) (rec_fence x)"
proof (induction rs arbitrary: cur)
  case (Cons a rs)
  show ?case
  proof (cases "r \<in> set rs")
    case False
    with Cons.prems have "a = r" by simp
    with reg_write_covers [of gt a cur] obtain x where
      x: "reg_write gt a cur = Some x" "fence_le (rec_fence r) (rec_fence x)" by blast
    with reg_fold_keeps [OF x(1)] fence_le_trans show ?thesis by fastforce
  qed (use Cons.IH in simp)
qed simp

interpretation mb: durable_backend "UpsertEntries Simultaneous gt dbErr" map_of keyed
  for gt dbErr
proof
  fix db rs db' r k x e
  show "keyed db \<Longrightarrow> keyed (snd (UpsertEntries Simultaneous gt dbErr db rs))"
    by (simp add: UpsertEntries_def upsert_rows_simultaneous split: option.split)
  show "\<exists>x. map_of db' (record_key r) = Some x \<and> fence_le (rec_fence r) (rec_fence x)"
    if "keyed db" "UpsertEntries Simultaneous gt dbErr db rs = (None, db')" "r \<in> set rs"
  proof -
    from that have db': "db' = fold (upsert_row Simultaneous gt) rs db"
      by (auto simp: UpsertEntries_def split: if_splits option.splits)
    have "r \<in> set (filter (\<lambda>x. record_key x = record_key r) rs)" using that(3) by simp
    from reg_fold_covers [OF this] show ?thesis
      by (simp only: db' upsert_rows_simultaneous [OF that(1), THEN conjunct2])
  qed
  show "\<exists>y. map_of (snd (UpsertEntries Simultaneous gt dbErr db rs)) k = Some y \<and>
      fence_le (rec_fence x) (rec_fence y)" if "keyed db" "map_of db k = Some x"
    using reg_fold_keeps [OF that(2)] that
    by (simp add: UpsertEntries_def upsert_rows_simultaneous split: option.split)
  show "UpsertEntries Simultaneous gt dbErr db rs = (Some e, db') \<Longrightarrow> db' = db"
    by (auto simp: UpsertEntries_def split: if_splits option.splits)
qed

lemma UpsertEntries_simultaneous:
  assumes "keyed t" "UpsertEntries Simultaneous gt dbErr t rs = (None, t')"
  shows "map_of t' k = fold (reg_write gt) (filter (\<lambda>r. record_key r = k) rs) (map_of t k)"
proof -
  from assms(2) have "t' = fold (upsert_row Simultaneous gt) rs t"
    by (auto simp: UpsertEntries_def split: if_splits option.splits)
  then show ?thesis using upsert_rows_simultaneous [OF assms(1)] by simp
qed

text \<open>The fence and the writer tell two records apart, and the collation any two writers.\<close>

definition unambiguous :: "(string \<Rightarrow> string \<Rightarrow> bool) \<Rightarrow> EntryRecord set \<Rightarrow> bool" where
  "unambiguous gt R \<longleftrightarrow> (\<forall>a \<in> R. \<forall>b \<in> R. a \<noteq> b \<longrightarrow> newer gt a b \<or> newer gt b a)"

lemma reg_fold_order:
  assumes "strict_order gt" "set rs = set rs'" "unambiguous gt (set rs \<union> set_option cur)"
  shows "fold (reg_write gt) rs cur = fold (reg_write gt) rs' cur"
proof (cases "fold (reg_write gt) rs cur")
  case None
  with reg_fold_max [OF assms(1), of rs cur] assms(2) show ?thesis by simp
next
  case (Some x)
  note x = reg_fold_max [OF assms(1), of rs cur, unfolded Some option.case]
  show ?thesis
  proof (cases "fold (reg_write gt) rs' cur")
    case None
    with reg_fold_max [OF assms(1), of rs' cur] x assms(2) show ?thesis by auto
  next
    case y: (Some y)
    note y' = reg_fold_max [OF assms(1), of rs' cur, unfolded y option.case]
    from x y' have "x \<in> set rs \<union> set_option cur" "y \<in> set rs \<union> set_option cur"
      "\<not> newer gt x y" "\<not> newer gt y x"
      using assms(2) by auto
    with assms(3) Some y show ?thesis by (auto simp: unambiguous_def)
  qed
qed

section \<open>Properties\<close>


definition demo_record :: "int64 \<Rightarrow> int64 \<Rightarrow> bool \<Rightarrow> string \<Rightarrow> EntryRecord" where
  "demo_record g s deleted w = \<lparr>er_DMap = ''d'', er_Key = ''k'', er_HKey = 3,
     er_EncodedEntry = (if deleted then [] else [1]), er_TTL = 0, er_Timestamp = s,
     er_Tombstone = deleted, er_Generation = g, er_Epoch = 0, er_OwnerSeq = s, er_WriterID = w,
     er_UpdatedAt = s\<rparr>"

text \<open>An instance of the collation: the length order.\<close>

definition demo_gt :: "string \<Rightarrow> string \<Rightarrow> bool" where
  "demo_gt a b \<longleftrightarrow> length b < length a"

lemma demo_gt_order: "strict_order demo_gt"
  by (simp add: strict_order_def demo_gt_def)

lemmas demo_row_defs = demo_record_def demo_gt_def UpsertEntries_def upsert_row_def newer_def
  upsertClause.simps upsertColumns_def case_assign_def




text \<open>The assignments sorted by column name.\<close>

definition alphabetical :: "column list" where
  "alphabetical = [COL_encoded_entry, COL_epoch, COL_generation, COL_key, COL_owner_seq,
     COL_timestamp, COL_tombstone, COL_ttl, COL_updated_at, COL_writer_id]"

lemma upsertClause_alphabetical:
  assumes "er_Generation new = er_Generation old" "er_Epoch new = er_Epoch old"
    "er_OwnerSeq old < er_OwnerSeq new" "\<not> gt (er_WriterID new) (er_WriterID old)"
  shows "upsertClause (LeftToRight alphabetical) gt new old =
     old\<lparr>er_EncodedEntry := er_EncodedEntry new, er_Key := er_Key new, er_OwnerSeq := er_OwnerSeq new\<rparr>"
  using assms
  by (simp add: upsertClause.simps alphabetical_def case_assign_def newer_def EntryRecord.equality)



end
