(* ===== verification/Sidecar_Server.thy ===== *)
theory Sidecar_Server
  imports Oplog_Ring Mysql_Backend
begin

text \<open>
  The sidecar (\<^verbatim>\<open>internal/sidecar/control.go\<close>): the set of pending entries, the consumer that
  moves the ring into it and flushes it into the database, and the control calls.  The backend is
  an argument, as in the source; what the other goroutines (the control calls and the producer) do
  to the server while a flush is in the database is an argument as well.  The main results: the
  accounting of the pending set, that a final drain empties the ring with every entry covered by
  a row, what a partition drain guarantees, and the race between a flush and a new fence.
\<close>

section \<open>The pending set\<close>

record pending =
  p_bytes :: u64
  p_entries :: "(EntryRef \<times> oplog_Entry) list"

definition newPending :: pending where
  "newPending = \<lparr>p_bytes = 0, p_entries = []\<rparr>"

definition pendingEntryBytes :: "oplog_Entry \<Rightarrow> u64" where
  "pendingEntryBytes e = of_nat (length (oe_DMap e) + length (oe_Key e) + length (oe_WriterID e) +
     length (oe_EncodedEntry e) + 64)"

definition pending_put :: "pending \<Rightarrow> oplog_Entry \<Rightarrow> pending" where
  "pending_put p e =
     (let ref = \<lparr>ref_DMap = oe_DMap e, ref_Key = oe_Key e, ref_HKey = oe_HKey e\<rparr>;
          p = (case map_of (p_entries p) ref of
                 Some existing \<Rightarrow> p\<lparr>p_bytes := p_bytes p - pendingEntryBytes existing\<rparr>
               | None \<Rightarrow> p)
      in p\<lparr>p_entries := AList.update ref e (p_entries p), p_bytes := p_bytes p + pendingEntryBytes e\<rparr>)"

definition pending_snapshot :: "pending \<Rightarrow> oplog_Entry list" where
  "pending_snapshot p = map snd (p_entries p)"

definition pending_drop :: "pending \<Rightarrow> EntryRef \<Rightarrow> int64 \<Rightarrow> pending" where
  "pending_drop p ref ownerSeq =
     (case map_of (p_entries p) ref of
        Some e \<Rightarrow> if oe_OwnerSeq e \<le> ownerSeq
          then p\<lparr>p_entries := AList.delete ref (p_entries p), p_bytes := p_bytes p - pendingEntryBytes e\<rparr>
          else p
      | None \<Rightarrow> p)"

definition pending_get :: "pending \<Rightarrow> EntryRef \<Rightarrow> oplog_Entry option" where
  "pending_get p ref = map_of (p_entries p) ref"

definition purge_one :: "int64 \<Rightarrow> EntryRef \<times> oplog_Entry \<Rightarrow> pending \<times> nat \<Rightarrow> pending \<times> nat" where
  "purge_one generation x s =
     (case x of (ref, e) \<Rightarrow> case s of (p, dropped) \<Rightarrow>
      if oe_Generation e < generation
      then (p\<lparr>p_entries := AList.delete ref (p_entries p), p_bytes := p_bytes p - pendingEntryBytes e\<rparr>,
            dropped + 1)
      else (p, dropped))"

definition purgeBelow :: "pending \<Rightarrow> int64 \<Rightarrow> pending \<times> nat" where
  "purgeBelow p generation = fold (purge_one generation) (p_entries p) (p, 0)"

definition pending_drainPartition :: "pending \<Rightarrow> string \<Rightarrow> u64 \<Rightarrow> u64 \<Rightarrow> oplog_Entry list" where
  "pending_drainPartition p dmap partitionID partitionCount =
     filter (\<lambda>e. oe_DMap e = dmap \<and> oe_HKey e mod partitionCount = partitionID) (map snd (p_entries p))"

definition pending_size :: "pending \<Rightarrow> nat \<times> u64" where
  "pending_size p = (length (p_entries p), p_bytes p)"

section \<open>The server\<close>

record sidecar_Config =
  cfg_BatchSize :: int
  cfg_IdlePoll :: duration
  cfg_FlushTimeout :: duration
  cfg_MaxPendingRecords :: int
  cfg_MaxPendingBytes :: u64

record Server =
  s_consumer :: mapping
  s_pending :: pending
  s_wake :: bool
  s_batchSize :: int
  s_idlePoll :: duration
  s_flushTimeout :: duration
  s_maxPendingRecords :: int
  s_maxPendingBytes :: u64

datatype sidecar_error =
    ErrNilConsumer | ErrNilBackend
  | ErrRingPop ring_error | ErrOplogDecode oplog_error
  | ErrFlush backend_error | ErrBackend backend_error
  | ErrNilRequest | ErrZeroPartitions | ErrPartitionRange u64 u64

definition cfg_withDefaults :: "sidecar_Config \<Rightarrow> sidecar_Config" where
  "cfg_withDefaults c =
     (let c = (if cfg_BatchSize c \<le> 0 then c\<lparr>cfg_BatchSize := 256\<rparr> else c);
          c = (if cfg_IdlePoll c \<le> 0 then c\<lparr>cfg_IdlePoll := 200 * millisecond\<rparr> else c)
      in if cfg_FlushTimeout c \<le> 0 then c\<lparr>cfg_FlushTimeout := 30 * second\<rparr> else c)"

definition NewServer :: "mapping option \<Rightarrow> bool \<Rightarrow> sidecar_Config \<Rightarrow> sidecar_error + Server" where
  "NewServer consumer backend cfg =
     (case consumer of
        None \<Rightarrow> Inl ErrNilConsumer
      | Some m \<Rightarrow>
          if \<not> backend then Inl ErrNilBackend
          else let cfg = cfg_withDefaults cfg in
            Inr \<lparr>s_consumer = m, s_pending = newPending, s_wake = False,
                 s_batchSize = cfg_BatchSize cfg, s_idlePoll = cfg_IdlePoll cfg,
                 s_flushTimeout = cfg_FlushTimeout cfg,
                 s_maxPendingRecords = cfg_MaxPendingRecords cfg,
                 s_maxPendingBytes = cfg_MaxPendingBytes cfg\<rparr>)"

definition pendingFull :: "Server \<Rightarrow> bool" where
  "pendingFull s =
     (case pending_size (s_pending s) of (records, bytes) \<Rightarrow>
      if s_maxPendingRecords s > 0 \<and> int records \<ge> s_maxPendingRecords s then True
      else if s_maxPendingBytes s > 0 \<and> bytes \<ge> s_maxPendingBytes s then True
      else False)"

definition pendingLen :: "Server \<Rightarrow> nat" where
  "pendingLen s = fst (pending_size (s_pending s))"

text \<open>The loop of \<open>drainRing\<close>: its first argument is how many more entries the batch may take (the
  source counts up to the batch size and returns as soon as it is reached).  \<open>None\<close> would be a
  \<open>Pop\<close> that does not return.\<close>

fun drain_loop :: "(byte list \<Rightarrow> string + oplog_Entry) \<Rightarrow> nat \<Rightarrow> Server \<Rightarrow> nat \<Rightarrow>
    (nat \<times> sidecar_error option \<times> Server) option" where
  "drain_loop unmarshal 0 s count = Some (count, None, s)"
| "drain_loop unmarshal (Suc k) s count =
     (if pendingFull s then Some (count, None, s)
      else case Pop (s_consumer s) of
        None \<Rightarrow> None
      | Some (PopErr err, m) \<Rightarrow> Some (count, Some (ErrRingPop err), s\<lparr>s_consumer := m\<rparr>)
      | Some (PopEmpty, m) \<Rightarrow> Some (count, None, s\<lparr>s_consumer := m\<rparr>)
      | Some (PopEntry payload, m) \<Rightarrow>
          (case Decode unmarshal payload of
             Inl err \<Rightarrow> Some (count, Some (ErrOplogDecode err), s\<lparr>s_consumer := m\<rparr>)
           | Inr entry \<Rightarrow>
               drain_loop unmarshal k
                 (s\<lparr>s_consumer := m, s_pending := pending_put (s_pending s) entry\<rparr>) (count + 1)))"

definition drainRing :: "(byte list \<Rightarrow> string + oplog_Entry) \<Rightarrow> Server \<Rightarrow>
    (nat \<times> sidecar_error option \<times> Server) option" where
  "drainRing unmarshal s = drain_loop unmarshal (nat (max 1 (s_batchSize s))) s 0"

definition drop_flushed :: "oplog_Entry list \<Rightarrow> pending \<Rightarrow> pending" where
  "drop_flushed es p = fold (\<lambda>e p. pending_drop p (entry_ref e) (oe_OwnerSeq e)) es p"

text \<open>\<open>mid\<close> is what the other goroutines do to the server while the upsert is running.\<close>

definition flushOnce :: "('db \<Rightarrow> EntryRecord list \<Rightarrow> backend_error option \<times> 'db) \<Rightarrow> (Server \<Rightarrow> Server) \<Rightarrow>
    Server \<Rightarrow> 'db \<Rightarrow> sidecar_error option \<times> Server \<times> 'db" where
  "flushOnce upsert mid s db =
     (let es = pending_snapshot (s_pending s) in
      if es = [] then (None, s, db)
      else case upsert db (map recordFromEntry es) of
        (Some err, db) \<Rightarrow> (Some (ErrFlush err), mid s, db)
      | (None, db) \<Rightarrow>
          (let s = mid s in (None, s\<lparr>s_pending := drop_flushed es (s_pending s)\<rparr>, db)))"

text \<open>\<open>env k\<close> is what happens to the server before the \<open>k\<close>-th round of a loop, \<open>mid k\<close> during its
  upsert.\<close>

partial_function (option) finalDrain :: "(byte list \<Rightarrow> string + oplog_Entry) \<Rightarrow>
    ('db \<Rightarrow> EntryRecord list \<Rightarrow> backend_error option \<times> 'db) \<Rightarrow> (nat \<Rightarrow> Server \<Rightarrow> Server) \<Rightarrow>
    (nat \<Rightarrow> Server \<Rightarrow> Server) \<Rightarrow> nat \<Rightarrow> Server \<Rightarrow> 'db \<Rightarrow> (Server \<times> 'db) option" where
  "finalDrain unmarshal upsert env mid k s db =
     Option.bind (drainRing unmarshal (env k s)) (\<lambda>(drained, err, s).
     case err of
       Some _ \<Rightarrow> Some (s, db)
     | None \<Rightarrow>
         (case flushOnce upsert (mid k) s db of
            (Some _, s, db) \<Rightarrow> Some (s, db)
          | (None, s, db) \<Rightarrow>
              if drained = 0 then Some (s, db)
              else finalDrain unmarshal upsert env mid (Suc k) s db))"

datatype run_event = EvDone | EvWake | EvTimer

datatype run_result = StillRunning | RunFailed sidecar_error | RunCancelled

text \<open>One round of \<open>Run\<close>: drain, flush when there is something, then wait for the event.\<close>

definition run_round :: "(byte list \<Rightarrow> string + oplog_Entry) \<Rightarrow>
    ('db \<Rightarrow> EntryRecord list \<Rightarrow> backend_error option \<times> 'db) \<Rightarrow> (Server \<Rightarrow> Server) \<Rightarrow>
    Server \<Rightarrow> 'db \<Rightarrow> (sidecar_error option \<times> Server \<times> 'db) option" where
  "run_round unmarshal upsert mid s db =
     Option.bind (drainRing unmarshal s) (\<lambda>(drained, err, s).
     case err of
       Some err \<Rightarrow> Some (Some err, s, db)
     | None \<Rightarrow>
         if drained > 0 \<or> pendingLen s > 0 then Some (flushOnce upsert mid s db)
         else Some (None, s, db))"

fun Server_Run :: "(byte list \<Rightarrow> string + oplog_Entry) \<Rightarrow>
    ((Server \<Rightarrow> Server) \<times> ('db \<Rightarrow> EntryRecord list \<Rightarrow> backend_error option \<times> 'db) \<times>
     (Server \<Rightarrow> Server) \<times> run_event) list \<Rightarrow> Server \<Rightarrow> 'db \<Rightarrow> (run_result \<times> Server \<times> 'db) option" where
  "Server_Run unmarshal [] s db = Some (StillRunning, s, db)"
| "Server_Run unmarshal ((before, upsert, mid, ev) # rounds) s db =
     Option.bind (run_round unmarshal upsert mid (before s) db) (\<lambda>(err, s, db).
     case err of
       Some err \<Rightarrow> Some (RunFailed err, s, db)
     | None \<Rightarrow>
         (case ev of
            EvDone \<Rightarrow> map_option (\<lambda>(s, db). (RunCancelled, s, db))
                        (finalDrain unmarshal upsert (\<lambda>_ s. s) (\<lambda>_ s. s) 0 s db)
          | EvWake \<Rightarrow> Server_Run unmarshal rounds (s\<lparr>s_wake := False\<rparr>) db
          | EvTimer \<Rightarrow> Server_Run unmarshal rounds s db))"

section \<open>The control calls\<close>

definition wake :: "Server \<Rightarrow> Server" where
  "wake s = s\<lparr>s_wake := True\<rparr>"

definition Notify :: "Server \<Rightarrow> Server" where
  "Notify s = wake s"

record LoadResponse =
  lr_Found :: bool
  lr_Record :: "EntryRecord option"

text \<open>\<open>load\<close> is the backend's lookup and \<open>now\<close> the clock at the expiry test.\<close>

definition Server_LoadFromMySQL :: "(EntryRef \<Rightarrow> backend_error + EntryRecord) \<Rightarrow> Server \<Rightarrow>
    EntryRef option \<Rightarrow> time \<Rightarrow> sidecar_error + LoadResponse" where
  "Server_LoadFromMySQL load s req now =
     (case req of
        None \<Rightarrow> Inl ErrNilRequest
      | Some ref \<Rightarrow>
          (case pending_get (s_pending s) ref of
             Some e \<Rightarrow>
               (let rec = recordFromEntry e in
                if er_Tombstone rec \<or> recordExpiredAt rec now
                then Inr \<lparr>lr_Found = False, lr_Record = None\<rparr>
                else Inr \<lparr>lr_Found = True, lr_Record = Some rec\<rparr>)
           | None \<Rightarrow>
               (case load ref of
                  Inl err \<Rightarrow>
                    if err = ErrNotFound then Inr \<lparr>lr_Found = False, lr_Record = None\<rparr>
                    else Inl (ErrBackend err)
                | Inr rec \<Rightarrow>
                    if er_Tombstone rec \<or> recordExpiredAt rec now
                    then Inr \<lparr>lr_Found = False, lr_Record = None\<rparr>
                    else Inr \<lparr>lr_Found = True, lr_Record = Some rec\<rparr>)))"

record DrainPartitionRequest =
  dr_DMap :: string
  dr_PartitionID :: u64
  dr_PartitionCount :: u64

definition DrainPartition :: "(byte list \<Rightarrow> string + oplog_Entry) \<Rightarrow>
    ('db \<Rightarrow> EntryRecord list \<Rightarrow> backend_error option \<times> 'db) \<Rightarrow> (Server \<Rightarrow> Server) \<Rightarrow> Server \<Rightarrow>
    DrainPartitionRequest option \<Rightarrow> 'db \<Rightarrow> (sidecar_error option \<times> Server \<times> 'db) option" where
  "DrainPartition unmarshal upsert mid s req db =
     (case req of
        None \<Rightarrow> Some (Some ErrNilRequest, s, db)
      | Some req \<Rightarrow>
          if dr_PartitionCount req = 0 then Some (Some ErrZeroPartitions, s, db)
          else if dr_PartitionID req \<ge> dr_PartitionCount req
            then Some (Some (ErrPartitionRange (dr_PartitionID req) (dr_PartitionCount req)), s, db)
          else Option.bind (drainRing unmarshal s) (\<lambda>(_, err, s).
            case err of
              Some err \<Rightarrow> Some (Some err, s, db)
            | None \<Rightarrow>
                (let subset = pending_drainPartition (s_pending s) (dr_DMap req)
                                (dr_PartitionID req) (dr_PartitionCount req) in
                 if subset = [] then Some (None, s, db)
                 else case upsert db (map recordFromEntry subset) of
                   (Some err, db) \<Rightarrow> Some (Some (ErrFlush err), mid s, db)
                 | (None, db) \<Rightarrow>
                     (let s = mid s in
                      Some (None, s\<lparr>s_pending := drop_flushed subset (s_pending s)\<rparr>, db)))))"

definition Server_PurgeBelowGeneration :: "('db \<Rightarrow> int64 \<Rightarrow> (backend_error + nat) \<times> 'db) \<Rightarrow> Server \<Rightarrow>
    int64 option \<Rightarrow> 'db \<Rightarrow> (sidecar_error + nat) \<times> Server \<times> 'db" where
  "Server_PurgeBelowGeneration purge s req db =
     (case req of
        None \<Rightarrow> (Inl ErrNilRequest, s, db)
      | Some minGeneration \<Rightarrow>
          if minGeneration \<le> 0 then (Inr 0, s, db)
          else case purgeBelow (s_pending s) minGeneration of (p, dropped) \<Rightarrow>
            let s = s\<lparr>s_pending := p\<rparr> in
            (case purge db minGeneration of
               (Inl err, db) \<Rightarrow> (Inl (ErrBackend err), s, db)
             | (Inr purged, db) \<Rightarrow> (Inr (dropped + purged), s, db)))"

definition Shutdown :: "('db \<Rightarrow> EntryRecord list \<Rightarrow> backend_error option \<times> 'db) \<Rightarrow> (Server \<Rightarrow> Server) \<Rightarrow>
    Server \<Rightarrow> 'db \<Rightarrow> sidecar_error option \<times> Server \<times> 'db" where
  "Shutdown upsert mid s db = flushOnce upsert mid s db"

section \<open>Accounting of the pending set\<close>

definition pending_wf :: "pending \<Rightarrow> bool" where
  "pending_wf p \<longleftrightarrow> gomap (p_entries p) \<and> (\<forall>(ref, e) \<in> set (p_entries p). entry_ref e = ref) \<and>
     p_bytes p = (\<Sum>(_, e) \<leftarrow> p_entries p. pendingEntryBytes e)"

lemma sum_update:
  "(\<Sum>(_, v) \<leftarrow> AList.update k v m. f v) =
     (\<Sum>(_, v) \<leftarrow> m. f v) - (case map_of m k of None \<Rightarrow> 0 | Some old \<Rightarrow> f old) + (f v :: 'a::ab_group_add)"
  by (induction m) (auto split: option.splits)

lemma sum_delete:
  "gomap m \<Longrightarrow> (\<Sum>(_, v) \<leftarrow> AList.delete k m. f v) =
     (\<Sum>(_, v) \<leftarrow> m. f v) - (case map_of m k of None \<Rightarrow> 0 | Some old \<Rightarrow> (f old :: 'a::ab_group_add))"
proof (induction m)
  case (Cons x m)
  obtain a b where x: "x = (a, b)" by (cases x)
  from Cons.prems have m: "gomap m" "a \<notin> fst ` set m" by (auto simp: gomap_def x)
  show ?case
  proof (cases "a = k")
    case True
    with m have "AList.delete k m = m" "map_of m k = None"
      by (auto simp: delete_id map_of_eq_None_iff)
    with True show ?thesis by (simp add: x)
  next
    case False
    with Cons.IH [OF m(1)] show ?thesis by (simp add: x split: option.splits)
  qed
qed simp

lemma pending_wf_iff:
  "pending_wf p \<longleftrightarrow> gomap (p_entries p) \<and> (\<forall>ref e. map_of (p_entries p) ref = Some e \<longrightarrow> entry_ref e = ref) \<and>
     p_bytes p = (\<Sum>(_, e) \<leftarrow> p_entries p. pendingEntryBytes e)"
  unfolding pending_wf_def using gomap_in [of "p_entries p"] by fastforce

lemma pending_put_entries: "p_entries (pending_put p e) = AList.update (entry_ref e) e (p_entries p)"
  by (simp add: pending_put_def entry_ref_def Let_def split: option.split)

lemma pending_put_wf: "pending_wf p \<Longrightarrow> pending_wf (pending_put p e)"
  by (auto simp: pending_wf_iff pending_put_entries sum_update update_conv' split: if_splits option.split)
    (auto simp: pending_put_def entry_ref_def Let_def split: option.splits)

lemma pending_drop_entries:
  "p_entries (pending_drop p ref q) =
     (case map_of (p_entries p) ref of
        Some e \<Rightarrow> if oe_OwnerSeq e \<le> q then AList.delete ref (p_entries p) else p_entries p
      | None \<Rightarrow> p_entries p)"
  by (simp add: pending_drop_def split: option.split)

lemma delete_entry_wf:
  assumes "pending_wf p" "map_of (p_entries p) ref = Some e"
  shows "pending_wf (p\<lparr>p_entries := AList.delete ref (p_entries p), p_bytes := p_bytes p - pendingEntryBytes e\<rparr>)"
  using assms by (auto simp: pending_wf_iff sum_delete delete_conv' split: if_splits)

lemma pending_drop_wf: "pending_wf p \<Longrightarrow> pending_wf (pending_drop p ref q)"
  by (auto simp: pending_drop_def delete_entry_wf split: option.split)

lemma drop_flushed_wf: "pending_wf p \<Longrightarrow> pending_wf (drop_flushed es p)"
  unfolding drop_flushed_def by (induction es arbitrary: p) (simp_all add: pending_drop_wf)

section \<open>Draining the ring\<close>

definition decodes :: "(byte list \<Rightarrow> string + oplog_Entry) \<Rightarrow> byte list list \<Rightarrow> oplog_Entry list \<Rightarrow> bool" where
  "decodes unmarshal ps es \<longleftrightarrow> list_all2 (\<lambda>p e. Decode unmarshal p = Inr e) ps es"

abbreviation put_all :: "oplog_Entry list \<Rightarrow> pending \<Rightarrow> pending" where
  "put_all es p \<equiv> fold (\<lambda>e p. pending_put p e) es p"

lemma put_all_wf: "pending_wf p \<Longrightarrow> pending_wf (put_all es p)"
  by (induction es arbitrary: p) (simp_all add: pending_put_wf)

definition unbounded :: "Server \<Rightarrow> bool" where
  "unbounded s \<longleftrightarrow> s_maxPendingRecords s \<le> 0 \<and> s_maxPendingBytes s = 0"

lemma unbounded_not_full: "unbounded s \<Longrightarrow> \<not> pendingFull s"
  by (simp add: unbounded_def pendingFull_def split: prod.split)

lemma drain_loop_spec:
  assumes "ring_inv (s_consumer s) xs" "decodes unmarshal xs es"
  shows "\<exists>n m. drain_loop unmarshal k s count =
      Some (count + n, None, s\<lparr>s_consumer := m, s_pending := put_all (take n es) (s_pending s)\<rparr>) \<and>
    ring_inv m (drop n xs) \<and> n \<le> k \<and> n \<le> length es \<and>
    (n = 0 \<longrightarrow> k = 0 \<or> pendingFull s \<or> xs = []) \<and> (unbounded s \<longrightarrow> n = min k (length es))"
  using assms
proof (induction k arbitrary: s xs es count)
  case 0
  then show ?case by (intro exI [of _ 0] exI [of _ "s_consumer s"]) simp
next
  case (Suc k)
  show ?case
  proof (cases "pendingFull s")
    case True
    with Suc.prems unbounded_not_full [of s] show ?thesis
      by (intro exI [of _ 0] exI [of _ "s_consumer s"]) auto
  next
    case full: False
    show ?thesis
    proof (cases xs)
      case Nil
      with Suc.prems full Pop_empty [of "s_consumer s"] show ?thesis
        by (intro exI [of _ 0] exI [of _ "s_consumer s"]) (simp add: decodes_def)
    next
      case (Cons p ps)
      with Suc.prems(2) obtain e es' where es: "es = e # es'" "Decode unmarshal p = Inr e"
        "decodes unmarshal ps es'" by (auto simp: decodes_def list_all2_Cons1)
      from Pop_entry Suc.prems(1) Cons obtain m where
        m: "Pop (s_consumer s) = Some (PopEntry p, m)" "ring_inv m ps" by blast
      let ?s = "s\<lparr>s_consumer := m, s_pending := pending_put (s_pending s) e\<rparr>"
      from Suc.IH [of ?s ps es' "count + 1"] m(2) es(3) obtain n m' where
        "drain_loop unmarshal k ?s (count + 1) =
          Some (count + 1 + n, None, ?s\<lparr>s_consumer := m', s_pending := put_all (take n es') (s_pending ?s)\<rparr>)"
        "ring_inv m' (drop n ps)" "n \<le> k" "n \<le> length es'" "unbounded ?s \<longrightarrow> n = min k (length es')"
        by auto
      with full m(1) es show ?thesis
        by - (rule exI [of _ "Suc n"], rule exI [of _ m'], simp add: Cons unbounded_def)
    qed
  qed
qed

lemma drainRing_spec:
  assumes "ring_inv (s_consumer s) xs" "decodes unmarshal xs es"
  obtains n m where "drainRing unmarshal s =
      Some (n, None, s\<lparr>s_consumer := m, s_pending := put_all (take n es) (s_pending s)\<rparr>)"
    "ring_inv m (drop n xs)" "n \<le> length es" "n = 0 \<Longrightarrow> pendingFull s \<or> xs = []"
    "unbounded s \<Longrightarrow> n = min (nat (max 1 (s_batchSize s))) (length es)"
proof -
  let ?k = "nat (max 1 (s_batchSize s))"
  from drain_loop_spec [OF assms, of ?k 0] obtain n m where d: "drain_loop unmarshal ?k s 0 =
      Some (0 + n, None, s\<lparr>s_consumer := m, s_pending := put_all (take n es) (s_pending s)\<rparr>) \<and>
    ring_inv m (drop n xs) \<and> n \<le> ?k \<and> n \<le> length es \<and>
    (n = 0 \<longrightarrow> ?k = 0 \<or> pendingFull s \<or> xs = []) \<and> (unbounded s \<longrightarrow> n = min ?k (length es))"
    by (elim exE)
  have k: "?k \<noteq> 0" by simp
  show thesis
  proof (rule that [of n m])
    show "drainRing unmarshal s =
      Some (n, None, s\<lparr>s_consumer := m, s_pending := put_all (take n es) (s_pending s)\<rparr>)"
      using d by (simp add: drainRing_def)
  qed (use d k in simp_all)
qed

section \<open>Flushing\<close>

lemma drop_flushed_all:
  "pending_wf p \<Longrightarrow> p_entries (drop_flushed (pending_snapshot p) p) = []"
proof (induction "p_entries p" arbitrary: p)
  case Nil
  then show ?case by (simp add: drop_flushed_def pending_snapshot_def)
next
  case (Cons x es)
  obtain ref e where x: "x = (ref, e)" by (cases x)
  have ent: "p_entries p = (ref, e) # es" using Cons.hyps(2) x by simp
  with Cons.prems have ref: "entry_ref e = ref" and new: "ref \<notin> fst ` set es"
    by (auto simp: pending_wf_def gomap_def)
  let ?p = "pending_drop p ref (oe_OwnerSeq e)"
  have es: "p_entries ?p = es" using new by (simp add: pending_drop_entries ent)
  have "p_entries (drop_flushed (pending_snapshot ?p) ?p) = []"
    using Cons.hyps(1) [of ?p] es pending_drop_wf [OF Cons.prems] by simp
  then show ?case by (simp add: drop_flushed_def pending_snapshot_def ent es ref)
qed

lemma pending_empty: "pending_wf p \<Longrightarrow> p_entries p = [] \<Longrightarrow> p = newPending"
  by (simp add: pending_wf_def newPending_def)

lemma drop_flushed_empty: "pending_wf p \<Longrightarrow> drop_flushed (pending_snapshot p) p = newPending"
  using drop_flushed_all drop_flushed_wf pending_empty by blast

lemma newPending_not_full: "s_pending s = newPending \<Longrightarrow> \<not> pendingFull s"
  by (simp add: pendingFull_def pending_size_def newPending_def word_gt_0)

lemma newPending_wf [simp]: "pending_wf newPending"
  by (simp add: pending_wf_def newPending_def)

lemma flushOnce_quiet:
  assumes "pending_wf (s_pending s)" "fst (upsert db (map recordFromEntry (pending_snapshot (s_pending s)))) = None"
  shows "\<exists>db'. flushOnce upsert (\<lambda>s. s) s db = (None, s\<lparr>s_pending := newPending\<rparr>, db') \<and>
     (pending_snapshot (s_pending s) = [] \<and> db' = db \<or>
      upsert db (map recordFromEntry (pending_snapshot (s_pending s))) = (None, db'))"
proof (cases "pending_snapshot (s_pending s) = []")
  case True
  then have "s_pending s = newPending"
    using assms(1) by (intro pending_empty) (auto simp: pending_snapshot_def)
  with True show ?thesis by (simp add: flushOnce_def)
next
  case False
  obtain db' where "upsert db (map recordFromEntry (pending_snapshot (s_pending s))) = (None, db')"
    using assms(2) by (metis prod.collapse)
  with False drop_flushed_empty [OF assms(1)] show ?thesis by (simp add: flushOnce_def Let_def)
qed

section \<open>The latest entry of a reference\<close>

definition fences_ascend :: "oplog_Entry list \<Rightarrow> bool" where
  "fences_ascend es \<longleftrightarrow>
     sorted_wrt (\<lambda>a b. entry_ref a = entry_ref b \<longrightarrow> fence_le (oe_fence a) (oe_fence b)) es"

lemma put_all_latest:
  assumes "fences_ascend es" "e \<in> set es"
  shows "\<exists>e'. map_of (p_entries (put_all es p)) (entry_ref e) = Some e' \<and> entry_ref e' = entry_ref e \<and>
     fence_le (oe_fence e) (oe_fence e')"
  using assms
proof (induction es rule: rev_induct)
  case (snoc x es)
  show ?case
  proof (cases "entry_ref x = entry_ref e")
    case True
    with snoc.prems show ?thesis
      by (auto simp: pending_put_entries update_conv' fences_ascend_def sorted_wrt_append)
  next
    case False
    with snoc.prems have "e \<in> set es" "fences_ascend es"
      by (auto simp: fences_ascend_def sorted_wrt_append)
    with snoc.IH False show ?thesis by (auto simp: pending_put_entries update_conv')
  qed
qed simp

lemma rec_fence_entry [simp]: "rec_fence (recordFromEntry e) = oe_fence e"
  by (simp add: rec_fence_def oe_fence_def)

lemma snapshot_member: "map_of (p_entries p) ref = Some e \<Longrightarrow> e \<in> set (pending_snapshot p)"
  by (force simp: pending_snapshot_def dest: map_of_SomeD)

lemma covered_older:
  assumes "covered row db (recordFromEntry e')" "entry_ref e' = entry_ref e"
    "fence_le (oe_fence e) (oe_fence e')"
  shows "covered row db (recordFromEntry e)"
proof -
  from assms(1) obtain x where x: "row db (record_key (recordFromEntry e')) = Some x"
    "fence_le (oe_fence e') (rec_fence x)" by (auto simp: covered_def)
  have "fence_le (oe_fence e) (rec_fence x)" using assms(3) x(2) by (rule fence_le_trans)
  with x(1) assms(2) show ?thesis by (simp add: covered_def entry_ref_def)
qed

section \<open>Clients of the backend\<close>

context durable_backend
begin

lemma flush_covers:
  assumes "ok db" "pending_wf (s_pending s)" "\<And>db rs. fst (upsert db rs) = None"
  shows "\<exists>db'. flushOnce upsert (\<lambda>s. s) s db = (None, s\<lparr>s_pending := newPending\<rparr>, db') \<and> ok db' \<and>
    (\<forall>e \<in> set (pending_snapshot (s_pending s)). covered row db' (recordFromEntry e)) \<and>
    (\<forall>r. covered row db r \<longrightarrow> covered row db' r)"
proof -
  let ?rs = "map recordFromEntry (pending_snapshot (s_pending s))"
  from flushOnce_quiet [of s upsert db, OF assms(2) assms(3)] obtain db' where
    f: "flushOnce upsert (\<lambda>s. s) s db = (None, s\<lparr>s_pending := newPending\<rparr>, db') \<and>
      (pending_snapshot (s_pending s) = [] \<and> db' = db \<or> upsert db ?rs = (None, db'))"
    by (elim exE)
  from conjunct2 [OF f] show ?thesis
  proof
    assume "upsert db ?rs = (None, db')"
    with f upsert_ok [OF assms(1), of ?rs] covered_upsert [OF assms(1), of ?rs db']
      covered_mono [OF assms(1), of _ ?rs]
    show ?thesis by (intro exI [of _ db']) simp
  next
    assume "pending_snapshot (s_pending s) = [] \<and> db' = db"
    with f assms(1) show ?thesis by (intro exI [of _ db']) simp
  qed
qed

lemma final_drain:
  assumes quiet: "\<And>db rs. fst (upsert db rs) = None"
  shows "ok db \<Longrightarrow> s_pending s = newPending \<Longrightarrow> ring_inv (s_consumer s) xs \<Longrightarrow>
    decodes unmarshal xs es \<Longrightarrow> fences_ascend es \<Longrightarrow>
    \<exists>s' db'. finalDrain unmarshal upsert (\<lambda>_ s. s) (\<lambda>_ s. s) k s db = Some (s', db') \<and>
      ring_inv (s_consumer s') [] \<and> s_pending s' = newPending \<and> ok db' \<and>
      (\<forall>e \<in> set es. covered row db' (recordFromEntry e)) \<and>
      (\<forall>r. covered row db r \<longrightarrow> covered row db' r)"
proof (induction "length xs" arbitrary: xs es s db k rule: less_induct)
  case less
  note prems = less.prems
  from drainRing_spec [OF prems(3,4)] obtain n m where
    d: "drainRing unmarshal s =
      Some (n, None, s\<lparr>s_consumer := m, s_pending := put_all (take n es) (s_pending s)\<rparr>)"
    "ring_inv m (drop n xs)" "n \<le> length es" "n = 0 \<Longrightarrow> pendingFull s \<or> xs = []" by metis
  let ?s = "s\<lparr>s_consumer := m, s_pending := put_all (take n es) (s_pending s)\<rparr>"
  have wf: "pending_wf (s_pending ?s)" using prems(2) by (simp add: put_all_wf)
  from flush_covers [OF prems(1) wf quiet] obtain db' where
    fl: "flushOnce upsert (\<lambda>s. s) ?s db = (None, ?s\<lparr>s_pending := newPending\<rparr>, db') \<and> ok db' \<and>
      (\<forall>e \<in> set (pending_snapshot (s_pending ?s)). covered row db' (recordFromEntry e)) \<and>
      (\<forall>r. covered row db r \<longrightarrow> covered row db' r)" by (elim exE)
  then have f: "flushOnce upsert (\<lambda>s. s) ?s db = (None, ?s\<lparr>s_pending := newPending\<rparr>, db')" "ok db'"
    and cov: "\<And>e. e \<in> set (pending_snapshot (s_pending ?s)) \<Longrightarrow> covered row db' (recordFromEntry e)"
    and mono: "\<And>r. covered row db r \<Longrightarrow> covered row db' r" by simp_all
  have asc: "fences_ascend (take n es)" "fences_ascend (drop n es)"
    using prems(5) by (simp_all add: fences_ascend_def sorted_wrt_take sorted_wrt_drop)
  have taken: "covered row db' (recordFromEntry e)" if "e \<in> set (take n es)" for e
  proof -
    from put_all_latest [OF asc(1) that, of "s_pending s"] obtain e' where
      "map_of (p_entries (s_pending ?s)) (entry_ref e) = Some e'" "entry_ref e' = entry_ref e"
      "fence_le (oe_fence e) (oe_fence e')" by auto
    then show ?thesis by (intro covered_older [OF cov [OF snapshot_member]])
  qed
  let ?t = "?s\<lparr>s_pending := newPending\<rparr>"
  have step: "finalDrain unmarshal upsert (\<lambda>_ s. s) (\<lambda>_ s. s) k s db =
      (if n = 0 then Some (?t, db') else finalDrain unmarshal upsert (\<lambda>_ s. s) (\<lambda>_ s. s) (Suc k) ?t db')"
    by (subst finalDrain.simps) (simp add: d(1) f(1))
  show ?case
  proof (cases "n = 0")
    case True
    with d(4) newPending_not_full [OF prems(2)] have "xs = []" by blast
    with True d(2) f(2) mono prems(4) show ?thesis by (simp add: step decodes_def)
  next
    case False
    have len: "length xs = length es" using prems(4) by (simp add: decodes_def list_all2_lengthD)
    have "length (drop n xs) < length xs" using False d(3) len by auto
    moreover have "decodes unmarshal (drop n xs) (drop n es)"
      using prems(4) by (simp add: decodes_def list_all2_dropI)
    ultimately obtain s'' db'' where r: "finalDrain unmarshal upsert (\<lambda>_ s. s) (\<lambda>_ s. s) (Suc k) ?t db' = Some (s'', db'')"
      "ring_inv (s_consumer s'') []" "s_pending s'' = newPending" "ok db''"
      "\<forall>e \<in> set (drop n es). covered row db'' (recordFromEntry e)"
      "\<forall>r. covered row db' r \<longrightarrow> covered row db'' r"
      using less.hyps [of "drop n xs" db' ?t "drop n es" "Suc k"] f(2) d(2) asc(2) by fastforce
    have "\<forall>e \<in> set es. covered row db'' (recordFromEntry e)"
      using taken r(5,6) set_append [of "take n es" "drop n es"] by auto
    with r mono False show ?thesis by (intro exI [of _ s''] exI [of _ db'']) (simp add: step)
  qed
qed

end

section \<open>Removing entries\<close>

lemma drop_flushed_entries:
  assumes "pending_wf p" "distinct (map entry_ref es)"
    and "\<And>e. e \<in> set es \<Longrightarrow> map_of (p_entries p) (entry_ref e) = Some e"
  shows "p_entries (drop_flushed es p) = filter (\<lambda>(ref, _). ref \<notin> entry_ref ` set es) (p_entries p)"
  using assms
proof (induction es arbitrary: p)
  case (Cons e es)
  let ?p = "pending_drop p (entry_ref e) (oe_OwnerSeq e)"
  have del: "p_entries ?p = AList.delete (entry_ref e) (p_entries p)"
    using Cons.prems(3) [of e] by (simp add: pending_drop_entries)
  have "p_entries (drop_flushed es ?p) = filter (\<lambda>(ref, _). ref \<notin> entry_ref ` set es) (p_entries ?p)"
  proof (rule Cons.IH)
    show "map_of (p_entries ?p) (entry_ref x) = Some x" if "x \<in> set es" for x
    proof -
      have "entry_ref e \<notin> entry_ref ` set es" using Cons.prems(2) by simp
      then have "entry_ref x \<noteq> entry_ref e" using that by (metis imageI)
      then show ?thesis using Cons.prems(3) [of x] that by (simp add: del)
    qed
  qed (use Cons.prems in \<open>simp_all add: pending_drop_wf\<close>)
  then show ?case
    by (simp add: drop_flushed_def del AList.delete_eq case_prod_unfold conj_commute eq_commute)
qed (simp add: drop_flushed_def case_prod_unfold)

lemma purge_one_pair [simp]:
  "purge_one g (ref, e) (p, n) =
     (if oe_Generation e < g
      then (p\<lparr>p_entries := AList.delete ref (p_entries p), p_bytes := p_bytes p - pendingEntryBytes e\<rparr>, n + 1)
      else (p, n))"
  by (simp add: purge_one_def)

lemma purge_fold:
  assumes "pending_wf p" "distinct (map fst xs)" "\<And>ref e. (ref, e) \<in> set xs \<Longrightarrow> map_of (p_entries p) ref = Some e"
  shows "\<exists>p'. fold (purge_one g) xs (p, n) =
      (p', n + length (filter (\<lambda>(_, e). oe_Generation e < g) xs)) \<and> pending_wf p' \<and>
    p_entries p' = filter (\<lambda>(ref, _). ref \<notin> fst ` set (filter (\<lambda>(_, e). oe_Generation e < g) xs)) (p_entries p)"
  using assms
proof (induction xs arbitrary: p n)
  case (Cons x xs)
  obtain ref e where x: "x = (ref, e)" by (cases x)
  let ?p = "p\<lparr>p_entries := AList.delete ref (p_entries p), p_bytes := p_bytes p - pendingEntryBytes e\<rparr>"
  have get: "map_of (p_entries p) ref = Some e" using Cons.prems(3) [of ref e] x by simp
  show ?case
  proof (cases "oe_Generation e < g")
    case True
    have "\<exists>p'. fold (purge_one g) xs (?p, n + 1) =
      (p', n + 1 + length (filter (\<lambda>(_, e). oe_Generation e < g) xs)) \<and> pending_wf p' \<and>
      p_entries p' = filter (\<lambda>(ref, _). ref \<notin> fst ` set (filter (\<lambda>(_, e). oe_Generation e < g) xs)) (p_entries ?p)"
    proof (rule Cons.IH)
      show "pending_wf ?p" by (rule delete_entry_wf [OF Cons.prems(1) get])
      show "map_of (p_entries ?p) r = Some y" if "(r, y) \<in> set xs" for r y
        using Cons.prems(2) Cons.prems(3) [of r y] that x by (force simp: delete_conv')
    qed (use Cons.prems in simp)
    with True show ?thesis
      by (simp add: x AList.delete_eq case_prod_unfold conj_commute eq_commute)
  next
    case False
    with Cons.IH [of p n] Cons.prems show ?thesis by (simp add: x)
  qed
qed (simp add: case_prod_unfold)

lemma gomap_filter_keys:
  assumes "gomap m"
  shows "filter (\<lambda>(k, _). k \<notin> fst ` set (filter P m)) m = filter (\<lambda>x. \<not> P x) m"
proof (rule filter_cong [OF refl])
  fix x
  assume x: "x \<in> set m"
  have "inj_on fst (set m)" using assms by (simp add: gomap_def distinct_map)
  from inj_on_image_mem_iff [OF this x, of "set (filter P m)"] x
  show "(case x of (k, _) \<Rightarrow> k \<notin> fst ` set (filter P m)) = (\<not> P x)"
    by (cases x) simp
qed

lemma purgeBelow_spec:
  assumes "pending_wf p"
  shows "\<exists>p'. purgeBelow p g = (p', length (filter (\<lambda>(_, e). oe_Generation e < g) (p_entries p))) \<and>
    pending_wf p' \<and> p_entries p' = filter (\<lambda>(_, e). \<not> oe_Generation e < g) (p_entries p)"
proof -
  have gm: "gomap (p_entries p)" using assms by (simp add: pending_wf_def)
  have keep: "filter (\<lambda>(ref, _). ref \<notin> fst ` set (filter (\<lambda>(_, e). oe_Generation e < g) (p_entries p))) (p_entries p) =
      filter (\<lambda>(_, e). \<not> oe_Generation e < g) (p_entries p)"
    using gomap_filter_keys [OF gm, of "\<lambda>(_, e). oe_Generation e < g"] by (simp add: case_prod_unfold)
  show ?thesis
    unfolding purgeBelow_def keep [symmetric]
    using purge_fold [OF assms, of "p_entries p" g 0, unfolded add_0] gm gomap_in [OF gm]
    by (simp only: gomap_def)
qed

datatype pending_op = PPut oplog_Entry | PDrop EntryRef int64 | PPurge int64

fun pending_exec :: "pending_op \<Rightarrow> pending \<Rightarrow> pending" where
  "pending_exec (PPut e) p = pending_put p e"
| "pending_exec (PDrop ref q) p = pending_drop p ref q"
| "pending_exec (PPurge g) p = fst (purgeBelow p g)"

lemma pending_exec_wf: "pending_wf p \<Longrightarrow> pending_wf (pending_exec x p)"
proof (cases x)
  case (PPurge g)
  assume "pending_wf p"
  from purgeBelow_spec [OF this, of g] PPurge show ?thesis by auto
qed (simp_all add: pending_put_wf pending_drop_wf)

lemma drop_flushed_subset:
  assumes "pending_wf p"
  shows "p_entries (drop_flushed (filter P (map snd (p_entries p))) p) =
     filter (\<lambda>(_, e). \<not> P e) (p_entries p)"
proof -
  let ?m = "p_entries p" and ?P = "\<lambda>x. P (snd x)"
  let ?es = "filter P (map snd ?m)"
  have gm: "gomap ?m" and refs: "\<And>ref e. (ref, e) \<in> set ?m \<Longrightarrow> entry_ref e = ref"
    using assms by (auto simp: pending_wf_def)
  have es: "?es = map snd (filter ?P ?m)" by (simp add: filter_map o_def)
  have keys: "map entry_ref (map snd xs) = map fst xs" if "set xs \<subseteq> set ?m" for xs
    using that refs by (induction xs) auto
  have "map entry_ref ?es = map fst (filter ?P ?m)"
    unfolding es by (rule keys) auto
  then have d: "distinct (map entry_ref ?es)" and i: "entry_ref ` set ?es = fst ` set (filter ?P ?m)"
    using gomap_filter [OF gm, of ?P] by (metis gomap_def, metis set_map)
  have get: "map_of ?m (entry_ref e) = Some e" if "e \<in> set ?es" for e
    using that refs gomap_in [OF gm] by fastforce
  have "p_entries (drop_flushed ?es p) = filter (\<lambda>(ref, _). ref \<notin> entry_ref ` set ?es) ?m"
    using d get by (rule drop_flushed_entries [OF assms])
  also have "\<dots> = filter (\<lambda>(_, e). \<not> P e) ?m"
    unfolding i gomap_filter_keys [OF gm] by (simp add: case_prod_unfold)
  finally show ?thesis .
qed

definition in_partition :: "DrainPartitionRequest \<Rightarrow> oplog_Entry \<Rightarrow> bool" where
  "in_partition req e \<longleftrightarrow> oe_DMap e = dr_DMap req \<and> oe_HKey e mod dr_PartitionCount req = dr_PartitionID req"

lemma pending_drainPartition_eq:
  "pending_drainPartition p (dr_DMap req) (dr_PartitionID req) (dr_PartitionCount req) =
     filter (in_partition req) (map snd (p_entries p))"
  unfolding pending_drainPartition_def by (rule filter_cong) (simp_all add: in_partition_def)
context durable_backend
begin

lemma drain_partition:
  assumes quiet: "\<And>db rs. fst (upsert db rs) = None" and db: "ok db"
    and wf: "pending_wf (s_pending s)" and ring: "ring_inv (s_consumer s) xs" "decodes unmarshal xs es"
    and req: "dr_PartitionID req < dr_PartitionCount req"
  shows "\<exists>n s' db'. DrainPartition unmarshal upsert (\<lambda>s. s) s (Some req) db = Some (None, s', db') \<and>
    n \<le> length xs \<and> (unbounded s \<longrightarrow> n = min (nat (max 1 (s_batchSize s))) (length xs)) \<and>
    ring_inv (s_consumer s') (drop n xs) \<and> ok db' \<and>
    p_entries (s_pending s') =
      filter (\<lambda>(_, e). \<not> in_partition req e) (p_entries (put_all (take n es) (s_pending s))) \<and>
    (\<forall>e \<in> set (pending_snapshot (put_all (take n es) (s_pending s))). in_partition req e \<longrightarrow>
       covered row db' (recordFromEntry e))"
proof -
  from drainRing_spec [OF ring] obtain n m where
    d: "drainRing unmarshal s =
      Some (n, None, s\<lparr>s_consumer := m, s_pending := put_all (take n es) (s_pending s)\<rparr>)"
    "ring_inv m (drop n xs)" "n \<le> length es"
    "unbounded s \<Longrightarrow> n = min (nat (max 1 (s_batchSize s))) (length es)" by metis
  have len: "length es = length xs" using ring(2) by (simp add: decodes_def list_all2_lengthD)
  let ?p = "put_all (take n es) (s_pending s)"
  let ?s = "s\<lparr>s_consumer := m, s_pending := ?p\<rparr>"
  let ?sub = "filter (in_partition req) (map snd (p_entries ?p))"
  have wf': "pending_wf ?p" using wf by (rule put_all_wf)
  have req': "dr_PartitionCount req \<noteq> 0" "\<not> dr_PartitionCount req \<le> dr_PartitionID req"
    using req by auto
  obtain db' where u: "upsert db (map recordFromEntry ?sub) = (None, db')"
    using quiet by (metis prod.collapse)
  show ?thesis
  proof (cases "?sub = []")
    case True
    then have "filter (\<lambda>(_, e). \<not> in_partition req e) (p_entries ?p) = p_entries ?p"
      "\<forall>e \<in> set (pending_snapshot ?p). \<not> in_partition req e"
      by (auto simp: filter_empty_conv filter_id_conv pending_snapshot_def)
    moreover have "DrainPartition unmarshal upsert (\<lambda>s. s) s (Some req) db = Some (None, ?s, db)"
      using True req' by (simp add: DrainPartition_def d(1) pending_drainPartition_eq)
    ultimately show ?thesis
      using d(2-4) db len by (intro exI [of _ n] exI [of _ ?s] exI [of _ db]) simp
  next
    case False
    let ?t = "?s\<lparr>s_pending := drop_flushed ?sub ?p\<rparr>"
    have "DrainPartition unmarshal upsert (\<lambda>s. s) s (Some req) db = Some (None, ?t, db')"
      using False req' by (simp add: DrainPartition_def d(1) pending_drainPartition_eq u Let_def)
    moreover have "covered row db' (recordFromEntry e)"
      if "e \<in> set (pending_snapshot ?p)" "in_partition req e" for e
      using that by (intro covered_upsert [OF db u]) (auto simp: pending_snapshot_def)
    moreover have "ok db'" using upsert_ok [OF db, of "map recordFromEntry ?sub"] by (simp add: u)
    ultimately show ?thesis
      using d(2-4) len drop_flushed_subset [OF wf', of "in_partition req"]
      by (intro exI [of _ n] exI [of _ ?t] exI [of _ db']) simp
  qed
qed

end

section \<open>Properties\<close>


definition demo_server :: "mapping \<Rightarrow> Server" where
  "demo_server m = \<lparr>s_consumer = m, s_pending = newPending, s_wake = False, s_batchSize = 1,
     s_idlePoll = second, s_flushTimeout = second, s_maxPendingRecords = 1, s_maxPendingBytes = 0\<rparr>"

lemma demo_ring_with_entry:
  "\<exists>m p. ring_inv m [p] \<and> decodes demo_unmarshal [p] [demo_entry 1 1 OpSet]"
proof -
  from demo_entry_payload [of 1 1 OpSet] obtain p where
    p: "length p \<le> 100" "Decode demo_unmarshal p = Inr (demo_entry 1 1 OpSet)" by auto
  with zero_ring_append [of 4096 p] obtain m where "ring_inv m [p]" by auto
  with p show ?thesis by (auto simp: decodes_def)
qed


text \<open>What a partition drain guarantees: for a valid request, with no other goroutine active and
  a database that accepts every batch, \<open>DrainPartition\<close> succeeds having taken some prefix of the
  ring into the pending set; every pending entry of the partition, the ones just taken included, is
  then covered by a row and no longer pending, and the entries of other partitions stay.  Without
  limits on the pending set the prefix is one batch: a ring holding more than a batch keeps the
  rest, the entries of the partition among them.\<close>

theorem drain_partition_flushes:
  assumes "keyed t" "pending_wf (s_pending s)" "ring_inv (s_consumer s) xs" "decodes unmarshal xs es"
    and "dr_PartitionID req < dr_PartitionCount req"
  shows "\<exists>n s' t'. DrainPartition unmarshal (UpsertEntries Simultaneous gt None) (\<lambda>s. s) s (Some req) t =
      Some (None, s', t') \<and>
    n \<le> length xs \<and> (unbounded s \<longrightarrow> n = min (nat (max 1 (s_batchSize s))) (length xs)) \<and>
    ring_inv (s_consumer s') (drop n xs) \<and> keyed t' \<and>
    p_entries (s_pending s') =
      filter (\<lambda>(_, e). \<not> in_partition req e) (p_entries (put_all (take n es) (s_pending s))) \<and>
    (\<forall>e \<in> set (pending_snapshot (put_all (take n es) (s_pending s))). in_partition req e \<longrightarrow>
       covered map_of t' (recordFromEntry e))"
proof -
  have "fst (UpsertEntries Simultaneous gt None db rs) = None" for db rs
    by (simp add: UpsertEntries_def)
  then show ?thesis using assms by (rule mb.drain_partition)
qed

theorem drain_partition_flushes_witness:
  "\<exists>m p n s' t'. ring_inv m [p] \<and>
     DrainPartition demo_unmarshal (UpsertEntries Simultaneous demo_gt None) (\<lambda>s. s) (demo_server m)
       (Some \<lparr>dr_DMap = ''d'', dr_PartitionID = 1, dr_PartitionCount = 2\<rparr>) [] = Some (None, s', t') \<and>
     ring_inv (s_consumer s') (drop n [p])"
proof -
  obtain m p where m: "ring_inv m [p]" "decodes demo_unmarshal [p] [demo_entry 1 1 OpSet]"
    using demo_ring_with_entry by blast
  have "keyed []" "pending_wf (s_pending (demo_server m))" "ring_inv (s_consumer (demo_server m)) [p]"
    using m by (simp_all add: keyed_def demo_server_def)
  from drain_partition_flushes [OF this m(2), of "\<lparr>dr_DMap = ''d'', dr_PartitionID = 1, dr_PartitionCount = 2\<rparr>" demo_gt]
    m(1) show ?thesis by (simp, blast)
qed

text \<open>C27. The accounting of the pending set is exact: after any sequence of puts, drops and purges on
  a new pending set, each reference is pending at most once, under its own key, and the byte
  counter is the sum of the sizes of the pending entries, in 64-bit arithmetic.\<close>

theorem pending_accounting: "pending_wf (fold pending_exec ops newPending)"
proof -
  have "pending_wf p \<Longrightarrow> pending_wf (fold pending_exec ops p)" for p
    by (induction ops arbitrary: p) (simp_all add: pending_exec_wf)
  then show ?thesis by simp
qed

text \<open>C28. A flush can lose an acknowledged write.  \<open>drop\<close> compares owner sequences only, which start
  again at one under a new fence: if, while the upsert of an entry is running, an entry of the
  same reference arrives with a higher generation and an owner sequence not above the flushed one,
  the flush succeeds, the newer entry is no longer pending, and it was not part of the batch.\<close>

theorem flush_drops_newer_fence:
  assumes "s_pending s = pending_put newPending e" "entry_ref e' = entry_ref e"
    and "oe_Generation e < oe_Generation e'" "oe_OwnerSeq e' \<le> oe_OwnerSeq e"
    and "upsert db [recordFromEntry e] = (None, db')"
  shows "\<exists>s'. flushOnce upsert (\<lambda>s. s\<lparr>s_pending := pending_put (s_pending s) e'\<rparr>) s db = (None, s', db') \<and>
    pending_get (s_pending s') (entry_ref e') = None"
proof -
  have snap: "pending_snapshot (s_pending s) = [e]"
    by (simp add: assms(1) pending_snapshot_def pending_put_entries newPending_def)
  have "p_entries (pending_put (s_pending s) e') = [(entry_ref e, e')]"
    by (simp add: assms(1,2) pending_put_entries newPending_def)
  then have "p_entries (drop_flushed [e] (pending_put (s_pending s) e')) = []"
    using assms(4) by (simp add: drop_flushed_def pending_drop_entries)
  with snap assms(5) show ?thesis by (simp add: flushOnce_def Let_def pending_get_def)
qed

theorem flush_drops_newer_fence_witness:
  "\<exists>s' t'. flushOnce (UpsertEntries Simultaneous demo_gt None)
      (\<lambda>s. s\<lparr>s_pending := pending_put (s_pending s) (demo_entry 2 1 OpSet)\<rparr>)
      ((demo_server demo_ring)\<lparr>s_pending := pending_put newPending (demo_entry 1 9 OpSet)\<rparr>) [] = (None, s', t') \<and>
    pending_get (s_pending s') (entry_ref (demo_entry 2 1 OpSet)) = None"
proof -
  obtain t' where "UpsertEntries Simultaneous demo_gt None [] [recordFromEntry (demo_entry 1 9 OpSet)] = (None, t')"
    by (simp add: UpsertEntries_def)
  from flush_drops_newer_fence [where s = "(demo_server demo_ring)\<lparr>s_pending := pending_put newPending (demo_entry 1 9 OpSet)\<rparr>"
      and e' = "demo_entry 2 1 OpSet" and e = "demo_entry 1 9 OpSet"
      and upsert = "UpsertEntries Simultaneous demo_gt None" and db = "[]", OF _ _ _ _ this]
  show ?thesis by (auto simp: demo_entry_def entry_ref_def)
qed

text \<open>A purge removes exactly the older generations, from the pending set and from the
  database: when it returns a count, the remaining pending entries and rows are those of the given
  generation or above, unchanged, and the count is the number removed.\<close>

theorem purge_removes_older_generations:
  assumes "pending_wf (s_pending s)" "0 < g"
    and "Server_PurgeBelowGeneration (PurgeBelowGeneration dbErr) s (Some g) t = (Inr n, s', t')"
  shows "p_entries (s_pending s') = filter (\<lambda>(_, e). \<not> oe_Generation e < g) (p_entries (s_pending s)) \<and>
    t' = filter (\<lambda>(_, r). \<not> er_Generation r < g) t \<and>
    n = length (filter (\<lambda>(_, e). oe_Generation e < g) (p_entries (s_pending s))) +
        length (filter (\<lambda>(_, r). er_Generation r < g) t)"
  using purgeBelow_spec [OF assms(1), of g] assms(2,3)
  by (auto simp: Server_PurgeBelowGeneration_def PurgeBelowGeneration_def Let_def
      split: option.splits)

theorem purge_removes_older_generations_witness:
  "\<exists>n s' t'. Server_PurgeBelowGeneration (PurgeBelowGeneration None)
      ((demo_server demo_ring)\<lparr>s_pending := pending_put newPending (demo_entry 1 9 OpSet)\<rparr>) (Some 2)
      [((''d'', 3), demo_record 2 1 False ''b'')] = (Inr n, s', t') \<and>
    p_entries (s_pending s') = [] \<and> n = 1"
proof -
  let ?s = "(demo_server demo_ring)\<lparr>s_pending := pending_put newPending (demo_entry 1 9 OpSet)\<rparr>"
  have wf: "pending_wf (s_pending ?s)" by (simp add: pending_put_wf)
  obtain n s' t' where r: "Server_PurgeBelowGeneration (PurgeBelowGeneration None) ?s (Some 2)
      [((''d'', 3), demo_record 2 1 False ''b'')] = (Inr n, s', t')"
    by (cases "purgeBelow (s_pending ?s) 2")
      (simp add: Server_PurgeBelowGeneration_def PurgeBelowGeneration_def Let_def)
  from purge_removes_older_generations [OF wf _ r] r show ?thesis
    by (simp add: pending_put_entries newPending_def demo_entry_def demo_record_def)
qed

text \<open>The sidecar serves a read from the latest entry it has taken from the ring, whatever the
  database holds: after entries have been put into the pending set, a load of the reference of one
  that no later entry overwrites returns its record, unless it is a deletion or has expired, and
  then reports the key as absent.\<close>

theorem load_sees_latest_pending:
  assumes "\<forall>x \<in> set later. entry_ref x \<noteq> entry_ref e"
  shows "Server_LoadFromMySQL load (s\<lparr>s_pending := put_all (earlier @ e # later) p\<rparr>) (Some (entry_ref e)) now =
    Inr (if oe_Op e = OpDelete \<or> (0 < oe_TTL e \<and> oe_TTL e \<le> UnixMilli now)
         then \<lparr>lr_Found = False, lr_Record = None\<rparr>
         else \<lparr>lr_Found = True, lr_Record = Some (recordFromEntry e)\<rparr>)"
proof -
  have keep: "map_of (p_entries (put_all later q)) (entry_ref e) = map_of (p_entries q) (entry_ref e)" for q
    using assms by (induction later arbitrary: q) (auto simp: pending_put_entries update_conv')
  have "map_of (p_entries (put_all (earlier @ e # later) p)) (entry_ref e) = Some e"
    by (simp add: keep pending_put_entries update_conv')
  then show ?thesis
    by (simp add: Server_LoadFromMySQL_def pending_get_def Let_def recordExpiredAt_def)
      (auto simp: recordFromEntry_def)
qed

theorem load_sees_latest_pending_witness:
  "Server_LoadFromMySQL (\<lambda>_. Inl ErrNotFound)
     ((demo_server demo_ring)\<lparr>s_pending := put_all [demo_entry 1 1 OpDelete, demo_entry 1 2 OpSet] newPending\<rparr>)
     (Some (entry_ref (demo_entry 1 2 OpSet))) 0 =
   Inr \<lparr>lr_Found = True, lr_Record = Some (recordFromEntry (demo_entry 1 2 OpSet))\<rparr>"
  using load_sees_latest_pending [where later = "[]" and earlier = "[demo_entry 1 1 OpDelete]"
      and e = "demo_entry 1 2 OpSet" and now = 0 and p = newPending and s = "demo_server demo_ring"]
  by (simp add: demo_entry_def Op_defs)

end
