(* ===== verification/Go_Strconv.thy ===== *)
theory Go_Strconv
  imports Stack_Prelude
begin

text \<open>
  Decimal numbers as \<^verbatim>\<open>strconv.FormatInt(x, 10)\<close> writes and \<^verbatim>\<open>strconv.ParseInt(s, 10, 64)\<close> reads
  them, with the round trip.
\<close>

definition digit_char :: "nat \<Rightarrow> char" where
  "digit_char d = char_of (48 + d)"

definition char_digit :: "char \<Rightarrow> nat option" where
  "char_digit c = (if 48 \<le> (of_char c :: nat) \<and> (of_char c :: nat) \<le> 57 then Some (of_char c - 48) else None)"

fun nat_digits :: "nat \<Rightarrow> string" where
  "nat_digits n = (if n < 10 then [digit_char n] else nat_digits (n div 10) @ [digit_char (n mod 10)])"

declare nat_digits.simps [simp del]

definition FormatInt :: "int64 \<Rightarrow> string" where
  "FormatInt x = (if x < 0 then CHR ''-'' # nat_digits (nat (- x)) else nat_digits (nat x))"

fun read_digits :: "nat \<Rightarrow> string \<Rightarrow> nat option" where
  "read_digits acc [] = Some acc"
| "read_digits acc (c # cs) =
     (case char_digit c of None \<Rightarrow> None | Some d \<Rightarrow> read_digits (10 * acc + d) cs)"

text \<open>\<open>None\<close> is the error of \<open>ParseInt\<close>, of syntax or of range.\<close>

definition ParseInt :: "string \<Rightarrow> int64 option" where
  "ParseInt s =
     (if s = '''' then None
      else let neg = (hd s = CHR ''-'');
               body = (if hd s = CHR ''-'' \<or> hd s = CHR ''+'' then tl s else s)
      in if body = '''' then None
      else case read_digits 0 body of
        None \<Rightarrow> None
      | Some un \<Rightarrow>
          if \<not> neg \<and> int un \<ge> 2 ^ 63 then None
          else if neg \<and> int un > 2 ^ 63 then None
          else Some (if neg then - int un else int un))"

lemma char_digit_char: "d < 10 \<Longrightarrow> char_digit (digit_char d) = Some d"
  by (simp add: char_digit_def digit_char_def)

lemma read_digits_append:
  "read_digits acc (xs @ ys) = (case read_digits acc xs of None \<Rightarrow> None | Some a \<Rightarrow> read_digits a ys)"
  by (induction xs arbitrary: acc) (auto split: option.split)

lemma read_nat_digits: "read_digits 0 (nat_digits n) = Some n"
proof (induction n rule: nat_digits.induct)
  case (1 n)
  then show ?case
    by (subst nat_digits.simps) (auto simp: char_digit_char read_digits_append)
qed

lemma nat_digits_ne: "nat_digits n \<noteq> []"
  by (subst nat_digits.simps) simp

lemma hd_nat_digits: "hd (nat_digits n) \<in> digit_char ` {..<10}"
proof (induction n rule: nat_digits.induct)
  case (1 n)
  then show ?case by (subst nat_digits.simps) (auto simp: nat_digits_ne)
qed

lemma hd_nat_digits_ne: "char_digit c = None \<Longrightarrow> hd (nat_digits n) \<noteq> c"
  using hd_nat_digits [of n] by (auto simp: char_digit_char)

lemma hd_nat_digits_sign: "hd (nat_digits n) \<noteq> CHR ''-''" "hd (nat_digits n) \<noteq> CHR ''+''"
  by (rule hd_nat_digits_ne, code_simp)+

lemma ParseInt_FormatInt: "i64_range x \<Longrightarrow> ParseInt (FormatInt x) = Some x"
  by (auto simp: ParseInt_def FormatInt_def i64_range_def Let_def nat_digits_ne read_nat_digits
      hd_nat_digits_sign)

lemma FormatInt_ne: "FormatInt x \<noteq> ''''"
  by (simp add: FormatInt_def nat_digits_ne)

lemma ParseInt_range: "ParseInt s = Some x \<Longrightarrow> i64_range x"
  by (auto simp: ParseInt_def i64_range_def Let_def split: if_splits option.splits)

end
