(* ===== verification/Watchdog_State.thy ===== *)
theory Watchdog_State
  imports Topology_Types Go_Strconv "HOL-Library.List_Lexorder" "HOL-Library.Char_ord"
begin

text \<open>
  The watchdog's view of the cluster (\<^verbatim>\<open>internal/watchdog/state.go\<close>): the nodes it has heard of,
  each with a lifecycle state machine, and the topology epoch.  The state machine library
  \<^verbatim>\<open>looplab/fsm\<close> is the argument \<open>event\<close> of the operations: given the transition table, the current
  state and an event name it returns the new current state and whether an error was reported.
  \<open>fsm_documented\<close> is its documented behaviour.  The clock is an argument where \<^verbatim>\<open>time.Now\<close> is called.
\<close>

section \<open>Observations and state\<close>

definition nodeEventHeartbeat :: string where "nodeEventHeartbeat = ''heartbeat''"
definition nodeEventSuspect :: string where "nodeEventSuspect = ''suspect''"
definition nodeEventExpire :: string where "nodeEventExpire = ''expire''"
definition nodeEventTerminal :: string where "nodeEventTerminal = ''terminal''"
definition nodeEventDrain :: string where "nodeEventDrain = ''drain''"
definition nodeEventLeave :: string where "nodeEventLeave = ''leave''"
definition nodeEventRemove :: string where "nodeEventRemove = ''remove''"

record PodObservation =
  po_PodName :: string
  po_PodIP :: string
  po_Ready :: bool
  po_Phase :: string
  po_SeenAt :: time

record HeartbeatObservation =
  ho_NodeID :: string
  ho_PodName :: string
  ho_PodIP :: string
  ho_Incarnation :: int64
  ho_ReportedState :: NodeState
  ho_ProtocolVersion :: string
  ho_SeenAt :: time

record HeartbeatResult =
  hr_Changed :: bool
  hr_Stale :: bool

text \<open>\<open>nd_lifecycle\<close> is the current state of the node's state machine, \<open>None\<close> for the nil pointer.\<close>

record Node =
  nd_NodeID :: string
  nd_PodName :: string
  nd_PodIP :: string
  nd_Incarnation :: int64
  nd_State :: NodeState
  nd_ProtocolVersion :: string
  nd_LastHeartbeat :: time
  nd_LastPodSeen :: time
  nd_PodReady :: bool
  nd_PodPhase :: string
  nd_lifecycle :: "string option"

record ClusterState =
  cs_nodes :: "(string \<times> Node) list"
  cs_epoch :: int64

definition NewClusterState :: ClusterState where
  "NewClusterState = \<lparr>cs_nodes = [], cs_epoch = 0\<rparr>"

section \<open>Lifecycle of a node\<close>

definition NodeState_value :: "(string \<times> NodeState) list" where
  "NodeState_value =
    [(''NODE_STATE_UNSPECIFIED'', NODE_STATE_UNSPECIFIED), (''NODE_STATE_JOINING'', NODE_STATE_JOINING),
     (''NODE_STATE_READY'', NODE_STATE_READY), (''NODE_STATE_SUSPECT'', NODE_STATE_SUSPECT),
     (''NODE_STATE_UNREACHABLE'', NODE_STATE_UNREACHABLE), (''NODE_STATE_DRAINING'', NODE_STATE_DRAINING),
     (''NODE_STATE_LEAVING'', NODE_STATE_LEAVING), (''NODE_STATE_REMOVED'', NODE_STATE_REMOVED)]"

text \<open>\<^verbatim>\<open>NodeState.String\<close>: the name, or the number of a value without a name.\<close>

fun NodeState_String :: "NodeState \<Rightarrow> string" where
  "NodeState_String NODE_STATE_UNSPECIFIED = ''NODE_STATE_UNSPECIFIED''"
| "NodeState_String NODE_STATE_JOINING = ''NODE_STATE_JOINING''"
| "NodeState_String NODE_STATE_READY = ''NODE_STATE_READY''"
| "NodeState_String NODE_STATE_SUSPECT = ''NODE_STATE_SUSPECT''"
| "NodeState_String NODE_STATE_UNREACHABLE = ''NODE_STATE_UNREACHABLE''"
| "NodeState_String NODE_STATE_DRAINING = ''NODE_STATE_DRAINING''"
| "NodeState_String NODE_STATE_LEAVING = ''NODE_STATE_LEAVING''"
| "NodeState_String NODE_STATE_REMOVED = ''NODE_STATE_REMOVED''"
| "NodeState_String (NODE_STATE_OTHER n) = FormatInt n"

definition nodeStateString :: "NodeState \<Rightarrow> string" where
  "nodeStateString state =
     NodeState_String (if state = NODE_STATE_UNSPECIFIED then NODE_STATE_READY else state)"

definition nodeStateFromString :: "string \<Rightarrow> NodeState" where
  "nodeStateFromString state =
     (case map_of NodeState_value state of Some v \<Rightarrow> v | None \<Rightarrow> NODE_STATE_UNSPECIFIED)"

type_synonym fsm_events = "(string \<times> string list \<times> string) list"

definition newNodeLifecycleFSM :: fsm_events where
  "newNodeLifecycleFSM =
    (let ready = nodeStateString NODE_STATE_READY;
         joining = nodeStateString NODE_STATE_JOINING;
         suspect = nodeStateString NODE_STATE_SUSPECT;
         unreachable = nodeStateString NODE_STATE_UNREACHABLE;
         draining = nodeStateString NODE_STATE_DRAINING;
         leaving = nodeStateString NODE_STATE_LEAVING;
         removed = nodeStateString NODE_STATE_REMOVED
     in [(nodeEventHeartbeat, [joining, ready, suspect, unreachable], ready),
         (nodeEventHeartbeat, [draining], draining),
         (nodeEventHeartbeat, [leaving], leaving),
         (nodeEventHeartbeat, [removed], removed),
         (nodeEventSuspect, [joining, ready], suspect),
         (nodeEventExpire, [joining, ready, suspect, draining, leaving], unreachable),
         (nodeEventTerminal, [joining, ready, suspect, unreachable, draining, leaving], removed),
         (nodeEventDrain, [joining, ready, suspect], draining),
         (nodeEventLeave, [ready, suspect, draining], leaving),
         (nodeEventRemove, [unreachable, leaving, removed], removed)])"

type_synonym fsm_library = "fsm_events \<Rightarrow> string \<Rightarrow> string \<Rightarrow> bool \<times> string"

definition setLifecycle :: "NodeState \<Rightarrow> Node \<Rightarrow> Node" where
  "setLifecycle state n =
     (let state = (if state = NODE_STATE_UNSPECIFIED then NODE_STATE_READY else state)
      in n\<lparr>nd_State := state, nd_lifecycle := Some (nodeStateString state)\<rparr>)"

definition ensureLifecycle :: "Node \<Rightarrow> Node" where
  "ensureLifecycle n = (if nd_lifecycle n = None then setLifecycle (nd_State n) n else n)"

definition transition :: "fsm_library \<Rightarrow> string \<Rightarrow> Node \<Rightarrow> bool \<times> Node" where
  "transition event name n0 =
     (let n = ensureLifecycle n0;
          previous = nd_State n;
          (err, current) = event newNodeLifecycleFSM (the (nd_lifecycle n)) name;
          n = n\<lparr>nd_lifecycle := Some current\<rparr>
      in if err then (False, n)
         else let n = n\<lparr>nd_State := nodeStateFromString current\<rparr>
              in (nd_State n \<noteq> previous, n))"

definition applyHeartbeatState :: "fsm_library \<Rightarrow> NodeState \<Rightarrow> Node \<Rightarrow> bool \<times> Node" where
  "applyHeartbeatState event state n0 =
     (let n = ensureLifecycle n0;
          state = (if state = NODE_STATE_UNSPECIFIED then NODE_STATE_READY else state)
      in case state of
           NODE_STATE_DRAINING \<Rightarrow> transition event nodeEventDrain n
         | NODE_STATE_LEAVING \<Rightarrow> transition event nodeEventLeave n
         | NODE_STATE_REMOVED \<Rightarrow> transition event nodeEventRemove n
         | _ \<Rightarrow> transition event nodeEventHeartbeat n)"

section \<open>Operations of the cluster state\<close>

text \<open>\<open>clock\<close> is what \<^verbatim>\<open>time.Now\<close> returns in the call.\<close>

definition ApplyHeartbeat :: "fsm_library \<Rightarrow> time \<Rightarrow> HeartbeatObservation \<Rightarrow> ClusterState \<Rightarrow>
    HeartbeatResult \<times> ClusterState" where
  "ApplyHeartbeat event clock obs0 s =
     (let obs = (if ho_SeenAt obs0 = zero_time then obs0\<lparr>ho_SeenAt := clock\<rparr> else obs0);
          obs = (if ho_ReportedState obs = NODE_STATE_UNSPECIFIED
                 then obs\<lparr>ho_ReportedState := NODE_STATE_READY\<rparr> else obs)
      in case map_of (cs_nodes s) (ho_NodeID obs) of
           None \<Rightarrow>
             let node = setLifecycle (ho_ReportedState obs)
                   \<lparr>nd_NodeID = ho_NodeID obs, nd_PodName = ho_PodName obs, nd_PodIP = ho_PodIP obs,
                    nd_Incarnation = ho_Incarnation obs, nd_State = NODE_STATE_UNSPECIFIED,
                    nd_ProtocolVersion = ho_ProtocolVersion obs, nd_LastHeartbeat = ho_SeenAt obs,
                    nd_LastPodSeen = zero_time, nd_PodReady = False, nd_PodPhase = '''',
                    nd_lifecycle = None\<rparr>
             in (\<lparr>hr_Changed = True, hr_Stale = False\<rparr>,
                 s\<lparr>cs_nodes := AList.update (ho_NodeID obs) node (cs_nodes s),
                   cs_epoch := i64 (cs_epoch s + 1)\<rparr>)
         | Some node \<Rightarrow>
             if ho_Incarnation obs < nd_Incarnation node
             then (\<lparr>hr_Changed = False, hr_Stale = True\<rparr>, s)
             else
               let changed = (nd_Incarnation node < ho_Incarnation obs \<or>
                     nd_PodName node \<noteq> ho_PodName obs \<or> nd_PodIP node \<noteq> ho_PodIP obs \<or>
                     nd_ProtocolVersion node \<noteq> ho_ProtocolVersion obs);
                   newIncarnation = (nd_Incarnation node < ho_Incarnation obs);
                   previousState = nd_State node;
                   node = node\<lparr>nd_PodName := ho_PodName obs, nd_PodIP := ho_PodIP obs,
                     nd_Incarnation := ho_Incarnation obs,
                     nd_ProtocolVersion := ho_ProtocolVersion obs,
                     nd_LastHeartbeat := ho_SeenAt obs\<rparr>;
                   (transitioned, node) =
                     (if newIncarnation
                      then let node = setLifecycle (ho_ReportedState obs) node
                           in (nd_State node \<noteq> previousState, node)
                      else applyHeartbeatState event (ho_ReportedState obs) node)
               in (\<lparr>hr_Changed = changed \<or> transitioned, hr_Stale = False\<rparr>,
                   s\<lparr>cs_nodes := AList.update (ho_NodeID obs) node (cs_nodes s),
                     cs_epoch := if changed \<or> transitioned then i64 (cs_epoch s + 1) else cs_epoch s\<rparr>))"

text \<open>The two indices built by the first loop of \<^verbatim>\<open>ApplyPodObservations\<close>.\<close>

definition observedBy :: "(PodObservation \<Rightarrow> string) \<Rightarrow> time \<Rightarrow> PodObservation list \<Rightarrow>
    (string \<times> PodObservation) list" where
  "observedBy key now observations =
     fold (\<lambda>obs m.
        let obs = (if po_SeenAt obs = zero_time then obs\<lparr>po_SeenAt := now\<rparr> else obs)
        in if key obs \<noteq> '''' then AList.update (key obs) obs m else m) observations []"

text \<open>One turn of the loop over the nodes, on the node and the flag: \<open>None\<close> when the node is
  deleted.  The keys of the map are the identifiers of the nodes (\<open>cluster_wf\<close>), so the deletion
  removes the entry the loop is at.\<close>

definition observe_node :: "fsm_library \<Rightarrow> PodObservation list \<Rightarrow> duration \<Rightarrow> time \<Rightarrow> Node \<Rightarrow>
    bool \<times> Node option" where
  "observe_node event observations expireAfter now node =
     (let byName = map_of (observedBy po_PodName now observations) (nd_PodName node);
          found = (if byName = None \<and> nd_PodName node = '''' \<and> nd_PodIP node \<noteq> ''''
                   then map_of (observedBy po_PodIP now observations) (nd_PodIP node) else byName)
      in case found of
           None \<Rightarrow>
             if time_sub now (nd_LastHeartbeat node) > expireAfter then (True, None)
             else (False, Some node)
         | Some obs \<Rightarrow>
             let (terminal, node) =
                   (if po_Phase obs = ''Failed'' \<or> po_Phase obs = ''Succeeded''
                    then transition event nodeEventTerminal node else (False, node));
                 changed = (terminal \<or> nd_PodReady node \<noteq> po_Ready obs \<or>
                   nd_PodPhase node \<noteq> po_Phase obs \<or> nd_PodName node \<noteq> po_PodName obs)
             in (changed, Some (node\<lparr>nd_PodName := po_PodName obs, nd_PodReady := po_Ready obs,
                   nd_PodPhase := po_Phase obs, nd_LastPodSeen := po_SeenAt obs\<rparr>)))"

text \<open>A loop over the nodes that may change or delete the node it is at.\<close>

fun over_nodes :: "(Node \<Rightarrow> bool \<times> Node option) \<Rightarrow> (string \<times> Node) list \<Rightarrow>
    bool \<times> (string \<times> Node) list" where
  "over_nodes f [] = (False, [])"
| "over_nodes f ((k, node) # rest) =
     (let (c, r) = f node; (cs, rs) = over_nodes f rest
      in (c \<or> cs, (case r of None \<Rightarrow> rs | Some node' \<Rightarrow> (k, node') # rs)))"

definition ApplyPodObservations :: "fsm_library \<Rightarrow> time \<Rightarrow> PodObservation list \<Rightarrow> duration \<Rightarrow> time \<Rightarrow>
    ClusterState \<Rightarrow> bool \<times> ClusterState" where
  "ApplyPodObservations event clock observations expireAfter now0 s =
     (let now = (if now0 = zero_time then clock else now0);
          (changed, nodes) = over_nodes (observe_node event observations expireAfter now) (cs_nodes s)
      in (changed, s\<lparr>cs_nodes := nodes,
            cs_epoch := if changed then i64 (cs_epoch s + 1) else cs_epoch s\<rparr>))"

definition prune_node :: "fsm_library \<Rightarrow> duration \<Rightarrow> duration \<Rightarrow> time \<Rightarrow> Node \<Rightarrow> bool \<times> Node option" where
  "prune_node event suspectAfter expireAfter now node =
     (let sinceHeartbeat = time_sub now (nd_LastHeartbeat node)
      in if sinceHeartbeat > expireAfter then
           let (c1, node) = transition event nodeEventExpire node;
               (c2, node) = transition event nodeEventRemove node
           in (c1 \<or> c2, if nd_State node = NODE_STATE_REMOVED then None else Some node)
         else if sinceHeartbeat > suspectAfter then
           let (c, node) = transition event nodeEventSuspect node in (c, Some node)
         else (False, Some node))"

definition PruneExpired :: "fsm_library \<Rightarrow> time \<Rightarrow> duration \<Rightarrow> duration \<Rightarrow> time \<Rightarrow> ClusterState \<Rightarrow>
    bool \<times> ClusterState" where
  "PruneExpired event clock suspectAfter expireAfter now0 s =
     (let now = (if now0 = zero_time then clock else now0);
          (changed, nodes) = over_nodes (prune_node event suspectAfter expireAfter now) (cs_nodes s)
      in (changed, s\<lparr>cs_nodes := nodes,
            cs_epoch := if changed then i64 (cs_epoch s + 1) else cs_epoch s\<rparr>))"

definition listed :: "duration \<Rightarrow> time \<Rightarrow> Node \<Rightarrow> bool" where
  "listed expireAfter now node \<longleftrightarrow>
     \<not> time_sub now (nd_LastHeartbeat node) > expireAfter \<and>
     \<not> (nd_State node = NODE_STATE_REMOVED \<or> nd_State node = NODE_STATE_UNREACHABLE)"

definition member_of_node :: "Node \<Rightarrow> Member" where
  "member_of_node node = \<lparr>mb_node_id = nd_NodeID node, mb_pod_name = nd_PodName node,
     mb_pod_ip = nd_PodIP node, mb_incarnation = nd_Incarnation node, mb_state = nd_State node,
     mb_last_seen_unix_ms = UnixMilli (nd_LastHeartbeat node)\<rparr>"

definition Members :: "time \<Rightarrow> duration \<Rightarrow> time \<Rightarrow> ClusterState \<Rightarrow> Member list \<times> int64" where
  "Members clock expireAfter now0 s =
     (let now = (if now0 = zero_time then clock else now0)
      in (sort_key mb_node_id
            (map member_of_node (filter (listed expireAfter now) (map snd (cs_nodes s)))),
          cs_epoch s))"

definition Epoch :: "ClusterState \<Rightarrow> int64" where
  "Epoch s = cs_epoch s"

definition BumpEpochAtLeast :: "int64 \<Rightarrow> ClusterState \<Rightarrow> ClusterState" where
  "BumpEpochAtLeast epoch s = (if epoch > cs_epoch s then s\<lparr>cs_epoch := epoch\<rparr> else s)"

section \<open>The state machine library\<close>

text \<open>The documented behaviour of \<^verbatim>\<open>FSM.Event\<close>: an event without a transition from the current state
  is an error, an event whose transition leads back to the current state reports
  \<^verbatim>\<open>NoTransitionError\<close>, any other event moves to the destination.\<close>

definition fsm_rows :: "fsm_events \<Rightarrow> ((string \<times> string) \<times> string) list" where
  "fsm_rows events = concat (map (\<lambda>(name, srcs, dst). map (\<lambda>src. ((name, src), dst)) srcs) events)"

definition fsm_table :: fsm_library where
  "fsm_table events current name =
     (case map_of (rev (fsm_rows events)) (name, current) of
        None \<Rightarrow> (True, current)
      | Some dst \<Rightarrow> (dst = current, dst))"

definition fsm_documented :: "fsm_library \<Rightarrow> bool" where
  "fsm_documented event \<longleftrightarrow> (\<forall>events current name. event events current name = fsm_table events current name)"

text \<open>The lifecycle as a function on states.\<close>

definition lifecycle_next :: "string \<Rightarrow> NodeState \<Rightarrow> NodeState" where
  "lifecycle_next name st =
     (if name = nodeEventHeartbeat \<and> st \<in> {NODE_STATE_JOINING, NODE_STATE_READY, NODE_STATE_SUSPECT, NODE_STATE_UNREACHABLE}
        then NODE_STATE_READY
      else if name = nodeEventSuspect \<and> st \<in> {NODE_STATE_JOINING, NODE_STATE_READY} then NODE_STATE_SUSPECT
      else if name = nodeEventExpire \<and> st \<in> {NODE_STATE_JOINING, NODE_STATE_READY, NODE_STATE_SUSPECT, NODE_STATE_DRAINING,
             NODE_STATE_LEAVING} then NODE_STATE_UNREACHABLE
      else if name = nodeEventTerminal \<and> st \<in> {NODE_STATE_JOINING, NODE_STATE_READY, NODE_STATE_SUSPECT, NODE_STATE_UNREACHABLE,
             NODE_STATE_DRAINING, NODE_STATE_LEAVING} then NODE_STATE_REMOVED
      else if name = nodeEventDrain \<and> st \<in> {NODE_STATE_JOINING, NODE_STATE_READY, NODE_STATE_SUSPECT} then NODE_STATE_DRAINING
      else if name = nodeEventLeave \<and> st \<in> {NODE_STATE_READY, NODE_STATE_SUSPECT, NODE_STATE_DRAINING} then NODE_STATE_LEAVING
      else if name = nodeEventRemove \<and> st \<in> {NODE_STATE_UNREACHABLE, NODE_STATE_LEAVING} then NODE_STATE_REMOVED
      else st)"

lemmas event_names = nodeEventHeartbeat_def nodeEventSuspect_def nodeEventExpire_def
  nodeEventTerminal_def nodeEventDrain_def nodeEventLeave_def nodeEventRemove_def

lemma FormatInt_head: "FormatInt n \<noteq> CHR ''N'' # s"
proof -
  have "hd (nat_digits k) \<noteq> CHR ''N''" for k by (rule hd_nat_digits_ne) code_simp
  then have "nat_digits k \<noteq> CHR ''N'' # s" for k by (metis list.sel(1))
  then show ?thesis by (simp add: FormatInt_def)
qed

lemma event_names_distinct:
  "distinct [nodeEventHeartbeat, nodeEventSuspect, nodeEventExpire, nodeEventTerminal,
     nodeEventDrain, nodeEventLeave, nodeEventRemove]"
  "distinct [nodeEventRemove, nodeEventLeave, nodeEventDrain, nodeEventTerminal,
     nodeEventExpire, nodeEventSuspect, nodeEventHeartbeat]"
  by code_simp+

lemmas event_names_ne = event_names_distinct [simplified]

lemma nodeStateString_eq_iff:
  assumes "st \<noteq> NODE_STATE_UNSPECIFIED" and "c \<in> {NODE_STATE_JOINING, NODE_STATE_READY, NODE_STATE_SUSPECT,
    NODE_STATE_UNREACHABLE, NODE_STATE_DRAINING, NODE_STATE_LEAVING, NODE_STATE_REMOVED}"
  shows "nodeStateString st = nodeStateString c \<longleftrightarrow> st = c" "nodeStateString c = nodeStateString st \<longleftrightarrow> c = st"
  using assms by (cases st; auto simp: nodeStateString_def FormatInt_head FormatInt_head [symmetric])+

lemma nodeStateFromString_String:
  "st \<noteq> NODE_STATE_UNSPECIFIED \<Longrightarrow> (\<And>n. st \<noteq> NODE_STATE_OTHER n) \<Longrightarrow>
    nodeStateFromString (nodeStateString st) = st"
  by (cases st) (auto simp: nodeStateFromString_def nodeStateString_def NodeState_value_def)

lemmas lifecycle_eval = fsm_table_def newNodeLifecycleFSM_def fsm_rows_def lifecycle_next_def Let_def

lemma fsm_table_lifecycle:
  assumes "st \<noteq> NODE_STATE_UNSPECIFIED"
  shows "fsm_table newNodeLifecycleFSM (nodeStateString st) name =
    (lifecycle_next name st = st, nodeStateString (lifecycle_next name st))"
proof -
  consider "name = nodeEventHeartbeat" | "name = nodeEventSuspect" | "name = nodeEventExpire"
    | "name = nodeEventTerminal" | "name = nodeEventDrain" | "name = nodeEventLeave"
    | "name = nodeEventRemove" | "name \<notin> {nodeEventHeartbeat, nodeEventSuspect, nodeEventExpire, nodeEventTerminal,
     nodeEventDrain, nodeEventLeave, nodeEventRemove}" by blast
  then show ?thesis using assms
    by cases (simp_all add: lifecycle_eval nodeStateString_eq_iff event_names_ne)
qed

definition node_wf :: "Node \<Rightarrow> bool" where
  "node_wf n \<longleftrightarrow> nd_State n \<noteq> NODE_STATE_UNSPECIFIED \<and> nd_lifecycle n = Some (nodeStateString (nd_State n))"

lemma lifecycle_next_cases:
  "lifecycle_next name st = st \<or>
    (st \<noteq> NODE_STATE_REMOVED \<and> (\<forall>n. st \<noteq> NODE_STATE_OTHER n) \<and> lifecycle_next name st \<noteq> NODE_STATE_UNSPECIFIED \<and>
     (\<forall>n. lifecycle_next name st \<noteq> NODE_STATE_OTHER n))"
  by (auto simp: lifecycle_next_def)

lemma transition_spec:
  assumes "fsm_documented event" and wf: "node_wf n"
  shows "transition event name n =
    (lifecycle_next name (nd_State n) \<noteq> nd_State n,
     n\<lparr>nd_State := lifecycle_next name (nd_State n),
       nd_lifecycle := Some (nodeStateString (lifecycle_next name (nd_State n)))\<rparr>)"
proof (cases "lifecycle_next name (nd_State n) = nd_State n")
  case False
  then have "nodeStateFromString (nodeStateString (lifecycle_next name (nd_State n))) = lifecycle_next name (nd_State n)"
    using lifecycle_next_cases [of name "nd_State n"] by (intro nodeStateFromString_String) auto
  with assms False show ?thesis
    by (simp add: transition_def ensureLifecycle_def node_wf_def fsm_documented_def fsm_table_lifecycle Let_def)
qed (use assms in \<open>simp add: transition_def ensureLifecycle_def node_wf_def fsm_documented_def fsm_table_lifecycle Let_def\<close>)

lemma lifecycle_next_known: "st \<noteq> NODE_STATE_UNSPECIFIED \<Longrightarrow> lifecycle_next name st \<noteq> NODE_STATE_UNSPECIFIED"
  using lifecycle_next_cases [of name st] by auto

lemma transition_wf:
  "fsm_documented event \<Longrightarrow> node_wf n \<Longrightarrow> node_wf (snd (transition event name n))"
  by (simp add: transition_spec lifecycle_next_known) (simp add: node_wf_def lifecycle_next_known)

lemma setLifecycle_wf: "node_wf (setLifecycle st n)"
  by (simp add: setLifecycle_def node_wf_def Let_def)

section \<open>Loops over the nodes\<close>

lemma over_nodes_changed: "fst (over_nodes f m) \<longleftrightarrow> (\<exists>k n. (k, n) \<in> set m \<and> fst (f n))"
  by (induction m) (force simp: split_beta)+

lemma over_nodes_set:
  "(k, n') \<in> set (snd (over_nodes f m)) \<longleftrightarrow> (\<exists>n. (k, n) \<in> set m \<and> snd (f n) = Some n')"
  by (induction m) (auto simp: split_beta split: option.splits)

lemma over_nodes_gomap: "gomap m \<Longrightarrow> gomap (snd (over_nodes f m))"
proof (induction m)
  case (Cons x m)
  then show ?case
    by (cases x) (force simp: gomap_def split_beta over_nodes_set split: option.splits)
qed simp

lemma over_nodes_unchanged:
  assumes "\<And>k n. (k, n) \<in> set m \<Longrightarrow> \<not> fst (f n) \<Longrightarrow>
      (case snd (f n) of None \<Rightarrow> \<not> P n | Some n' \<Rightarrow> P n' = P n \<and> (P n \<longrightarrow> g n' = g n))"
    and "\<not> fst (over_nodes f m)"
  shows "map (\<lambda>(k, n). (k, g n)) (filter (P \<circ> snd) (snd (over_nodes f m))) =
    map (\<lambda>(k, n). (k, g n)) (filter (P \<circ> snd) m)"
  using assms
proof (induction m)
  case (Cons x m)
  obtain k n where x: "x = (k, n)" by (cases x)
  from Cons.prems(2) have "\<not> fst (f n)" "\<not> fst (over_nodes f m)" by (auto simp: x split_beta)
  with Cons.prems(1) [of k n] Cons.IH Cons.prems(1) show ?case
    by (auto simp: x split_beta split: option.splits)
qed simp

section \<open>Invariant of the cluster state\<close>

definition cluster_wf :: "ClusterState \<Rightarrow> bool" where
  "cluster_wf s \<longleftrightarrow> gomap (cs_nodes s) \<and> i64_range (cs_epoch s) \<and>
     (\<forall>(k, n) \<in> set (cs_nodes s). nd_NodeID n = k \<and> node_wf n)"

text \<open>One call on the cluster state.  A step is taken only while the epoch counter has not reached
  the largest \<^verbatim>\<open>int64\<close>.\<close>

inductive cluster_step :: "fsm_library \<Rightarrow> ClusterState \<Rightarrow> ClusterState \<Rightarrow> bool"
  for event :: fsm_library where
  heartbeat: "cs_epoch s < 2 ^ 63 - 1 \<Longrightarrow> cluster_step event s (snd (ApplyHeartbeat event clock obs s))"
| pods: "cs_epoch s < 2 ^ 63 - 1 \<Longrightarrow>
    cluster_step event s (snd (ApplyPodObservations event clock observations expireAfter now s))"
| prune: "cs_epoch s < 2 ^ 63 - 1 \<Longrightarrow>
    cluster_step event s (snd (PruneExpired event clock suspectAfter expireAfter now s))"
| bump: "i64_range epoch \<Longrightarrow> cluster_step event s (BumpEpochAtLeast epoch s)"

lemma node_wf_update [simp]:
  "node_wf (n\<lparr>nd_PodName := a\<rparr>) = node_wf n" "node_wf (n\<lparr>nd_PodIP := a\<rparr>) = node_wf n"
  "node_wf (n\<lparr>nd_Incarnation := i\<rparr>) = node_wf n" "node_wf (n\<lparr>nd_ProtocolVersion := a\<rparr>) = node_wf n"
  "node_wf (n\<lparr>nd_LastHeartbeat := t\<rparr>) = node_wf n" "node_wf (n\<lparr>nd_LastPodSeen := t\<rparr>) = node_wf n"
  "node_wf (n\<lparr>nd_PodReady := b\<rparr>) = node_wf n" "node_wf (n\<lparr>nd_PodPhase := a\<rparr>) = node_wf n"
  by (simp_all add: node_wf_def)

lemma node_wf_ensure [simp]: "node_wf n \<Longrightarrow> ensureLifecycle n = n"
  by (simp add: ensureLifecycle_def node_wf_def)

definition heartbeat_event :: "NodeState \<Rightarrow> string" where
  "heartbeat_event st = (if st = NODE_STATE_DRAINING then nodeEventDrain
     else if st = NODE_STATE_LEAVING then nodeEventLeave
     else if st = NODE_STATE_REMOVED then nodeEventRemove else nodeEventHeartbeat)"

lemma applyHeartbeatState_eq:
  "node_wf n \<Longrightarrow> applyHeartbeatState event st n = transition event (heartbeat_event st) n"
  by (cases st) (simp_all add: applyHeartbeatState_def heartbeat_event_def)

lemma transition_id [simp]:
  assumes "fsm_documented event" "node_wf n"
  shows "nd_NodeID (snd (transition event name n)) = nd_NodeID n"
  using assms by (simp add: transition_spec)

lemma setLifecycle_id [simp]: "nd_NodeID (setLifecycle st n) = nd_NodeID n"
  by (simp add: setLifecycle_def Let_def)

lemma cluster_wf_node: "cluster_wf s \<Longrightarrow> map_of (cs_nodes s) k = Some n \<Longrightarrow> node_wf n \<and> nd_NodeID n = k"
  by (auto simp: cluster_wf_def dest: map_of_SomeD)

lemma cluster_wf_update:
  assumes "cluster_wf s" "node_wf n" "nd_NodeID n = k" "i64_range e"
  shows "cluster_wf (s\<lparr>cs_nodes := AList.update k n (cs_nodes s), cs_epoch := e\<rparr>)"
proof -
  have "node_wf n' \<and> nd_NodeID n' = k'" if "(k', n') \<in> set (AList.update k n (cs_nodes s))" for k' n'
  proof -
    from assms(1) have "gomap (AList.update k n (cs_nodes s))" by (simp add: cluster_wf_def)
    then have "map_of (AList.update k n (cs_nodes s)) k' = Some n'" using that by (simp add: gomap_in)
    then have "((map_of (cs_nodes s))(k \<mapsto> n)) k' = Some n'" by (simp add: update_conv')
    then show ?thesis using assms cluster_wf_node by (cases "k' = k") auto
  qed
  with assms show ?thesis by (auto simp: cluster_wf_def)
qed

lemma observe_node_wf:
  assumes "fsm_documented event" "node_wf n" "snd (observe_node event obs e now n) = Some n'"
  shows "node_wf n' \<and> nd_NodeID n' = nd_NodeID n"
  using assms transition_wf [OF assms(1,2), of nodeEventTerminal]
    transition_id [OF assms(1,2), of nodeEventTerminal]
  by (auto simp: observe_node_def Let_def split_beta split: option.splits if_splits)

lemma prune_node_wf:
  assumes doc: "fsm_documented event" and "node_wf n" "snd (prune_node event sa e now n) = Some n'"
  shows "node_wf n' \<and> nd_NodeID n' = nd_NodeID n"
proof -
  let ?n = "snd (transition event nodeEventExpire n)"
  have "node_wf ?n" "nd_NodeID ?n = nd_NodeID n" using assms by (simp_all add: transition_wf)
  moreover have "node_wf (snd (transition event nodeEventRemove ?n))"
    "nd_NodeID (snd (transition event nodeEventRemove ?n)) = nd_NodeID n"
    using calculation doc by (simp_all add: transition_wf)
  moreover have "node_wf (snd (transition event nodeEventSuspect n))" using assms by (simp add: transition_wf)
  ultimately show ?thesis
    using assms by (auto simp: prune_node_def Let_def split_beta split: if_splits)
qed

lemma over_nodes_wf:
  assumes "cluster_wf s" "i64_range e"
    and "\<And>n n'. node_wf n \<Longrightarrow> snd (f n) = Some n' \<Longrightarrow> node_wf n' \<and> nd_NodeID n' = nd_NodeID n"
  shows "cluster_wf (s\<lparr>cs_nodes := snd (over_nodes f (cs_nodes s)), cs_epoch := e\<rparr>)"
proof -
  have "nd_NodeID n' = k \<and> node_wf n'" if "(k, n') \<in> set (snd (over_nodes f (cs_nodes s)))" for k n'
  proof -
    obtain n where "(k, n) \<in> set (cs_nodes s)" "snd (f n) = Some n'" using \<open>_ \<in> _\<close> over_nodes_set by metis
    with assms(1) assms(3) [of n n'] show ?thesis by (auto simp: cluster_wf_def)
  qed
  with assms(1,2) show ?thesis by (auto simp: cluster_wf_def over_nodes_gomap)
qed

text \<open>The two loops share their frame: the flag moves the epoch.\<close>

definition sweep :: "(Node \<Rightarrow> bool \<times> Node option) \<Rightarrow> ClusterState \<Rightarrow> bool \<times> ClusterState" where
  "sweep f s = (fst (over_nodes f (cs_nodes s)),
     s\<lparr>cs_nodes := snd (over_nodes f (cs_nodes s)),
       cs_epoch := if fst (over_nodes f (cs_nodes s)) then i64 (cs_epoch s + 1) else cs_epoch s\<rparr>)"

lemma ApplyPodObservations_sweep:
  "ApplyPodObservations event clock observations e now s =
    sweep (observe_node event observations e (if now = zero_time then clock else now)) s"
  by (simp add: ApplyPodObservations_def sweep_def Let_def split_beta)

lemma PruneExpired_sweep:
  "PruneExpired event clock sa e now s =
    sweep (prune_node event sa e (if now = zero_time then clock else now)) s"
  by (simp add: PruneExpired_def sweep_def Let_def split_beta)

lemma sweep_wf:
  assumes "cluster_wf s"
    and "\<And>n n'. node_wf n \<Longrightarrow> snd (f n) = Some n' \<Longrightarrow> node_wf n' \<and> nd_NodeID n' = nd_NodeID n"
  shows "cluster_wf (snd (sweep f s))"
proof -
  have "i64_range (if c then i64 (cs_epoch s + 1) else cs_epoch s)" for c
    using assms(1) by (simp add: cluster_wf_def i64_in_range)
  from over_nodes_wf [OF assms(1) this assms(2)] show ?thesis by (simp add: sweep_def)
qed

text \<open>What a heartbeat does to the node it names.\<close>

abbreviation seen_at :: "time \<Rightarrow> HeartbeatObservation \<Rightarrow> time" where
  "seen_at clock obs \<equiv> (if ho_SeenAt obs = zero_time then clock else ho_SeenAt obs)"

abbreviation reported :: "HeartbeatObservation \<Rightarrow> NodeState" where
  "reported obs \<equiv> (if ho_ReportedState obs = NODE_STATE_UNSPECIFIED then NODE_STATE_READY else ho_ReportedState obs)"

definition node_face :: "Node \<Rightarrow> string \<times> string \<times> int64 \<times> NodeState \<times> string \<times> bool \<times> string" where
  "node_face n = (nd_PodName n, nd_PodIP n, nd_Incarnation n, nd_State n, nd_ProtocolVersion n,
     nd_PodReady n, nd_PodPhase n)"

definition refreshed :: "fsm_library \<Rightarrow> time \<Rightarrow> HeartbeatObservation \<Rightarrow> Node \<Rightarrow> Node" where
  "refreshed event clock obs n =
     (let n' = n\<lparr>nd_PodName := ho_PodName obs, nd_PodIP := ho_PodIP obs, nd_Incarnation := ho_Incarnation obs,
        nd_ProtocolVersion := ho_ProtocolVersion obs, nd_LastHeartbeat := seen_at clock obs\<rparr>
      in if nd_Incarnation n < ho_Incarnation obs then setLifecycle (reported obs) n'
         else snd (transition event (heartbeat_event (reported obs)) n'))"

definition first_seen :: "time \<Rightarrow> HeartbeatObservation \<Rightarrow> Node" where
  "first_seen clock obs = setLifecycle (reported obs)
     \<lparr>nd_NodeID = ho_NodeID obs, nd_PodName = ho_PodName obs, nd_PodIP = ho_PodIP obs,
      nd_Incarnation = ho_Incarnation obs, nd_State = NODE_STATE_UNSPECIFIED,
      nd_ProtocolVersion = ho_ProtocolVersion obs, nd_LastHeartbeat = seen_at clock obs,
      nd_LastPodSeen = zero_time, nd_PodReady = False, nd_PodPhase = '''', nd_lifecycle = None\<rparr>"

lemma first_seen_face:
  "node_wf (first_seen clock obs)" "nd_NodeID (first_seen clock obs) = ho_NodeID obs"
  "nd_Incarnation (first_seen clock obs) = ho_Incarnation obs" "nd_State (first_seen clock obs) = reported obs"
  "nd_LastHeartbeat (first_seen clock obs) = seen_at clock obs"
  by (simp_all add: first_seen_def setLifecycle_wf) (simp_all add: setLifecycle_def Let_def)

lemma ApplyHeartbeat_new:
  assumes "map_of (cs_nodes s) (ho_NodeID obs) = None"
  shows "ApplyHeartbeat event clock obs s = (\<lparr>hr_Changed = True, hr_Stale = False\<rparr>,
      s\<lparr>cs_nodes := AList.update (ho_NodeID obs) (first_seen clock obs) (cs_nodes s),
        cs_epoch := i64 (cs_epoch s + 1)\<rparr>)"
  using assms by (simp add: ApplyHeartbeat_def Let_def first_seen_def)

lemma ApplyHeartbeat_stale:
  assumes "map_of (cs_nodes s) (ho_NodeID obs) = Some n" "ho_Incarnation obs < nd_Incarnation n"
  shows "ApplyHeartbeat event clock obs s = (\<lparr>hr_Changed = False, hr_Stale = True\<rparr>, s)"
  using assms by (simp add: ApplyHeartbeat_def Let_def)

lemma refreshed_face:
  assumes "fsm_documented event" "node_wf n"
  shows "node_wf (refreshed event clock obs n)" "nd_NodeID (refreshed event clock obs n) = nd_NodeID n"
    "nd_Incarnation (refreshed event clock obs n) = ho_Incarnation obs"
    "nd_LastHeartbeat (refreshed event clock obs n) = seen_at clock obs"
  using assms by (auto simp: refreshed_def Let_def setLifecycle_wf transition_wf)
    (auto simp: setLifecycle_def transition_spec Let_def)

lemma ApplyHeartbeat_known:
  assumes "map_of (cs_nodes s) (ho_NodeID obs) = Some n" "nd_Incarnation n \<le> ho_Incarnation obs"
    and "fsm_documented event" "node_wf n"
  shows "ApplyHeartbeat event clock obs s =
     (\<lparr>hr_Changed = node_face (refreshed event clock obs n) \<noteq> node_face n, hr_Stale = False\<rparr>,
      s\<lparr>cs_nodes := AList.update (ho_NodeID obs) (refreshed event clock obs n) (cs_nodes s),
        cs_epoch := if node_face (refreshed event clock obs n) \<noteq> node_face n
          then i64 (cs_epoch s + 1) else cs_epoch s\<rparr>)"
proof (cases "nd_Incarnation n < ho_Incarnation obs")
  case True
  then have "node_face (refreshed event clock obs n) \<noteq> node_face n"
    by (simp add: refreshed_def node_face_def setLifecycle_def Let_def)
  with True assms show ?thesis by (simp add: ApplyHeartbeat_def Let_def refreshed_def)
next
  case False
  with assms(2) have inc: "ho_Incarnation obs = nd_Incarnation n" by simp
  show ?thesis using assms(1,3,4)
    by (simp add: ApplyHeartbeat_def Let_def inc refreshed_def applyHeartbeatState_eq transition_spec
        split_beta node_face_def)
qed

lemma heartbeat_wf:
  assumes "fsm_documented event" "cluster_wf s"
  shows "cluster_wf (snd (ApplyHeartbeat event clock obs s))"
proof (cases "map_of (cs_nodes s) (ho_NodeID obs)")
  case None
  then show ?thesis using assms
    by (simp add: ApplyHeartbeat_new i64_in_range cluster_wf_update first_seen_face)
next
  case (Some n)
  with assms(2) have n: "node_wf n" "nd_NodeID n = ho_NodeID obs" by (auto dest: cluster_wf_node)
  have r: "i64_range (if c then i64 (cs_epoch s + 1) else cs_epoch s)" for c
    using assms(2) by (simp add: cluster_wf_def i64_in_range)
  show ?thesis
  proof (cases "ho_Incarnation obs < nd_Incarnation n")
    case True
    with Some assms show ?thesis by (simp add: ApplyHeartbeat_stale)
  next
    case False
    then show ?thesis
      using cluster_wf_update [OF assms(2) _ _ r] refreshed_face [OF assms(1) n(1)] n(2)
      by (simp add: ApplyHeartbeat_known [OF Some _ assms(1) n(1)] del: if_split)
  qed
qed

lemma step_wf:
  assumes "cluster_step event s s'" and doc: "fsm_documented event" and wf: "cluster_wf s"
  shows "cluster_wf s'"
  using assms(1)
proof cases
  case (heartbeat clock obs)
  then show ?thesis using heartbeat_wf doc wf by simp
next
  case (pods clock observations e now)
  then show ?thesis using observe_node_wf [OF doc] sweep_wf [OF wf]
    by (simp add: ApplyPodObservations_sweep del: if_split)
next
  case (prune clock sa e now)
  then show ?thesis using prune_node_wf [OF doc] sweep_wf [OF wf]
    by (simp add: PruneExpired_sweep del: if_split)
next
  case (bump epoch)
  then show ?thesis using wf by (auto simp: BumpEpochAtLeast_def cluster_wf_def)
qed

section \<open>What the epoch stands for\<close>

definition visible :: "Node \<Rightarrow> bool" where
  "visible n \<longleftrightarrow> nd_State n \<noteq> NODE_STATE_REMOVED \<and> nd_State n \<noteq> NODE_STATE_UNREACHABLE"

text \<open>The cluster as published: the nodes that are neither removed nor unreachable, without the
  times of their heartbeats.\<close>

definition published :: "ClusterState \<Rightarrow> (string \<times> string \<times> string \<times> int64 \<times> NodeState \<times> string \<times> bool \<times> string) list" where
  "published s = map (\<lambda>(k, n). (k, node_face n)) (filter (visible \<circ> snd) (cs_nodes s))"

lemma visible_face: "node_face n' = node_face n \<Longrightarrow> visible n' = visible n"
  by (simp add: node_face_def visible_def)

lemma published_update:
  assumes "map_of m k = Some n" "node_face n' = node_face n"
  shows "map (\<lambda>(k, n). (k, node_face n)) (filter (visible \<circ> snd) (AList.update k n' m)) =
    map (\<lambda>(k, n). (k, node_face n)) (filter (visible \<circ> snd) m)"
  using assms visible_face [OF assms(2)] by (induction m) (auto split: if_splits)

lemma observe_node_unchanged:
  assumes doc: "fsm_documented event" and wf: "node_wf n" and u: "\<not> fst (observe_node event obs e now n)"
  shows "\<exists>n'. snd (observe_node event obs e now n) = Some n' \<and> node_face n' = node_face n"
  using u unfolding observe_node_def Let_def transition_spec [OF doc wf]
  by (auto simp: node_face_def split_beta split: option.splits if_splits)

lemma prune_node_spec:
  assumes doc: "fsm_documented event" and wf: "node_wf n"
  shows "prune_node event sa e now n =
    (if time_sub now (nd_LastHeartbeat n) > e then
       (if \<exists>c. nd_State n = NODE_STATE_OTHER c then (False, Some n)
        else (nd_State n \<noteq> NODE_STATE_REMOVED, None))
     else if time_sub now (nd_LastHeartbeat n) > sa \<and> nd_State n \<in> {NODE_STATE_JOINING, NODE_STATE_READY}
       then (True, Some (setLifecycle NODE_STATE_SUSPECT n))
     else (False, Some n))"
proof -
  have same: "n\<lparr>nd_State := st, nd_lifecycle := Some (nodeStateString st)\<rparr> = n" if "nd_State n = st" for st
    using wf that by (auto simp: node_wf_def)
  show ?thesis using wf
    by (cases "nd_State n")
       (simp_all add: prune_node_def Let_def split_beta transition_spec [OF doc]
         lifecycle_next_def event_names_ne setLifecycle_def same node_wf_def)
qed

lemma cluster_wf_member: "cluster_wf s \<Longrightarrow> (k, n) \<in> set (cs_nodes s) \<Longrightarrow> node_wf n \<and> nd_NodeID n = k"
  by (auto simp: cluster_wf_def)

lemma sweep_published:
  assumes "cluster_wf s" "\<not> fst (sweep f s)"
    and "\<And>n. node_wf n \<Longrightarrow> \<not> fst (f n) \<Longrightarrow>
      (case snd (f n) of None \<Rightarrow> \<not> visible n | Some n' \<Rightarrow> node_face n' = node_face n)"
  shows "published (snd (sweep f s)) = published s"
proof -
  have face: "case snd (f n) of None \<Rightarrow> \<not> visible n | Some n' \<Rightarrow> visible n' = visible n \<and> (visible n \<longrightarrow> node_face n' = node_face n)"
    if "(k, n) \<in> set (cs_nodes s)" "\<not> fst (f n)" for k n
  proof -
    from cluster_wf_member [OF assms(1) that(1)] have "node_wf n" by simp
    from assms(3) [OF this that(2)] show ?thesis
      using visible_face [of "the (snd (f n))" n] by (cases "snd (f n)") simp_all
  qed
  have "\<not> fst (over_nodes f (cs_nodes s))" using assms(2) by (simp add: sweep_def)
  from over_nodes_unchanged [where f = f and P = visible and g = node_face and m = "cs_nodes s", OF face this] show ?thesis
    by (simp add: sweep_def published_def)
qed

lemma sweep_epoch:
  assumes "cluster_wf s" "cs_epoch s < 2 ^ 63 - 1"
  shows "cs_epoch (snd (sweep f s)) = cs_epoch s + (if fst (sweep f s) then 1 else 0)"
  using assms by (simp add: sweep_def cluster_wf_def i64_id i64_range_def)

lemma heartbeat_epoch:
  fixes clock :: time and obs :: HeartbeatObservation
  assumes "fsm_documented event" "cluster_wf s" "cs_epoch s < 2 ^ 63 - 1"
  defines "r \<equiv> ApplyHeartbeat event clock obs s"
  shows "cs_epoch (snd r) = cs_epoch s + (if hr_Changed (fst r) then 1 else 0) \<and>
    (\<not> hr_Changed (fst r) \<longrightarrow> published (snd r) = published s)"
proof -
  have inc: "i64 (cs_epoch s + 1) = cs_epoch s + 1"
    using assms(2,3) by (simp add: cluster_wf_def i64_id i64_range_def)
  show ?thesis
  proof (cases "map_of (cs_nodes s) (ho_NodeID obs)")
    case None
    then show ?thesis by (simp add: r_def ApplyHeartbeat_new inc)
  next
    case (Some n)
    with assms(2) have n: "node_wf n" by (auto dest: cluster_wf_node)
    show ?thesis
      using ApplyHeartbeat_stale [OF Some] ApplyHeartbeat_known [OF Some _ assms(1) n]
        published_update [OF Some] inc
      by (cases "ho_Incarnation obs < nd_Incarnation n") (simp_all add: r_def published_def)
  qed
qed

lemma step_epoch:
  assumes "cluster_step event s s'" and doc: "fsm_documented event" and wf: "cluster_wf s"
  shows "cs_epoch s \<le> cs_epoch s' \<and> (cs_epoch s = cs_epoch s' \<longrightarrow> published s' = published s)"
  using assms(1)
proof cases
  case (heartbeat clock obs)
  with heartbeat_epoch [OF doc wf heartbeat(2), of clock obs] show ?thesis by auto
next
  case (pods clock observations e now)
  have "published (snd (sweep f s)) = published s"
    if "\<not> fst (sweep f s)" "f = observe_node event observations e t" for f t
    using observe_node_unchanged [OF doc] that by (intro sweep_published [OF wf]) fastforce+
  with pods sweep_epoch [OF wf pods(2)] show ?thesis by (simp add: ApplyPodObservations_sweep)
next
  case (prune clock sa e now)
  have "published (snd (sweep f s)) = published s"
    if "\<not> fst (sweep f s)" "f = prune_node event sa e t" for f t
    using that by (intro sweep_published [OF wf])
      (auto simp: prune_node_spec [OF doc] visible_def split: if_splits)
  with prune sweep_epoch [OF wf prune(2)] show ?thesis by (simp add: PruneExpired_sweep)
next
  case (bump epoch)
  then show ?thesis by (auto simp: BumpEpochAtLeast_def published_def)
qed

lemma run_wf:
  "(cluster_step event)\<^sup>*\<^sup>* s s' \<Longrightarrow> fsm_documented event \<Longrightarrow> cluster_wf s \<Longrightarrow> cluster_wf s'"
  by (induction rule: rtranclp_induct) (auto intro: step_wf)

lemma run_epoch:
  assumes "(cluster_step event)\<^sup>*\<^sup>* s s'" "fsm_documented event" "cluster_wf s"
  shows "cs_epoch s \<le> cs_epoch s' \<and> (cs_epoch s = cs_epoch s' \<longrightarrow> published s' = published s)"
  using assms(1)
proof (induction rule: rtranclp_induct)
  case (step t u)
  have "cluster_wf t" using run_wf step assms by blast
  with step_epoch [OF step(2) assms(2)] step.IH show ?case by auto
qed simp

lemma New_wf: "cluster_wf NewClusterState"
  by (simp add: cluster_wf_def NewClusterState_def i64_range_def)

lemma fsm_table_documented: "fsm_documented fsm_table"
  by (simp add: fsm_documented_def)

section \<open>Properties of the cluster state\<close>

definition demo_beat :: "string \<Rightarrow> int64 \<Rightarrow> time \<Rightarrow> HeartbeatObservation" where
  "demo_beat node inc t = \<lparr>ho_NodeID = node, ho_PodName = node, ho_PodIP = ''10.0.0.1'',
     ho_Incarnation = inc, ho_ReportedState = NODE_STATE_READY, ho_ProtocolVersion = ''v1'', ho_SeenAt = t\<rparr>"

definition demo_cluster :: ClusterState where
  "demo_cluster = snd (ApplyHeartbeat fsm_table 0 (demo_beat ''b'' 7 (5 * second))
     (snd (ApplyHeartbeat fsm_table 0 (demo_beat ''a'' 3 (1 * second)) NewClusterState)))"

lemma demo_cluster_reached: "(cluster_step fsm_table)\<^sup>*\<^sup>* NewClusterState demo_cluster"
proof -
  let ?s = "snd (ApplyHeartbeat fsm_table 0 (demo_beat ''a'' 3 (1 * second)) NewClusterState)"
  have "cluster_step fsm_table NewClusterState ?s"
    by (rule cluster_step.heartbeat) (simp add: NewClusterState_def)
  moreover have "cluster_step fsm_table ?s demo_cluster"
    unfolding demo_cluster_def by (rule cluster_step.heartbeat) code_simp
  ultimately show ?thesis by (meson rtranclp.rtrancl_refl rtranclp.rtrancl_into_rtrancl)
qed



lemma map_of_over_nodes:
  "gomap m \<Longrightarrow> map_of (snd (over_nodes f m)) k =
    (case map_of m k of None \<Rightarrow> None | Some n \<Rightarrow> snd (f n))"
proof (induction m arbitrary: k)
  case (Cons x m)
  obtain a n where x: "x = (a, n)" by (cases x)
  from Cons.prems have m: "gomap m" and "map_of m a = None" by (auto simp: gomap_def x map_of_eq_None_iff)
  then have "map_of (snd (over_nodes f m)) a = None" using Cons.IH by simp
  with Cons.IH [OF m] show ?case by (auto simp: x split_beta split: option.splits)
qed simp

text \<open>C29. Pruning, node by node: a node whose last heartbeat is older than \<^verbatim>\<open>expireAfter\<close> is
  deleted, a joining or ready node older than \<^verbatim>\<open>suspectAfter\<close> becomes suspect, every other node
  is kept as it is; the call reports a change exactly when a node that was not removed already is
  deleted or a node becomes suspect, and the epoch moves by one exactly then.  A node that reported
  a state number without a name is never deleted.\<close>

theorem prune_expired_exact:
  assumes "fsm_documented event" and "cluster_wf s" and "now \<noteq> zero_time" and "cs_epoch s < 2 ^ 63 - 1"
    and "PruneExpired event clock suspectAfter expireAfter now s = (changed, s')"
  defines "age n \<equiv> time_sub now (nd_LastHeartbeat n)"
    and "unnamed n \<equiv> (\<exists>c. nd_State n = NODE_STATE_OTHER c)"
    and "fresh n \<equiv> nd_State n \<in> {NODE_STATE_JOINING, NODE_STATE_READY}"
  shows "(\<forall>k. map_of (cs_nodes s') k =
      (case map_of (cs_nodes s) k of
         None \<Rightarrow> None
       | Some n \<Rightarrow> if age n > expireAfter then (if unnamed n then Some n else None)
           else if age n > suspectAfter \<and> fresh n then Some (setLifecycle NODE_STATE_SUSPECT n)
           else Some n)) \<and>
    changed = (\<exists>k n. map_of (cs_nodes s) k = Some n \<and>
      (if age n > expireAfter then \<not> unnamed n \<and> nd_State n \<noteq> NODE_STATE_REMOVED
       else age n > suspectAfter \<and> fresh n)) \<and>
    cs_epoch s' = cs_epoch s + (if changed then 1 else 0)"
proof -
  let ?f = "prune_node event suspectAfter expireAfter now"
  have eq: "sweep ?f s = (changed, s')" using assms(3,5) by (simp add: PruneExpired_sweep)
  have gm: "gomap (cs_nodes s)" using assms(2) by (simp add: cluster_wf_def)
  have nodes: "cs_nodes s' = snd (over_nodes ?f (cs_nodes s))" using eq by (auto simp: sweep_def)
  have changed: "changed = (\<exists>k n. map_of (cs_nodes s) k = Some n \<and> fst (?f n))"
    using eq gm by (auto simp: sweep_def over_nodes_changed gomap_in)
  have epoch: "cs_epoch s' = cs_epoch s + (if changed then 1 else 0)"
    using sweep_epoch [OF assms(2,4), of ?f] eq by simp
  have f: "fst (?f n) = (if age n > expireAfter then \<not> unnamed n \<and> nd_State n \<noteq> NODE_STATE_REMOVED
       else age n > suspectAfter \<and> fresh n)" "snd (?f n) =
       (if age n > expireAfter then (if unnamed n then Some n else None)
           else if age n > suspectAfter \<and> fresh n then Some (setLifecycle NODE_STATE_SUSPECT n)
           else Some n)" if "map_of (cs_nodes s) k = Some n" for k n
    unfolding prune_node_spec [OF assms(1) cluster_wf_node [OF assms(2) that, THEN conjunct1]]
    by (auto simp: age_def unnamed_def fresh_def)
  show ?thesis
  proof (intro conjI allI)
    fix k
    show "map_of (cs_nodes s') k =
      (case map_of (cs_nodes s) k of
         None \<Rightarrow> None
       | Some n \<Rightarrow> if age n > expireAfter then (if unnamed n then Some n else None)
           else if age n > suspectAfter \<and> fresh n then Some (setLifecycle NODE_STATE_SUSPECT n)
           else Some n)"
      by (cases "map_of (cs_nodes s) k") (simp_all only: nodes map_of_over_nodes [OF gm] f option.case)
  qed (use changed f(1) epoch in \<open>metis+\<close>)
qed

theorem prune_expired_exact_witness:
  "let (changed, s') = PruneExpired fsm_table 0 (10 * second) (30 * second) (33 * second) demo_cluster
   in changed \<and> map_of (cs_nodes s') ''a'' = None \<and>
      map_option nd_State (map_of (cs_nodes s') ''b'') = Some NODE_STATE_SUSPECT \<and> cs_epoch s' = 3"
proof -
  obtain changed s' where eq: "PruneExpired fsm_table 0 (10 * second) (30 * second) (33 * second) demo_cluster = (changed, s')"
    by fastforce
  have "cs_epoch demo_cluster < 2 ^ 63 - 1" "(33 * second :: time) \<noteq> zero_time" by code_simp+
  note * = prune_expired_exact [OF fsm_table_documented run_wf [OF demo_cluster_reached fsm_table_documented New_wf]
      this(2,1) eq]
  have a: "map_of (cs_nodes demo_cluster) ''a'' = Some (first_seen 0 (demo_beat ''a'' 3 (1 * second)))"
    "map_of (cs_nodes demo_cluster) ''b'' = Some (first_seen 0 (demo_beat ''b'' 7 (5 * second)))"
    "cs_epoch demo_cluster = 2"
    by code_simp+
  have t: "time_sub (33 * second) (1 * second) > 30 * second" "\<not> time_sub (33 * second) (5 * second) > 30 * second"
    "time_sub (33 * second) (5 * second) > 10 * second" "(1 * second :: time) \<noteq> zero_time" "(5 * second :: time) \<noteq> zero_time"
    by code_simp+
  have ch: "changed" unfolding * [THEN conjunct2, THEN conjunct1]
    by (rule exI [of _ "''a''"], rule exI, rule conjI [OF a(1)]) (use t in \<open>simp add: first_seen_face demo_beat_def\<close>)
  have "map_of (cs_nodes s') ''a'' = None"
    using * [THEN conjunct1, THEN spec, of "''a''"] a(1) t by (simp add: first_seen_face demo_beat_def)
  moreover have "map_of (cs_nodes s') ''b'' = Some (setLifecycle NODE_STATE_SUSPECT (first_seen 0 (demo_beat ''b'' 7 (5 * second))))"
    using * [THEN conjunct1, THEN spec, of "''b''"] a(2) t by (simp add: first_seen_face demo_beat_def)
  moreover have "cs_epoch s' = 3" using * [THEN conjunct2, THEN conjunct2] a(3) ch by simp
  ultimately show ?thesis using ch unfolding eq Let_def by (simp add: setLifecycle_def)
qed

lemma heartbeat_keeps:
  assumes doc: "fsm_documented event" and wf: "cluster_wf s" and k: "map_of (cs_nodes s) k = Some n"
    and k': "map_of (cs_nodes (snd (ApplyHeartbeat event clock obs s))) k = Some n'"
  shows "nd_Incarnation n \<le> nd_Incarnation n' \<and>
    (nd_State n = NODE_STATE_REMOVED \<longrightarrow> nd_Incarnation n' = nd_Incarnation n \<longrightarrow> nd_State n' = NODE_STATE_REMOVED)"
proof (cases "ho_NodeID obs = k \<and> nd_Incarnation n \<le> ho_Incarnation obs")
  case True
  note n = cluster_wf_node [OF wf k, THEN conjunct1]
  have "n' = refreshed event clock obs n"
    using True k k' ApplyHeartbeat_known [OF _ _ doc n, of s obs clock] by (simp add: update_conv')
  moreover have "nd_State (refreshed event clock obs n) = NODE_STATE_REMOVED"
    if "nd_State n = NODE_STATE_REMOVED" "ho_Incarnation obs = nd_Incarnation n"
    using n that by (simp add: refreshed_def Let_def transition_spec [OF doc] lifecycle_next_def)
  ultimately show ?thesis
    using True refreshed_face(3) [OF doc n, of clock obs] by simp
next
  case False
  have "map_of (cs_nodes (snd (ApplyHeartbeat event clock obs s))) k = Some n"
  proof (cases "map_of (cs_nodes s) (ho_NodeID obs)")
    case None
    with k have "ho_NodeID obs \<noteq> k" by auto
    with None k show ?thesis by (simp add: ApplyHeartbeat_new update_conv')
  next
    case (Some m)
    show ?thesis
    proof (cases "ho_Incarnation obs < nd_Incarnation m")
      case True
      with Some k show ?thesis by (simp add: ApplyHeartbeat_stale)
    next
      case le: False
      with False k Some have "ho_NodeID obs \<noteq> k" by auto
      then show ?thesis
        using le k ApplyHeartbeat_known [OF Some _ doc cluster_wf_node [OF wf Some, THEN conjunct1], of clock]
        by (simp add: update_conv')
    qed
  qed
  with k' show ?thesis by simp
qed

lemma lifecycle_next_removed: "lifecycle_next name NODE_STATE_REMOVED = NODE_STATE_REMOVED"
  by (simp add: lifecycle_next_def)

lemma observe_node_keeps:
  assumes "fsm_documented event" "node_wf n" "snd (observe_node event obs e now n) = Some n'"
  shows "nd_Incarnation n' = nd_Incarnation n \<and>
    (nd_State n = NODE_STATE_REMOVED \<longrightarrow> nd_State n' = NODE_STATE_REMOVED)"
  using assms(3) unfolding observe_node_def Let_def transition_spec [OF assms(1,2)]
  by (auto simp: split_beta lifecycle_next_removed split: option.splits if_splits)

lemma map_option_SomeE: "map_option f x = Some y \<Longrightarrow> (\<And>z. x = Some z \<Longrightarrow> f z = y \<Longrightarrow> P) \<Longrightarrow> P"
  by auto



text \<open>C31. The member list of a reachable cluster is strictly ordered by node identifier, and holds
  exactly the nodes whose last heartbeat is not older than \<^verbatim>\<open>expireAfter\<close> and that are neither
  removed nor unreachable.\<close>

theorem members_exact:
  assumes "fsm_documented event" and "(cluster_step event)\<^sup>*\<^sup>* NewClusterState s" and "now \<noteq> zero_time"
  shows "sorted_wrt (\<lambda>a b. mb_node_id a < mb_node_id b) (fst (Members clock expireAfter now s)) \<and>
    (\<forall>k. (\<exists>m \<in> set (fst (Members clock expireAfter now s)). mb_node_id m = k) \<longleftrightarrow>
      (case map_of (cs_nodes s) k of None \<Rightarrow> False
       | Some n \<Rightarrow> time_sub now (nd_LastHeartbeat n) \<le> expireAfter \<and>
           nd_State n \<notin> {NODE_STATE_REMOVED, NODE_STATE_UNREACHABLE}))"
proof -
  have wf: "cluster_wf s" by (rule run_wf [OF assms(2,1) New_wf])
  let ?ms = "map member_of_node (filter (listed expireAfter now) (map snd (cs_nodes s)))"
  have ids: "map mb_node_id ?ms = map fst (filter (listed expireAfter now \<circ> snd) (cs_nodes s))"
    using wf by (auto simp: filter_map o_def member_of_node_def cluster_wf_def intro!: map_cong)
  have "distinct (map mb_node_id ?ms)"
    unfolding ids using wf by (simp add: cluster_wf_def gomap_def distinct_map_filter)
  then have "sorted_wrt (\<lambda>a b. mb_node_id a < mb_node_id b) (sort_key mb_node_id ?ms)"
    by (rule sort_key_strict)
  moreover have "(\<exists>m \<in> set ?ms. mb_node_id m = k) \<longleftrightarrow> k \<in> set (map mb_node_id ?ms)" for k by auto
  moreover have "k \<in> set (map mb_node_id ?ms) \<longleftrightarrow> (case map_of (cs_nodes s) k of None \<Rightarrow> False
       | Some n \<Rightarrow> listed expireAfter now n)" for k
  proof -
    have "k \<in> set (map mb_node_id ?ms) \<longleftrightarrow> (\<exists>n. (k, n) \<in> set (cs_nodes s) \<and> listed expireAfter now n)"
      unfolding ids by force
    then show ?thesis using wf by (simp add: cluster_wf_def gomap_in split: option.split)
  qed
  ultimately show ?thesis
    using assms(3) by (auto simp: Members_def listed_def split: option.splits)
qed

theorem members_exact_witness:
  "sorted_wrt (\<lambda>a b. mb_node_id a < mb_node_id b) (fst (Members 0 (30 * second) (6 * second) demo_cluster)) \<and>
   map mb_node_id (fst (Members 0 (30 * second) (6 * second) demo_cluster)) = [''a'', ''b'']"
proof -
  have "(6 * second :: time) \<noteq> zero_time" by code_simp
  from members_exact [OF fsm_table_documented demo_cluster_reached this, of 0 "30 * second"]
  have "sorted_wrt (\<lambda>a b. mb_node_id a < mb_node_id b) (fst (Members 0 (30 * second) (6 * second) demo_cluster))"
    by (rule conjunct1)
  moreover have "map mb_node_id (fst (Members 0 (30 * second) (6 * second) demo_cluster)) = [''a'', ''b'']"
    by code_simp
  ultimately show ?thesis by (rule conjI)
qed

end
