(* ===== verification/Epoch_Store.thy ===== *)
theory Epoch_Store
  imports Topology_Types Go_Strconv
begin

text \<open>
  The durable counters of the watchdog: the topology epoch and the watchdog generation, kept in a
  Kubernetes ConfigMap (\<^verbatim>\<open>internal/watchdog/epoch_store.go\<close>), and the health status the watchdog
  reports (\<^verbatim>\<open>internal/watchdog/health.go\<close>).  The Kubernetes client is an argument \<open>cl\<close> on an
  abstract state of the API server; \<open>optimistic\<close> states its documented optimistic concurrency, with
  other clients at work between the calls.
\<close>

section \<open>The client\<close>

datatype k8s_error = NotFound | AlreadyExists | Conflict | OtherError string

record ConfigMap =
  cm_Namespace :: string
  cm_Name :: string
  cm_ResourceVersion :: nat
  cm_Data :: "(string \<times> string) list option"

type_synonym namespaced_name = "string \<times> string"

record 'k k8s_client =
  k_Get :: "namespaced_name \<Rightarrow> 'k \<Rightarrow> (k8s_error + ConfigMap) \<times> 'k"
  k_Create :: "ConfigMap \<Rightarrow> 'k \<Rightarrow> k8s_error option \<times> 'k"
  k_Update :: "ConfigMap \<Rightarrow> 'k \<Rightarrow> k8s_error option \<times> 'k"

section \<open>The store\<close>

definition epochKey :: string where "epochKey = ''topologyEpoch''"
definition generationKey :: string where "generationKey = ''watchdogGeneration''"

record ConfigMapEpochStore =
  ces_namespace :: string
  ces_name :: string

datatype store_error = ErrAPI k8s_error | ErrParse string

abbreviation store_key :: "ConfigMapEpochStore \<Rightarrow> namespaced_name" where
  "store_key st \<equiv> (ces_namespace st, ces_name st)"

text \<open>\<^verbatim>\<open>data[key]\<close> of a string map: the empty string when the key is missing or the map is nil.\<close>

definition data_at :: "(string \<times> string) list option \<Rightarrow> string \<Rightarrow> string" where
  "data_at data key = (case data of None \<Rightarrow> '''' | Some m \<Rightarrow> (case map_of m key of None \<Rightarrow> '''' | Some v \<Rightarrow> v))"

definition LoadEpoch :: "'k k8s_client \<Rightarrow> ConfigMapEpochStore \<Rightarrow> 'k \<Rightarrow> (store_error + int64) \<times> 'k" where
  "LoadEpoch cl st k =
     (case k_Get cl (store_key st) k of
        (Inl err, k') \<Rightarrow> if err = NotFound then (Inr 0, k') else (Inl (ErrAPI err), k')
      | (Inr cm, k') \<Rightarrow>
          if cm_Data cm = None then (Inr 0, k')
          else let value = data_at (cm_Data cm) epochKey
          in if value = '''' then (Inr 0, k')
          else case ParseInt value of None \<Rightarrow> (Inl (ErrParse value), k') | Some e \<Rightarrow> (Inr e, k'))"

definition parseStoredCounter :: "(string \<times> string) list option \<Rightarrow> string \<Rightarrow> store_error + int64" where
  "parseStoredCounter data key =
     (let value = data_at data key
      in if value = '''' then Inr 0
         else case ParseInt value of None \<Rightarrow> Inl (ErrParse key) | Some v \<Rightarrow> Inr v)"

text \<open>The map of a ConfigMap with one entry set; a nil map is made first.\<close>

definition set_data :: "string \<Rightarrow> string \<Rightarrow> ConfigMap \<Rightarrow> ConfigMap" where
  "set_data key v cm = cm\<lparr>cm_Data := Some (AList.update key v (case cm_Data cm of None \<Rightarrow> [] | Some m \<Rightarrow> m))\<rparr>"

definition new_config_map :: "ConfigMapEpochStore \<Rightarrow> string \<Rightarrow> string \<Rightarrow> ConfigMap" where
  "new_config_map st key v = \<lparr>cm_Namespace = ces_namespace st, cm_Name = ces_name st,
     cm_ResourceVersion = 0, cm_Data = Some [(key, v)]\<rparr>"

partial_function (option) SaveEpoch :: "'k k8s_client \<Rightarrow> ConfigMapEpochStore \<Rightarrow> int64 \<Rightarrow> 'k \<Rightarrow>
    (store_error option \<times> 'k) option" where
  "SaveEpoch cl st epoch k =
     (case k_Get cl (store_key st) k of
        (Inl err, k1) \<Rightarrow>
          if err \<noteq> NotFound then Some (Some (ErrAPI err), k1)
          else (case k_Create cl (new_config_map st epochKey (FormatInt epoch)) k1 of
              (Some err, k2) \<Rightarrow> if err = AlreadyExists then SaveEpoch cl st epoch k2
                else Some (Some (ErrAPI err), k2)
            | (None, k2) \<Rightarrow> Some (None, k2))
      | (Inr cm, k1) \<Rightarrow>
          (case parseStoredCounter (cm_Data cm) epochKey of
             Inl err \<Rightarrow> Some (Some err, k1)
           | Inr current \<Rightarrow>
               if current \<ge> epoch then Some (None, k1)
               else (case k_Update cl (set_data epochKey (FormatInt epoch) cm) k1 of
                   (Some err, k2) \<Rightarrow> if err = Conflict then SaveEpoch cl st epoch k2
                     else Some (Some (ErrAPI err), k2)
                 | (None, k2) \<Rightarrow> Some (None, k2))))"

partial_function (option) NextGeneration :: "'k k8s_client \<Rightarrow> ConfigMapEpochStore \<Rightarrow> 'k \<Rightarrow>
    ((store_error + int64) \<times> 'k) option" where
  "NextGeneration cl st k =
     (case k_Get cl (store_key st) k of
        (Inl err, k1) \<Rightarrow>
          if err \<noteq> NotFound then Some (Inl (ErrAPI err), k1)
          else (case k_Create cl (new_config_map st generationKey ''1'') k1 of
              (Some err, k2) \<Rightarrow> if err = AlreadyExists then NextGeneration cl st k2
                else Some (Inl (ErrAPI err), k2)
            | (None, k2) \<Rightarrow> Some (Inr 1, k2))
      | (Inr cm, k1) \<Rightarrow>
          (case parseStoredCounter (cm_Data cm) generationKey of
             Inl err \<Rightarrow> Some (Inl err, k1)
           | Inr current \<Rightarrow>
               let nxt = (if i64 (current + 1) \<le> 0 then 1 else i64 (current + 1))
               in (case k_Update cl (set_data generationKey (FormatInt nxt) cm) k1 of
                   (Some err, k2) \<Rightarrow> if err = Conflict then NextGeneration cl st k2
                     else Some (Inl (ErrAPI err), k2)
                 | (None, k2) \<Rightarrow> Some (Inr nxt, k2))))"

declare SaveEpoch.simps [code] NextGeneration.simps [code]

section \<open>Health\<close>

text \<open>\<open>lh_serving\<close> is the status the health server reports for both of its service names.\<close>

record LeadershipHealth =
  lh_role :: WatchdogRole
  lh_degraded :: bool
  lh_serving :: bool

definition refreshLocked :: "LeadershipHealth \<Rightarrow> LeadershipHealth" where
  "refreshLocked h = h\<lparr>lh_serving := lh_role h = WATCHDOG_ROLE_PRIMARY \<and> \<not> lh_degraded h\<rparr>"

definition health_SetLeadership :: "WatchdogRole \<Rightarrow> int64 \<Rightarrow> LeadershipHealth \<Rightarrow> LeadershipHealth" where
  "health_SetLeadership role generation h = refreshLocked (h\<lparr>lh_role := role\<rparr>)"

definition SetDegraded :: "'e option \<Rightarrow> LeadershipHealth \<Rightarrow> LeadershipHealth" where
  "SetDegraded err h = refreshLocked (h\<lparr>lh_degraded := err \<noteq> None\<rparr>)"

definition NewLeadershipHealth :: LeadershipHealth where
  "NewLeadershipHealth = health_SetLeadership WATCHDOG_ROLE_STANDBY 0
     \<lparr>lh_role = WATCHDOG_ROLE_UNSPECIFIED, lh_degraded = False, lh_serving = True\<rparr>"

section \<open>Documented behaviour of the API server\<close>

text \<open>\<open>stored key k\<close> is the ConfigMap in the state \<open>k\<close> of the API server and \<open>others k k'\<close> says that
  \<open>k'\<close> comes from \<open>k\<close> by calls of other clients only.  A write that is applied takes effect on a state
  that meets its precondition, with other clients at work before and after; a write refused with
  \<^verbatim>\<open>AlreadyExists\<close> or \<^verbatim>\<open>Conflict\<close> is not applied, one that fails otherwise may be.  A resource version
  identifies the content it was given for.\<close>

definition applied :: "('k \<Rightarrow> 'k \<Rightarrow> bool) \<Rightarrow> (namespaced_name \<Rightarrow> 'k \<Rightarrow> ConfigMap option) \<Rightarrow>
    (ConfigMap option \<Rightarrow> bool) \<Rightarrow> ConfigMap \<Rightarrow> 'k \<Rightarrow> 'k \<Rightarrow> bool" where
  "applied others stored pre cm k k' \<longleftrightarrow>
     (\<exists>k1 k2 v. others k k1 \<and> pre (stored (cm_Namespace cm, cm_Name cm) k1) \<and>
        stored (cm_Namespace cm, cm_Name cm) k2 = Some (cm\<lparr>cm_ResourceVersion := v\<rparr>) \<and> others k2 k')"

definition reads_stored :: "'k k8s_client \<Rightarrow> ('k \<Rightarrow> 'k \<Rightarrow> bool) \<Rightarrow> (namespaced_name \<Rightarrow> 'k \<Rightarrow> ConfigMap option) \<Rightarrow> bool" where
  "reads_stored cl others stored \<longleftrightarrow> (\<forall>key k r k'. k_Get cl key k = (r, k') \<longrightarrow> others k k' \<and>
     (\<forall>cm. r = Inr cm \<longrightarrow> stored key k' = Some cm \<and> (cm_Namespace cm, cm_Name cm) = key) \<and>
     (r = Inl NotFound \<longrightarrow> stored key k' = None))"

definition creates_if_absent :: "'k k8s_client \<Rightarrow> ('k \<Rightarrow> 'k \<Rightarrow> bool) \<Rightarrow> (namespaced_name \<Rightarrow> 'k \<Rightarrow> ConfigMap option) \<Rightarrow> bool" where
  "creates_if_absent cl others stored \<longleftrightarrow> (\<forall>cm k e k'. k_Create cl cm k = (e, k') \<longrightarrow>
     applied others stored (\<lambda>c. c = None) cm k k' \<and> e \<noteq> Some AlreadyExists \<or> e \<noteq> None \<and> others k k')"

definition updates_if_unchanged :: "'k k8s_client \<Rightarrow> ('k \<Rightarrow> 'k \<Rightarrow> bool) \<Rightarrow> (namespaced_name \<Rightarrow> 'k \<Rightarrow> ConfigMap option) \<Rightarrow> bool" where
  "updates_if_unchanged cl others stored \<longleftrightarrow> (\<forall>cm k e k'. k_Update cl cm k = (e, k') \<longrightarrow>
     applied others stored (\<lambda>c. map_option cm_ResourceVersion c = Some (cm_ResourceVersion cm)) cm k k' \<and>
       e \<noteq> Some Conflict \<or> e \<noteq> None \<and> others k k')"

definition versions_identify :: "('k \<Rightarrow> 'k \<Rightarrow> bool) \<Rightarrow> (namespaced_name \<Rightarrow> 'k \<Rightarrow> ConfigMap option) \<Rightarrow> bool" where
  "versions_identify others stored \<longleftrightarrow> (\<forall>key k k' c c'. others k k' \<longrightarrow> stored key k = Some c \<longrightarrow>
     stored key k' = Some c' \<longrightarrow> cm_ResourceVersion c' = cm_ResourceVersion c \<longrightarrow> c' = c)"

definition optimistic :: "'k k8s_client \<Rightarrow> ('k \<Rightarrow> 'k \<Rightarrow> bool) \<Rightarrow> (namespaced_name \<Rightarrow> 'k \<Rightarrow> ConfigMap option) \<Rightarrow> bool" where
  "optimistic cl others stored \<longleftrightarrow> reflp others \<and> transp others \<and> reads_stored cl others stored \<and> creates_if_absent cl others stored \<and>
     updates_if_unchanged cl others stored \<and> versions_identify others stored"

text \<open>The value of a counter: \<open>None\<close> when the stored text is not a number.\<close>

definition counter :: "string \<Rightarrow> ConfigMap option \<Rightarrow> int64 option" where
  "counter key c = (case c of None \<Rightarrow> Some 0
     | Some cm \<Rightarrow> (case parseStoredCounter (cm_Data cm) key of Inl _ \<Rightarrow> None | Inr v \<Rightarrow> Some v))"

text \<open>The other clients keep the rule that every caller of the store keeps: a counter that can be
  read is never lowered or made unreadable.\<close>

definition not_lowered :: "int64 option \<Rightarrow> int64 option \<Rightarrow> bool" where
  "not_lowered a b \<longleftrightarrow> (case a of None \<Rightarrow> True | Some x \<Rightarrow> (case b of None \<Rightarrow> False | Some y \<Rightarrow> x \<le> y))"

definition keeps_counters :: "('k \<Rightarrow> 'k \<Rightarrow> bool) \<Rightarrow> ('k \<Rightarrow> ConfigMap option) \<Rightarrow> bool" where
  "keeps_counters R c \<longleftrightarrow> (\<forall>k k'. R k k' \<longrightarrow>
     (\<forall>key \<in> {epochKey, generationKey}. not_lowered (counter key (c k)) (counter key (c k'))))"

section \<open>Counters under writes\<close>

lemma not_lowered_refl [simp]: "not_lowered a a"
  by (simp add: not_lowered_def split: option.split)

lemma not_lowered_trans: "not_lowered a b \<Longrightarrow> not_lowered b c \<Longrightarrow> not_lowered a c"
  by (auto simp: not_lowered_def split: option.splits)

lemma not_lowered_Some: "not_lowered (Some v) b \<longleftrightarrow> (\<exists>w\<ge>v. b = Some w)"
  by (auto simp: not_lowered_def split: option.splits)

lemma keys_distinct: "epochKey \<noteq> generationKey" "generationKey \<noteq> epochKey"
  by (simp_all add: epochKey_def generationKey_def)

lemma counter_version [simp]: "counter key (Some (cm\<lparr>cm_ResourceVersion := v\<rparr>)) = counter key (Some cm)"
  by (simp add: counter_def)

lemma counter_None [simp]: "counter key None = Some 0"
  by (simp add: counter_def)

lemma counter_set_data:
  "i64_range v \<Longrightarrow> counter key (Some (set_data key (FormatInt v) cm)) = Some v"
  by (simp add: counter_def set_data_def parseStoredCounter_def data_at_def Let_def update_conv'
      ParseInt_FormatInt FormatInt_ne)

lemma counter_set_other:
  "key' \<noteq> key \<Longrightarrow> counter key' (Some (set_data key v cm)) = counter key' (Some cm)"
  by (auto simp: counter_def set_data_def parseStoredCounter_def data_at_def Let_def update_conv'
      split: option.split)

lemma counter_new:
  "i64_range v \<Longrightarrow> counter key (Some (new_config_map st key (FormatInt v))) = Some v"
  "key' \<noteq> key \<Longrightarrow> counter key' (Some (new_config_map st key s)) = Some 0"
  by (simp_all add: counter_def new_config_map_def parseStoredCounter_def data_at_def Let_def
      ParseInt_FormatInt FormatInt_ne)

lemma FormatInt_one: "FormatInt 1 = ''1''"
  by code_simp

lemma counter_parse:
  "parseStoredCounter (cm_Data cm) key = Inr c \<Longrightarrow> counter key (Some cm) = Some c"
  by (simp add: counter_def)

lemma parse_range: "parseStoredCounter d key = Inr c \<Longrightarrow> i64_range c"
  by (auto simp: parseStoredCounter_def Let_def i64_range_def split: if_splits option.splits
      dest: ParseInt_range [unfolded i64_range_def])

definition kept :: "(namespaced_name \<Rightarrow> 'k \<Rightarrow> ConfigMap option) \<Rightarrow> namespaced_name \<Rightarrow> 'k \<Rightarrow> 'k \<Rightarrow> bool" where
  "kept stored K k k' \<longleftrightarrow>
     (\<forall>key \<in> {epochKey, generationKey}. not_lowered (counter key (stored K k)) (counter key (stored K k')))"

lemma kept_refl [simp]: "kept stored K k k"
  by (simp add: kept_def)

lemma kept_trans [trans]: "kept stored K a b \<Longrightarrow> kept stored K b c \<Longrightarrow> kept stored K a c"
  by (auto simp: kept_def intro: not_lowered_trans)

lemma others_kept: "keeps_counters others (stored K) \<Longrightarrow> others k k' \<Longrightarrow> kept stored K k k'"
  by (simp add: keeps_counters_def kept_def)

text \<open>The effect of a write of one counter on both, when the counter is not lowered by it.\<close>

lemma applied_update:
  assumes "optimistic cl others stored" and keeps: "keeps_counters others (stored K)"
    and cm: "stored K k = Some cm" "(cm_Namespace cm, cm_Name cm) = K" "counter key (Some cm) = Some c"
    and v: "c \<le> v" "i64_range v" and key: "key \<in> {epochKey, generationKey}"
    and app: "applied others stored (\<lambda>c. map_option cm_ResourceVersion c = Some (cm_ResourceVersion (set_data key (FormatInt v) cm)))
        (set_data key (FormatInt v) cm) k k'"
  shows "kept stored K k k' \<and> not_lowered (Some v) (counter key (stored K k'))"
proof -
  let ?new = "set_data key (FormatInt v) cm"
  have new: "(cm_Namespace ?new, cm_Name ?new) = K" "cm_ResourceVersion ?new = cm_ResourceVersion cm"
    using cm(2) by (simp_all add: set_data_def)
  obtain k1 k2 w where o: "others k k1" "map_option cm_ResourceVersion (stored K k1) = Some (cm_ResourceVersion cm)"
    "stored K k2 = Some (?new\<lparr>cm_ResourceVersion := w\<rparr>)" "others k2 k'"
    using app new unfolding applied_def by auto
  then obtain c1 where c1: "stored K k1 = Some c1" "cm_ResourceVersion c1 = cm_ResourceVersion cm" by auto
  have "c1 = cm" using assms(1) o(1) cm(1) c1 unfolding optimistic_def versions_identify_def by metis
  have "not_lowered (counter key' (Some cm)) (counter key' (stored K k2))" for key'
    using cm(3) v by (cases "key' = key") (simp_all add: o(3) counter_set_data counter_set_other not_lowered_Some)
  then have "kept stored K k k2" by (simp add: kept_def cm(1))
  then have "kept stored K k k'" using others_kept [of others stored K, OF keeps o(4)] kept_trans by metis
  moreover have "counter key (stored K k2) = Some v" using v(2) by (simp add: o(3) counter_set_data)
  then have "not_lowered (Some v) (counter key (stored K k'))"
    using others_kept [of others stored K, OF keeps o(4)] key unfolding kept_def by metis
  ultimately show ?thesis by simp
qed

lemma applied_value:
  assumes keeps: "keeps_counters others (stored K)" and "(cm_Namespace cm, cm_Name cm) = K"
    and v: "i64_range v" and key: "key \<in> {epochKey, generationKey}"
    and app: "applied others stored pre (set_data key (FormatInt v) cm) k k'"
  shows "not_lowered (Some v) (counter key (stored K k'))"
proof -
  have "(cm_Namespace (set_data key (FormatInt v) cm), cm_Name (set_data key (FormatInt v) cm)) = K"
    using assms(2) by (simp add: set_data_def)
  then obtain k2 w where o: "stored K k2 = Some ((set_data key (FormatInt v) cm)\<lparr>cm_ResourceVersion := w\<rparr>)" "others k2 k'"
    using app unfolding applied_def by auto
  then have "counter key (stored K k2) = Some v" using v by (simp add: counter_set_data)
  then show ?thesis using others_kept [of others stored K, OF keeps o(2)] key unfolding kept_def by metis
qed

lemma applied_create:
  assumes keeps: "keeps_counters others (stored (store_key st))"
    and v: "0 \<le> v" "i64_range v" and key: "key \<in> {epochKey, generationKey}"
    and none: "stored (store_key st) k = None"
    and app: "applied others stored (\<lambda>c. c = None) (new_config_map st key (FormatInt v)) k k'"
  shows "kept stored (store_key st) k k' \<and> not_lowered (Some v) (counter key (stored (store_key st) k'))"
proof -
  let ?K = "store_key st" and ?new = "new_config_map st key (FormatInt v)"
  have "(cm_Namespace ?new, cm_Name ?new) = ?K" by (simp add: new_config_map_def)
  then obtain k2 w where o: "stored ?K k2 = Some (?new\<lparr>cm_ResourceVersion := w\<rparr>)" "others k2 k'"
    using app unfolding applied_def by auto
  have "not_lowered (Some 0) (counter key' (stored ?K k2))" for key'
    using v by (cases "key' = key") (simp_all add: o(1) counter_new not_lowered_Some)
  then have "kept stored ?K k k2" by (simp add: kept_def none)
  then have "kept stored ?K k k'" using others_kept [of others stored "store_key st", OF keeps o(2)] kept_trans by metis
  moreover have "counter key (stored ?K k2) = Some v" using v(2) by (simp add: o(1) counter_new)
  then have "not_lowered (Some v) (counter key (stored ?K k'))"
    using others_kept [of others stored "store_key st", OF keeps o(2)] key unfolding kept_def by metis
  ultimately show ?thesis by simp
qed

text \<open>The laws in the form the proofs use.\<close>

lemma Get_law:
  assumes "optimistic cl others stored" "k_Get cl K k = (r, k')"
  shows "others k k'" "r = Inr cm \<Longrightarrow> stored K k' = Some cm \<and> (cm_Namespace cm, cm_Name cm) = K"
    "r = Inl NotFound \<Longrightarrow> stored K k' = None"
  using assms unfolding optimistic_def reads_stored_def by blast+

lemma Create_law:
  assumes "optimistic cl others stored" "k_Create cl cm k = (e, k')"
  shows "applied others stored (\<lambda>c. c = None) cm k k' \<and> e \<noteq> Some AlreadyExists \<or> e \<noteq> None \<and> others k k'"
  using assms by (simp add: optimistic_def creates_if_absent_def)

lemma Update_law:
  assumes "optimistic cl others stored" "k_Update cl cm k = (e, k')"
  shows "applied others stored (\<lambda>c. map_option cm_ResourceVersion c = Some (cm_ResourceVersion cm)) cm k k' \<and>
    e \<noteq> Some Conflict \<or> e \<noteq> None \<and> others k k'"
  using assms by (simp add: optimistic_def updates_if_unchanged_def)

text \<open>One write of a counter, whatever the client reports.\<close>

lemma Update_kept:
  assumes opt: "optimistic cl others stored" and keeps: "keeps_counters others (stored K)"
    and cm: "stored K k = Some cm" "(cm_Namespace cm, cm_Name cm) = K" "counter key (Some cm) = Some c"
    and v: "c \<le> v" "i64_range v" and key: "key \<in> {epochKey, generationKey}"
    and up: "k_Update cl (set_data key (FormatInt v) cm) k = (e, k')"
  shows "kept stored K k k' \<and> (e = None \<longrightarrow> not_lowered (Some v) (counter key (stored K k')))"
  using Update_law [OF opt up] applied_update [OF opt keeps cm v key, of k'] others_kept [of others stored K, OF keeps]
  by blast

lemma Create_kept:
  assumes opt: "optimistic cl others stored" and keeps: "keeps_counters others (stored (store_key st))"
    and none: "stored (store_key st) k = None"
    and v: "0 \<le> v" "i64_range v" and key: "key \<in> {epochKey, generationKey}"
    and up: "k_Create cl (new_config_map st key (FormatInt v)) k = (e, k')"
  shows "kept stored (store_key st) k k' \<and>
    (e = None \<longrightarrow> not_lowered (Some v) (counter key (stored (store_key st) k')))"
  using Create_law [OF opt up] applied_create [of others stored st v key k, OF keeps v key none]
    others_kept [of others stored "store_key st", OF keeps]
  by blast

lemma SaveEpoch_kept:
  assumes opt: "optimistic cl others stored" and keeps: "keeps_counters others (stored (store_key st))"
    and e: "0 \<le> epoch" "i64_range epoch"
    and "SaveEpoch cl st epoch k = Some (r, k')"
  shows "kept stored (store_key st) k k' \<and>
    (r = None \<longrightarrow> not_lowered (Some epoch) (counter epochKey (stored (store_key st) k')))"
proof -
  let ?P = "\<lambda>cl' st' epoch' k y. cl' = cl \<longrightarrow> st' = st \<longrightarrow> epoch' = epoch \<longrightarrow>
    kept stored (store_key st) k (snd y) \<and>
    (fst y = None \<longrightarrow> not_lowered (Some epoch) (counter epochKey (stored (store_key st) (snd y))))"
  have "?P cl st epoch k (r, k')"
  proof (rule SaveEpoch.raw_induct [where P = ?P, OF _ assms(5)], goal_cases)
    case (1 S cl' st' epoch' k y)
    show ?case
    proof (intro impI)
      assume [simp]: "cl' = cl" "st' = st" "epoch' = epoch"
      note IH = 1(1) [of cl st epoch, simplified] and eq = 1(2) [simplified]
      obtain g k1 where g: "k_Get cl (store_key st) k = (g, k1)" by fastforce
      note law = Get_law [OF opt g]
      have k1: "kept stored (store_key st) k k1" by (rule others_kept [of others stored, OF keeps law(1)])
      show "kept stored (store_key st) k (snd y) \<and>
        (fst y = None \<longrightarrow> not_lowered (Some epoch) (counter epochKey (stored (store_key st) (snd y))))"
      proof (cases g)
        case (Inl err)
        obtain e2 k2 where c: "k_Create cl (new_config_map st epochKey (FormatInt epoch)) k1 = (e2, k2)" by fastforce
        show ?thesis
          using eq k1 kept_trans [OF k1] kept_trans [of stored "store_key st" k1 k2] IH [of k2] Create_kept [OF opt keeps law(3) e _ c]
          by (auto simp: g Inl c split: if_splits option.splits)
      next
        case (Inr cm)
        show ?thesis
        proof (cases "parseStoredCounter (cm_Data cm) epochKey")
          case (Inl err)
          with eq k1 show ?thesis by (auto simp: g Inr)
        next
          case p: (Inr cur)
          obtain e2 k2 where c: "k_Update cl (set_data epochKey (FormatInt epoch) cm) k1 = (e2, k2)" by fastforce
          note cur = counter_parse [OF p]
          have "cur < epoch \<Longrightarrow> kept stored (store_key st) k1 k2 \<and>
              (e2 = None \<longrightarrow> not_lowered (Some epoch) (counter epochKey (stored (store_key st) k2)))"
            using Update_kept [OF opt keeps _ _ cur _ e(2) _ c] law(2) [OF Inr] by auto
          then show ?thesis
            using eq k1 kept_trans [OF k1] kept_trans [of stored "store_key st" k1 k2] IH [of k2] cur law(2) [OF Inr]
            by (auto simp: g Inr p c not_lowered_Some split: if_splits option.splits)
        qed
      qed
    qed
  qed
  then show ?thesis by simp
qed

lemma i64_max: "i64 (2 ^ 63) = - (2 ^ 63)"
  by (simp add: i64_def)

text \<open>A generation is read at a state the other clients led to, and stored by the time it is returned.\<close>

lemma NextGeneration_spec:
  fixes k :: 'k
  assumes opt: "optimistic cl others stored" and keeps: "keeps_counters others (stored (store_key st))"
    and "NextGeneration cl st k = Some (Inr g, k')"
  shows "\<exists>km c. others k km \<and> counter generationKey (stored (store_key st) km) = Some c \<and>
    (if c = 2 ^ 63 - 1 \<or> c < 0 then g = 1 else g = c + 1) \<and>
    not_lowered (Some g) (counter generationKey (stored (store_key st) k'))"
proof -
  let ?K = "store_key st"
  let ?Q = "\<lambda>k g k'. \<exists>km c. others k km \<and> counter generationKey (stored ?K km) = Some c \<and>
    (if c = 2 ^ 63 - 1 \<or> c < 0 then g = 1 else g = c + 1) \<and> not_lowered (Some g) (counter generationKey (stored ?K k'))"
  let ?P = "\<lambda>cl' st' k (y :: (store_error + int64) \<times> 'k). cl' = cl \<longrightarrow> st' = st \<longrightarrow> (\<forall>g. fst y = Inr g \<longrightarrow> ?Q k g (snd y))"
  have one: "i64_range 1" by (simp add: i64_range_def)
  have "?P cl st k (Inr g, k')"
  proof (rule NextGeneration.raw_induct [where P = ?P, OF _ assms(3)], goal_cases)
    case (1 S cl' st' k y)
    show ?case
    proof (intro impI allI)
      fix g
      assume [simp]: "cl' = cl" "st' = st" and fy: "fst y = Inr g"
      note IH = 1(1) [of cl st, simplified] and eq = 1(2) [simplified]
      obtain r k1 where g: "k_Get cl ?K k = (r, k1)" by fastforce
      note law = Get_law [OF opt g]
      have step: "?Q k g (snd y)" if "others k1 k2" "S cl st k2 = Some y" for k2
      proof -
        have tr: "transp others" using opt by (simp add: optimistic_def)
        have k2: "others k k2" by (rule transpD [OF tr law(1) that(1)])
        from IH [OF that(2)] fy have "?Q k2 g (snd y)" by simp
        then show ?thesis by (elim exE conjE) (intro exI conjI, rule transpD [OF tr k2], assumption+)
      qed
      show "?Q k g (snd y)"
      proof (cases r)
        case (Inl err)
        obtain e2 k2 where c: "k_Create cl (new_config_map st generationKey ''1'') k1 = (e2, k2)" by fastforce
        have cl: "applied others stored (\<lambda>c. c = None) (new_config_map st generationKey ''1'') k1 k2" if "e2 = None"
          using Create_law [OF opt c] that by blast
        have oth: "others k1 k2" if "e2 = Some AlreadyExists"
          using Create_law [OF opt c] that by blast
        show ?thesis
        proof (cases "e2 = None")
          case True
          with eq fy have *: "err = NotFound" "g = 1" "snd y = k2" by (auto simp: g Inl c split: if_splits)
          have "not_lowered (Some 1) (counter generationKey (stored ?K k2))"
            using applied_create [of others stored st 1 generationKey k1, OF keeps _ one _ law(3)] cl [OF True] *(1)
            by (simp add: FormatInt_one Inl)
          with * law show ?thesis by (intro exI [of _ k1] exI [of _ 0]) (simp add: Inl)
        next
          case False
          with eq fy have "e2 = Some AlreadyExists" "S cl st k2 = Some y"
            by (auto simp: g Inl c split: if_splits)
          with oth step show ?thesis by blast
        qed
      next
        case (Inr cm)
        note cm = law(2) [OF Inr]
        show ?thesis
        proof (cases "parseStoredCounter (cm_Data cm) generationKey")
          case (Inl err)
          with eq fy show ?thesis by (auto simp: g Inr)
        next
          case p: (Inr cur)
          define nxt where "nxt = (if i64 (cur + 1) \<le> 0 then 1 else i64 (cur + 1))"
          obtain e2 k2 where c: "k_Update cl (set_data generationKey (FormatInt nxt) cm) k1 = (e2, k2)" by fastforce
          have nr: "i64_range nxt" by (simp add: nxt_def one i64_in_range)
          show ?thesis
          proof (cases "e2 = None")
            case True
            with eq fy have y: "g = nxt" "snd y = k2" by (auto simp: g Inr p c nxt_def [symmetric])
            have "not_lowered (Some nxt) (counter generationKey (stored ?K k2))"
              using Update_law [OF opt c] True applied_value [of others stored ?K cm nxt generationKey, OF keeps _ nr] cm by blast
            moreover have "if cur = 2 ^ 63 - 1 \<or> cur < 0 then nxt = 1 else nxt = cur + 1"
              using parse_range [OF p] i64_id [of "cur + 1"] i64_max
              by (cases "cur = 2 ^ 63 - 1") (auto simp: nxt_def i64_range_def)
            ultimately show ?thesis using y law(1) cm counter_parse [OF p]
              by - (rule exI [of _ k1], rule exI [of _ cur], simp)
          next
            case False
            with eq fy have "e2 = Some Conflict" "S cl st k2 = Some y"
              by (auto simp: g Inr p c nxt_def [symmetric] split: if_splits)
            with Update_law [OF opt c] step show ?thesis by blast
          qed
        qed
      qed
    qed
  qed
  then show ?thesis by simp
qed

text \<open>Contention: a retried call returns when every refused write lowers some rank of the server
  state that reads do not raise.\<close>

definition retries_end :: "'k k8s_client \<Rightarrow> ('k \<Rightarrow> nat) \<Rightarrow> bool" where
  "retries_end cl rank \<longleftrightarrow>
     (\<forall>key k. rank (snd (k_Get cl key k)) \<le> rank k) \<and>
     (\<forall>cm k k'. k_Create cl cm k = (Some AlreadyExists, k') \<longrightarrow> rank k' < rank k) \<and>
     (\<forall>cm k k'. k_Update cl cm k = (Some Conflict, k') \<longrightarrow> rank k' < rank k)"

lemma SaveEpoch_returns: "retries_end cl rank \<Longrightarrow> \<exists>y. SaveEpoch cl st epoch k = Some y"
proof (induction "rank k" arbitrary: k rule: less_induct)
  case less
  obtain r k1 where g: "k_Get cl (store_key st) k = (r, k1)" by fastforce
  have k1: "rank k1 \<le> rank k" using less.prems g unfolding retries_end_def by (metis snd_conv)
  have again: "\<exists>y. SaveEpoch cl st epoch k2 = Some y" if "rank k2 < rank k1" for k2
    using less.hyps [of k2] less.prems that k1 by simp
  have cr: "rank k2 < rank k1" if "k_Create cl cm k1 = (Some AlreadyExists, k2)" for cm k2
    using less.prems that unfolding retries_end_def by blast
  have up: "rank k2 < rank k1" if "k_Update cl cm k1 = (Some Conflict, k2)" for cm k2
    using less.prems that unfolding retries_end_def by blast
  show ?case
  proof (cases r)
    case (Inl err)
    then show ?thesis
      using again cr by (subst SaveEpoch.simps) (auto simp: g split: prod.split option.split)
  next
    case (Inr cm)
    then show ?thesis
      using again up by (subst SaveEpoch.simps) (auto simp: g split: sum.split prod.split option.split)
  qed
qed

lemma NextGeneration_returns: "retries_end cl rank \<Longrightarrow> \<exists>y. NextGeneration cl st k = Some y"
proof (induction "rank k" arbitrary: k rule: less_induct)
  case less
  obtain r k1 where g: "k_Get cl (store_key st) k = (r, k1)" by fastforce
  have k1: "rank k1 \<le> rank k" using less.prems g unfolding retries_end_def by (metis snd_conv)
  have again: "\<exists>y. NextGeneration cl st k2 = Some y" if "rank k2 < rank k1" for k2
    using less.hyps [of k2] less.prems that k1 by simp
  have cr: "rank k2 < rank k1" if "k_Create cl cm k1 = (Some AlreadyExists, k2)" for cm k2
    using less.prems that unfolding retries_end_def by blast
  have up: "rank k2 < rank k1" if "k_Update cl cm k1 = (Some Conflict, k2)" for cm k2
    using less.prems that unfolding retries_end_def by blast
  show ?case
  proof (cases r)
    case (Inl err)
    then show ?thesis
      using again cr by (subst NextGeneration.simps) (auto simp: g split: prod.split option.split)
  next
    case (Inr cm)
    then show ?thesis
      using again up by (subst NextGeneration.simps) (auto simp: g Let_def split: sum.split prod.split option.split)
  qed
qed

section \<open>Properties of the store\<close>

text \<open>A client that is alone with the server, for the concrete instances.\<close>

type_synonym lone_server = "ConfigMap option \<times> nat"

definition lone_stored :: "namespaced_name \<Rightarrow> lone_server \<Rightarrow> ConfigMap option" where
  "lone_stored key k = (case fst k of None \<Rightarrow> None
     | Some cm \<Rightarrow> if (cm_Namespace cm, cm_Name cm) = key then Some cm else None)"

definition lone_client :: "lone_server k8s_client" where
  "lone_client = \<lparr>
     k_Get = (\<lambda>key k. ((case lone_stored key k of None \<Rightarrow> Inl NotFound | Some cm \<Rightarrow> Inr cm), k)),
     k_Create = (\<lambda>cm k. if fst k = None then (None, (Some (cm\<lparr>cm_ResourceVersion := snd k\<rparr>), Suc (snd k)))
       else (Some (OtherError ''exists''), k)),
     k_Update = (\<lambda>cm k. if map_option cm_ResourceVersion (lone_stored (cm_Namespace cm, cm_Name cm) k) = Some (cm_ResourceVersion cm)
       then (None, (Some (cm\<lparr>cm_ResourceVersion := snd k\<rparr>), Suc (snd k)))
       else (Some (OtherError ''version''), k))\<rparr>"

lemma lone_optimistic: "optimistic lone_client (=) lone_stored"
proof -
  have "reads_stored lone_client (=) lone_stored"
    by (auto simp: reads_stored_def lone_client_def lone_stored_def split: option.splits if_splits)
  moreover have "creates_if_absent lone_client (=) lone_stored"
    by (auto simp: creates_if_absent_def lone_client_def applied_def lone_stored_def split: if_splits)
  moreover have "updates_if_unchanged lone_client (=) lone_stored"
    by (auto simp: updates_if_unchanged_def lone_client_def applied_def lone_stored_def split: if_splits option.splits)
  moreover have "versions_identify (=) lone_stored" by (auto simp: versions_identify_def)
  ultimately show ?thesis by (simp add: optimistic_def reflp_def transp_def)
qed

lemma lone_keeps: "keeps_counters (=) (lone_stored K)"
  by (simp add: keeps_counters_def)

lemma lone_retries: "retries_end lone_client (\<lambda>_. 0)"
  by (auto simp: retries_end_def lone_client_def split: if_splits)

definition demo_store :: ConfigMapEpochStore where
  "demo_store = \<lparr>ces_namespace = ''default'', ces_name = ''demo-topology''\<rparr>"

text \<open>C13. Saving an epoch: with other clients at work on the same ConfigMap that never lower a
  counter, a call whose retries end returns; it never lowers the stored epoch or generation, whatever
  it reports; and when it reports success the stored epoch is at least the epoch saved.\<close>

theorem save_epoch_durable:
  assumes "optimistic cl others stored" and "keeps_counters others (stored (store_key st))"
    and "0 \<le> epoch" and "i64_range epoch" and "retries_end cl rank"
  shows "\<exists>r k'. SaveEpoch cl st epoch k = Some (r, k') \<and> kept stored (store_key st) k k' \<and>
    (r = None \<longrightarrow> (\<exists>e\<ge>epoch. counter epochKey (stored (store_key st) k') = Some e))"
proof -
  obtain r k' where r: "SaveEpoch cl st epoch k = Some (r, k')"
    using SaveEpoch_returns [OF assms(5)] by (metis surj_pair)
  with SaveEpoch_kept [OF assms(1-4) r] show ?thesis by (auto simp: not_lowered_Some)
qed

theorem save_epoch_durable_witness:
  "\<exists>r k'. SaveEpoch lone_client demo_store 7 (None, 0) = Some (r, k') \<and>
    kept lone_stored (store_key demo_store) (None, 0) k' \<and>
    (r = None \<longrightarrow> (\<exists>e\<ge>7. counter epochKey (lone_stored (store_key demo_store) k') = Some e))"
  by (rule save_epoch_durable [OF lone_optimistic lone_keeps _ _ lone_retries]) (simp_all add: i64_range_def)

text \<open>C14. Generations are fencing tokens: two watchdogs that allocate a generation one after the
  other, through any clients and with other clients at work, get increasing positive generations,
  unless the counter had run out when the second was allocated, which then gets 1.\<close>

theorem next_generation_increases:
  assumes "optimistic cl1 others stored" and "optimistic cl2 others stored"
    and "keeps_counters others (stored (store_key st))"
    and "NextGeneration cl1 st k = Some (Inr g1, k1)" and "others k1 k2"
    and "NextGeneration cl2 st k2 = Some (Inr g2, k3)"
  shows "1 \<le> g1 \<and> (g1 < g2 \<or> g2 = 1 \<and>
    (\<exists>km c. others k2 km \<and> counter generationKey (stored (store_key st) km) = Some c \<and> c = 2 ^ 63 - 1))"
proof -
  obtain c1 where c1: "if c1 = 2 ^ 63 - 1 \<or> c1 < 0 then g1 = 1 else g1 = c1 + 1"
    and n1: "not_lowered (Some g1) (counter generationKey (stored (store_key st) k1))"
    using NextGeneration_spec [OF assms(1,3,4)] by blast
  from c1 have g1: "1 \<le> g1" by (simp split: if_splits)
  obtain km c2 where km: "others k2 km" "counter generationKey (stored (store_key st) km) = Some c2"
    and c2: "if c2 = 2 ^ 63 - 1 \<or> c2 < 0 then g2 = 1 else g2 = c2 + 1"
    using NextGeneration_spec [OF assms(2,3,6)] by blast
  have "others k1 km" using assms(1,5) km(1) unfolding optimistic_def by (blast dest: transpD)
  then have "not_lowered (counter generationKey (stored (store_key st) k1)) (Some c2)"
    using others_kept [of others stored "store_key st", OF assms(3)] km(2) unfolding kept_def by (metis insertCI)
  with n1 have "g1 \<le> c2" using not_lowered_trans by (fastforce simp: not_lowered_Some)
  with g1 c2 km show ?thesis by (cases "c2 = 2 ^ 63 - 1") auto
qed

theorem next_generation_increases_witness:
  "(case NextGeneration lone_client demo_store (None, 0) of
     Some (Inr g1, k1) \<Rightarrow> (case NextGeneration lone_client demo_store k1 of
       Some (Inr g2, k2) \<Rightarrow> g1 < g2 | _ \<Rightarrow> False) | _ \<Rightarrow> False)"
proof -
  let ?K = "store_key demo_store"
  define cm where "cm = (new_config_map demo_store generationKey ''1'')\<lparr>cm_ResourceVersion := 0\<rparr>"
  have a: "NextGeneration lone_client demo_store (None, 0) = Some (Inr 1, (Some cm, 1))"
    by (subst NextGeneration.simps) (simp add: lone_client_def lone_stored_def cm_def)
  have "ParseInt ''1'' = Some 1" using ParseInt_FormatInt [of 1] by (simp add: FormatInt_one i64_range_def)
  then have p: "parseStoredCounter (cm_Data cm) generationKey = Inr 1"
    by (simp add: cm_def new_config_map_def parseStoredCounter_def data_at_def)
  have s: "lone_stored ?K (Some cm, 1) = Some cm" by (simp add: lone_stored_def cm_def new_config_map_def)
  have u: "lone_stored (cm_Namespace (set_data key v cm), cm_Name (set_data key v cm)) (Some cm, 1) = Some cm" for key v
    using s by (simp add: set_data_def cm_def new_config_map_def)
  have "i64 2 = 2" by (simp add: i64_id i64_range_def)
  with p s u have b: "NextGeneration lone_client demo_store (Some cm, 1) =
      Some (Inr 2, (Some ((set_data generationKey (FormatInt 2) cm)\<lparr>cm_ResourceVersion := 1\<rparr>), 2))"
    by (subst NextGeneration.simps) (simp add: lone_client_def Let_def, simp add: set_data_def)
  have "(1 :: int64) < 2"
    using next_generation_increases [OF lone_optimistic lone_optimistic lone_keeps a refl b] by simp
  then show ?thesis unfolding a by (simp only: option.case prod.case sum.case b)
qed

end
