(* ===== verification/Topology_Service.thy ===== *)
theory Topology_Service
  imports Watchdog_State Epoch_Store Fence_Lease
begin

text \<open>
  The topology service of the watchdog (\<^verbatim>\<open>internal/topology/service.go\<close>): per stack a cluster state,
  the subscribers of its watch streams and whether the durable epoch has been loaded; the
  configuration with role and generation; the last error of the epoch store; the health observers.
  Subscribers are shared by the watch goroutines and the per-stack maps, so they live in a store
  \<open>sv_subs\<close> and are named by a number.  Every method that takes \<^verbatim>\<open>s.mu\<close> is one step.  \<open>clock i\<close> is the
  \<open>i\<close>-th reading of \<^verbatim>\<open>time.Now\<close> in a call, \<open>event\<close> the state machine library.
\<close>

section \<open>Configuration and state\<close>

text \<open>The interface \<^verbatim>\<open>EpochStore\<close> on the state \<open>'es\<close> of the store.\<close>

record 'es EpochStore =
  es_LoadEpoch :: "string \<Rightarrow> 'es \<Rightarrow> (store_error + int64) \<times> 'es"
  es_SaveEpoch :: "string \<Rightarrow> int64 \<Rightarrow> 'es \<Rightarrow> store_error option \<times> 'es"

record 'es Config =
  tc_SuspectAfter :: duration
  tc_ExpireAfter :: duration
  tc_ReapInterval :: duration
  tc_BookwormInterval :: duration
  tc_LeaseTTL :: duration
  tc_WatchdogID :: string
  tc_Generation :: int64
  tc_Role :: WatchdogRole
  tc_EpochStore :: "'es EpochStore option"

definition tc_withDefaults :: "time \<Rightarrow> 'es Config \<Rightarrow> 'es Config" where
  "tc_withDefaults clock c0 =
     (let c = (if tc_SuspectAfter c0 \<le> 0 then c0\<lparr>tc_SuspectAfter := 20 * second\<rparr> else c0);
          c = (if tc_ExpireAfter c \<le> 0 then c\<lparr>tc_ExpireAfter := 30 * second\<rparr> else c);
          c = (if tc_ReapInterval c \<le> 0 then c\<lparr>tc_ReapInterval := tc_SuspectAfter c div 2\<rparr> else c);
          c = (if tc_ReapInterval c \<le> 0 then c\<lparr>tc_ReapInterval := second\<rparr> else c);
          c = (if tc_BookwormInterval c \<le> 0 then c\<lparr>tc_BookwormInterval := 10 * second\<rparr> else c);
          c = (if tc_LeaseTTL c \<le> 0 then c\<lparr>tc_LeaseTTL := tc_ExpireAfter c\<rparr> else c);
          c = (if tc_WatchdogID c = '''' then c\<lparr>tc_WatchdogID := ''watchdog''\<rparr> else c);
          c = (if tc_Generation c \<le> 0 then c\<lparr>tc_Generation := i64 clock\<rparr> else c)
      in (if tc_Role c = WATCHDOG_ROLE_UNSPECIFIED then c\<lparr>tc_Role := WATCHDOG_ROLE_PRIMARY\<rparr> else c))"

text \<open>\<open>sub_ch\<close> is the buffer of the channel, oldest first; \<open>sub_done\<close> is \<open>None\<close> for a nil channel and
  otherwise says whether the channel is closed.\<close>

record subscriber =
  sub_nodeID :: string
  sub_ch :: "TopologyEnvelope list"
  sub_done :: "bool option"

record stackState =
  ss_cluster :: ClusterState
  ss_subscribers :: "(string \<times> nat) list"
  ss_loadedEpoch :: bool

datatype epoch_error = LoadFailed store_error | SaveFailed store_error

record 'es Service =
  sv_cfg :: "'es Config"
  sv_stacks :: "(string \<times> stackState) list"
  sv_epochErr :: "epoch_error option"
  sv_observers :: "LeadershipHealth list"
  sv_subs :: "(nat \<times> subscriber) list"
  sv_es :: 'es

definition NewServiceWithConfig :: "time \<Rightarrow> 'es \<Rightarrow> 'es Config \<Rightarrow> 'es Service" where
  "NewServiceWithConfig clock es cfg = \<lparr>sv_cfg = tc_withDefaults clock cfg, sv_stacks = [],
     sv_epochErr = None, sv_observers = [], sv_subs = [], sv_es = es\<rparr>"

datatype topology_error =
    ErrStackIDRequired | ErrNodeIDRequired | ErrPodIPRequired | ErrIncarnationRequired
  | ErrIdentityChanged | ErrSubscriberReplaced | ErrEpochStore epoch_error | ErrStream string

section \<open>Locked helpers\<close>

definition isPrimary :: "'es Service \<Rightarrow> bool" where
  "isPrimary s \<longleftrightarrow> tc_Role (sv_cfg s) = WATCHDOG_ROLE_PRIMARY"

definition new_stackState :: stackState where
  "new_stackState = \<lparr>ss_cluster = NewClusterState, ss_subscribers = [], ss_loadedEpoch = False\<rparr>"

text \<open>\<open>stateFor\<close> makes the state of the stack; \<open>state_at\<close> reads it through the pointer, \<open>set_state\<close>
  writes it.\<close>

definition stateFor :: "string \<Rightarrow> 'es Service \<Rightarrow> 'es Service" where
  "stateFor stackID s = (case map_of (sv_stacks s) stackID of
      Some _ \<Rightarrow> s
    | None \<Rightarrow> s\<lparr>sv_stacks := AList.update stackID new_stackState (sv_stacks s)\<rparr>)"

definition state_at :: "string \<Rightarrow> 'es Service \<Rightarrow> stackState" where
  "state_at stackID s = (case map_of (sv_stacks s) stackID of Some st \<Rightarrow> st | None \<Rightarrow> new_stackState)"

definition set_state :: "string \<Rightarrow> stackState \<Rightarrow> 'es Service \<Rightarrow> 'es Service" where
  "set_state stackID st s = s\<lparr>sv_stacks := AList.update stackID st (sv_stacks s)\<rparr>"

definition setEpochError :: "epoch_error option \<Rightarrow> 'es Service \<Rightarrow> 'es Service" where
  "setEpochError err s = s\<lparr>sv_epochErr := err, sv_observers := map (SetDegraded err) (sv_observers s)\<rparr>"

definition loadEpochLocked :: "string \<Rightarrow> 'es Service \<Rightarrow> epoch_error option \<times> 'es Service" where
  "loadEpochLocked stackID s =
     (let st = state_at stackID s
      in if ss_loadedEpoch st then (None, s)
      else case tc_EpochStore (sv_cfg s) of
        None \<Rightarrow> (None, set_state stackID (st\<lparr>ss_loadedEpoch := True\<rparr>) s)
      | Some store \<Rightarrow>
          (case es_LoadEpoch store stackID (sv_es s) of
             (Inl err, es) \<Rightarrow> (Some (LoadFailed err), setEpochError (Some (LoadFailed err)) (s\<lparr>sv_es := es\<rparr>))
           | (Inr epoch, es) \<Rightarrow>
               (None, setEpochError None (set_state stackID
                  (st\<lparr>ss_loadedEpoch := True, ss_cluster := BumpEpochAtLeast epoch (ss_cluster st)\<rparr>)
                  (s\<lparr>sv_es := es\<rparr>)))))"

definition saveEpochLocked :: "string \<Rightarrow> int64 \<Rightarrow> 'es Service \<Rightarrow> epoch_error option \<times> 'es Service" where
  "saveEpochLocked stackID epoch s =
     (case tc_EpochStore (sv_cfg s) of
        None \<Rightarrow> (None, setEpochError None s)
      | Some store \<Rightarrow>
          (case es_SaveEpoch store stackID epoch (sv_es s) of
             (Some err, es) \<Rightarrow> (Some (SaveFailed err), setEpochError (Some (SaveFailed err)) (s\<lparr>sv_es := es\<rparr>))
           | (None, es) \<Rightarrow> (None, setEpochError None (s\<lparr>sv_es := es\<rparr>))))"

definition envelopeFor :: "time \<Rightarrow> string \<Rightarrow> TopologyReason \<Rightarrow> 'es Service \<Rightarrow> TopologyEnvelope" where
  "envelopeFor now stackID reason s =
     (let cfg = sv_cfg s;
          (members, epoch) = Members now (tc_ExpireAfter cfg) now (ss_cluster (state_at stackID s))
      in \<lparr>env_stack_id = stackID, env_members = members, env_epoch = epoch, env_reason = reason,
          env_valid_until_unix_ms = UnixMilli (now + tc_LeaseTTL cfg), env_watchdog_id = tc_WatchdogID cfg,
          env_watchdog_generation = tc_Generation cfg, env_watchdog_role = tc_Role cfg\<rparr>)"

definition standbyEnvelope :: "string \<Rightarrow> 'es Service \<Rightarrow> TopologyEnvelope" where
  "standbyEnvelope stackID s =
     \<lparr>env_stack_id = stackID, env_members = [], env_epoch = 0, env_reason = TOPOLOGY_REASON_PRIMARY_CHANGE,
      env_valid_until_unix_ms = 0, env_watchdog_id = tc_WatchdogID (sv_cfg s),
      env_watchdog_generation = tc_Generation (sv_cfg s), env_watchdog_role = tc_Role (sv_cfg s)\<rparr>"

text \<open>The non-blocking operations on a subscriber: a send into its channel of capacity eight, a
  receive, and the closing of its done channel.\<close>

definition on_sub :: "nat \<Rightarrow> (subscriber \<Rightarrow> subscriber) \<Rightarrow> 'es Service \<Rightarrow> 'es Service" where
  "on_sub sub f s = (case map_of (sv_subs s) sub of
      None \<Rightarrow> s | Some x \<Rightarrow> s\<lparr>sv_subs := AList.update sub (f x) (sv_subs s)\<rparr>)"

definition try_send :: "TopologyEnvelope \<Rightarrow> subscriber \<Rightarrow> subscriber" where
  "try_send envelope x = (if length (sub_ch x) < 8 then x\<lparr>sub_ch := sub_ch x @ [envelope]\<rparr> else x)"

definition try_recv :: "subscriber \<Rightarrow> subscriber" where
  "try_recv x = x\<lparr>sub_ch := tl (sub_ch x)\<rparr>"

definition closeSubscriber :: "subscriber \<Rightarrow> subscriber" where
  "closeSubscriber x = (case sub_done x of None \<Rightarrow> x | Some _ \<Rightarrow> x\<lparr>sub_done := Some True\<rparr>)"

definition broadcastLocked :: "time \<Rightarrow> string \<Rightarrow> TopologyReason \<Rightarrow> 'es Service \<Rightarrow> 'es Service" where
  "broadcastLocked now stackID reason s =
     (let envelope = envelopeFor now stackID reason s
      in case saveEpochLocked stackID (env_epoch envelope) s of
           (Some err, s) \<Rightarrow> s
         | (None, s) \<Rightarrow> fold (\<lambda>(node, sub). on_sub sub (try_send envelope)) (ss_subscribers (state_at stackID s)) s)"

definition sendLatestLocked :: "time \<Rightarrow> string \<Rightarrow> nat \<Rightarrow> TopologyReason \<Rightarrow> 'es Service \<Rightarrow> 'es Service" where
  "sendLatestLocked now stackID sub reason s =
     (if sv_epochErr s \<noteq> None then s
      else on_sub sub (try_send (envelopeFor now stackID reason s)) s)"

definition pruneExpiredLocked :: "fsm_library \<Rightarrow> time \<Rightarrow> string \<Rightarrow> time \<Rightarrow> 'es Service \<Rightarrow> 'es Service" where
  "pruneExpiredLocked event envelopeTime stackID now s =
     (let cfg = sv_cfg s; st = state_at stackID s;
          (changed, cluster) = PruneExpired event now (tc_SuspectAfter cfg) (tc_ExpireAfter cfg) now (ss_cluster st)
      in if \<not> changed then set_state stackID (st\<lparr>ss_cluster := cluster\<rparr>) s
      else
        let active = map mb_node_id (fst (Members now (tc_ExpireAfter cfg) now cluster));
            subs = filter (\<lambda>(node, sub). node \<in> set active) (ss_subscribers st)
        in broadcastLocked envelopeTime stackID TOPOLOGY_REASON_PRUNE
             (set_state stackID (st\<lparr>ss_cluster := cluster, ss_subscribers := subs\<rparr>) s))"

section \<open>Requests and streams\<close>

definition validateHeartbeat :: "Heartbeat \<Rightarrow> topology_error option" where
  "validateHeartbeat hb =
     (if hb_stack_id hb = '''' then Some ErrStackIDRequired
      else if hb_node_id hb = '''' then Some ErrNodeIDRequired
      else if hb_pod_ip hb = '''' then Some ErrPodIPRequired
      else if hb_incarnation hb \<le> 0 then Some ErrIncarnationRequired
      else None)"

definition heartbeat_observation :: "time \<Rightarrow> Heartbeat \<Rightarrow> HeartbeatObservation" where
  "heartbeat_observation now hb = \<lparr>ho_NodeID = hb_node_id hb, ho_PodName = hb_pod_name hb, ho_PodIP = hb_pod_ip hb,
     ho_Incarnation = hb_incarnation hb, ho_ReportedState = hb_state hb,
     ho_ProtocolVersion = hb_protocol_version hb, ho_SeenAt = now\<rparr>"

definition registerHeartbeat :: "fsm_library \<Rightarrow> (nat \<Rightarrow> time) \<Rightarrow> Heartbeat \<Rightarrow> nat \<Rightarrow> 'es Service \<Rightarrow>
    topology_error option \<times> 'es Service" where
  "registerHeartbeat event clock hb sub s =
     (let stackID = hb_stack_id hb; node = hb_node_id hb
      in case loadEpochLocked stackID (stateFor stackID s) of
        (Some err, s) \<Rightarrow> (Some (ErrEpochStore err), s)
      | (None, s) \<Rightarrow>
          let s = pruneExpiredLocked event (clock 1) stackID (clock 0) s;
              st = state_at stackID s;
              (result, cluster) = ApplyHeartbeat event (clock 0) (heartbeat_observation (clock 0) hb) (ss_cluster st);
              s = set_state stackID (st\<lparr>ss_cluster := cluster\<rparr>) s
          in if hr_Stale result then (None, s)
          else
            let s = (case map_of (ss_subscribers st) node of
                  Some current \<Rightarrow> if current \<noteq> sub then on_sub current closeSubscriber s else s
                | None \<Rightarrow> s);
                s = set_state stackID (st\<lparr>ss_cluster := cluster,
                      ss_subscribers := AList.update node sub (ss_subscribers st)\<rparr>) s
            in if hr_Changed result then (None, broadcastLocked (clock 2) stackID TOPOLOGY_REASON_EVENT s)
            else if hb_observed_epoch hb < Epoch cluster
              then (None, sendLatestLocked (clock 2) stackID sub TOPOLOGY_REASON_BOOKWORM s)
            else (None, s))"

definition unregister :: "string \<Rightarrow> string \<Rightarrow> nat \<Rightarrow> 'es Service \<Rightarrow> 'es Service" where
  "unregister stackID node sub s0 =
     (let s = stateFor stackID s0; st = state_at stackID s
      in if map_of (ss_subscribers st) node = Some sub
         then set_state stackID (st\<lparr>ss_subscribers := AList.delete node (ss_subscribers st)\<rparr>) s
         else s)"

definition ObservePods :: "fsm_library \<Rightarrow> (nat \<Rightarrow> time) \<Rightarrow> string \<Rightarrow> PodObservation list \<Rightarrow> 'es Service \<Rightarrow> 'es Service" where
  "ObservePods event clock stackID observations s0 =
     (if \<not> isPrimary s0 then s0
      else case loadEpochLocked stackID (stateFor stackID s0) of
        (Some err, s) \<Rightarrow> s
      | (None, s) \<Rightarrow>
          let st = state_at stackID s;
              (changed, cluster) = ApplyPodObservations event (clock 0) observations
                (tc_ExpireAfter (sv_cfg s)) (clock 0) (ss_cluster st);
              s = set_state stackID (st\<lparr>ss_cluster := cluster\<rparr>) s
          in if changed then broadcastLocked (clock 1) stackID TOPOLOGY_REASON_RECONCILE s else s)"

definition GetTopology :: "fsm_library \<Rightarrow> (nat \<Rightarrow> time) \<Rightarrow> string \<Rightarrow> 'es Service \<Rightarrow>
    (topology_error + TopologyEnvelope) \<times> 'es Service" where
  "GetTopology event clock stackID s0 =
     (if stackID = '''' then (Inl ErrStackIDRequired, s0)
      else if \<not> isPrimary s0 then (Inr (standbyEnvelope stackID s0), s0)
      else case loadEpochLocked stackID (stateFor stackID s0) of
        (Some err, s) \<Rightarrow> (Inl (ErrEpochStore err), s)
      | (None, s) \<Rightarrow>
          let s = pruneExpiredLocked event (clock 1) stackID (clock 0) s;
              envelope = envelopeFor (clock 2) stackID TOPOLOGY_REASON_BOOKWORM s
          in case saveEpochLocked stackID (env_epoch envelope) s of
               (Some err, s) \<Rightarrow> (Inl (ErrEpochStore err), s)
             | (None, s) \<Rightarrow> (Inr envelope, s))"

text \<open>The sweeps of the two tickers; \<open>clock\<close> gives the reading for the envelope of each stack.\<close>

definition pruneExpired :: "fsm_library \<Rightarrow> (string \<Rightarrow> time) \<Rightarrow> time \<Rightarrow> 'es Service \<Rightarrow> 'es Service" where
  "pruneExpired event clock now s =
     (if \<not> isPrimary s then s
      else fold (\<lambda>stackID. pruneExpiredLocked event (clock stackID) stackID now) (map fst (sv_stacks s)) s)"

definition broadcastSnapshots :: "(string \<Rightarrow> time) \<Rightarrow> TopologyReason \<Rightarrow> 'es Service \<Rightarrow> 'es Service" where
  "broadcastSnapshots clock reason s =
     (if \<not> isPrimary s then s
      else fold (\<lambda>stackID. broadcastLocked (clock stackID) stackID reason) (map fst (sv_stacks s)) s)"

definition reaper_tick :: "fsm_library \<Rightarrow> (string \<Rightarrow> time) \<Rightarrow> time \<Rightarrow> 'es Service \<Rightarrow> 'es Service" where
  "reaper_tick event clock now s = (if sv_epochErr s \<noteq> None then s else pruneExpired event clock now s)"

definition bookworm_tick :: "(string \<Rightarrow> time) \<Rightarrow> 'es Service \<Rightarrow> 'es Service" where
  "bookworm_tick clock s =
     (if sv_epochErr s \<noteq> None then s else broadcastSnapshots clock TOPOLOGY_REASON_BOOKWORM s)"

text \<open>A watch stream: its start, with the result of the first \<^verbatim>\<open>Recv\<close>; one turn of the goroutine that
  receives heartbeats; and one turn of the sending loop, by the case its \<^verbatim>\<open>select\<close> takes.\<close>

datatype watch_start = WatchFailed topology_error | WatchStandby TopologyEnvelope | WatchSubscribed nat

definition fresh_sub :: "'es Service \<Rightarrow> nat" where
  "fresh_sub s = Suc (fold max (map fst (sv_subs s)) 0)"

definition Watch_start :: "fsm_library \<Rightarrow> (nat \<Rightarrow> time) \<Rightarrow> string + Heartbeat \<Rightarrow> 'es Service \<Rightarrow>
    watch_start \<times> 'es Service" where
  "Watch_start event clock recv s =
     (case recv of
        Inl err \<Rightarrow> (WatchFailed (ErrStream err), s)
      | Inr first \<Rightarrow>
          (case validateHeartbeat first of
             Some err \<Rightarrow> (WatchFailed err, s)
           | None \<Rightarrow>
               if \<not> isPrimary s then (WatchStandby (standbyEnvelope (hb_stack_id first) s), s)
               else
                 let sub = fresh_sub s;
                     s = s\<lparr>sv_subs := AList.update sub
                           \<lparr>sub_nodeID = hb_node_id first, sub_ch = [], sub_done = Some False\<rparr> (sv_subs s)\<rparr>
                 in case registerHeartbeat event clock first sub s of
                      (Some err, s) \<Rightarrow> (WatchFailed err, s)
                    | (None, s) \<Rightarrow> (WatchSubscribed sub, s)))"

definition receive_step :: "fsm_library \<Rightarrow> (nat \<Rightarrow> time) \<Rightarrow> string \<Rightarrow> string \<Rightarrow> int64 \<Rightarrow> nat \<Rightarrow> string + Heartbeat \<Rightarrow>
    'es Service \<Rightarrow> topology_error option \<times> 'es Service" where
  "receive_step event clock stackID nodeID incarnation sub recv s =
     (case recv of
        Inl err \<Rightarrow> (Some (ErrStream err), s)
      | Inr hb \<Rightarrow>
          if hb_stack_id hb \<noteq> stackID \<or> hb_node_id hb \<noteq> nodeID \<or> hb_incarnation hb \<noteq> incarnation
          then (Some ErrIdentityChanged, s)
          else case validateHeartbeat hb of
            Some err \<Rightarrow> (Some err, s)
          | None \<Rightarrow> registerHeartbeat event clock hb sub s)"

datatype watch_case = CaseContextDone string | CaseError topology_error | CaseDone | CaseEnvelope "string option"

datatype watch_turn = WatchReturned topology_error | WatchSent TopologyEnvelope | WatchNotReady

definition watch_step :: "string \<Rightarrow> string \<Rightarrow> nat \<Rightarrow> watch_case \<Rightarrow> 'es Service \<Rightarrow> watch_turn \<times> 'es Service" where
  "watch_step stackID nodeID sub c s =
     (case c of
        CaseContextDone err \<Rightarrow> (WatchReturned (ErrStream err), unregister stackID nodeID sub s)
      | CaseError err \<Rightarrow> (WatchReturned err, unregister stackID nodeID sub s)
      | CaseDone \<Rightarrow>
          (case map_of (sv_subs s) sub of
             Some x \<Rightarrow> if sub_done x = Some True
               then (WatchReturned ErrSubscriberReplaced, unregister stackID nodeID sub s)
               else (WatchNotReady, s)
           | None \<Rightarrow> (WatchNotReady, s))
      | CaseEnvelope sendErr \<Rightarrow>
          (case map_of (sv_subs s) sub of
             Some x \<Rightarrow>
               (case sub_ch x of
                  [] \<Rightarrow> (WatchNotReady, s)
                | envelope # rest \<Rightarrow>
                    let s = on_sub sub try_recv s
                    in case sendErr of
                         Some err \<Rightarrow> (WatchReturned (ErrStream err), unregister stackID nodeID sub s)
                       | None \<Rightarrow> (WatchSent envelope, s))
           | None \<Rightarrow> (WatchNotReady, s)))"

section \<open>Leadership\<close>

text \<open>The two phases of \<^verbatim>\<open>closeSubscribersForLeadershipChange\<close>: the subscribers taken out of the maps
  with the standby envelope posted, and, after the pause in which other goroutines run (\<open>pause\<close>), the
  closing of their done channels.\<close>

definition demote_sub :: "TopologyEnvelope \<Rightarrow> nat \<Rightarrow> 'es Service \<Rightarrow> 'es Service" where
  "demote_sub envelope sub s = on_sub sub (try_send envelope) (on_sub sub try_recv s)"

definition demote_stack :: "string \<Rightarrow> 'es Service \<Rightarrow> 'es Service" where
  "demote_stack stackID s =
     (let st = state_at stackID s; envelope = standbyEnvelope stackID s
      in set_state stackID (st\<lparr>ss_subscribers := []\<rparr>)
           (fold (\<lambda>(node, sub). demote_sub envelope sub) (ss_subscribers st) s))"

definition closeSubscribersForLeadershipChange :: "('es Service \<Rightarrow> 'es Service) \<Rightarrow> 'es Service \<Rightarrow> 'es Service" where
  "closeSubscribersForLeadershipChange pause s =
     (let pending = concat (map (\<lambda>(stackID, st). map snd (ss_subscribers st)) (sv_stacks s));
          s = fold demote_stack (map fst (sv_stacks s)) s;
          s = (if pending \<noteq> [] then pause s else s)
      in fold (\<lambda>sub. on_sub sub closeSubscriber) pending s)"

definition SetLeadership :: "('es Service \<Rightarrow> 'es Service) \<Rightarrow> WatchdogRole \<Rightarrow> int64 \<Rightarrow> 'es Service \<Rightarrow> 'es Service" where
  "SetLeadership pause role generation s0 =
     (let demoted = (tc_Role (sv_cfg s0) = WATCHDOG_ROLE_PRIMARY \<and> role \<noteq> WATCHDOG_ROLE_PRIMARY);
          cfg = (sv_cfg s0)\<lparr>tc_Role := role\<rparr>;
          cfg = (if generation > 0 then cfg\<lparr>tc_Generation := generation\<rparr> else cfg);
          s = s0\<lparr>sv_cfg := cfg\<rparr>;
          s = (if demoted then closeSubscribersForLeadershipChange pause s else s)
      in s\<lparr>sv_observers := map (health_SetLeadership role (tc_Generation cfg)) (sv_observers s)\<rparr>)"

definition AddLeadershipObserver :: "LeadershipHealth option \<Rightarrow> 'es Service \<Rightarrow> 'es Service" where
  "AddLeadershipObserver observer s =
     (case observer of
        None \<Rightarrow> s
      | Some h \<Rightarrow>
          let h = health_SetLeadership (tc_Role (sv_cfg s)) (tc_Generation (sv_cfg s)) h;
              h = (if sv_epochErr s \<noteq> None then SetDegraded (sv_epochErr s) h else h)
          in s\<lparr>sv_observers := sv_observers s @ [h]\<rparr>)"

definition SetEpochStore :: "'es EpochStore option \<Rightarrow> 'es Service \<Rightarrow> 'es Service" where
  "SetEpochStore store s = s\<lparr>sv_cfg := (sv_cfg s)\<lparr>tc_EpochStore := store\<rparr>\<rparr>"

section \<open>Frames\<close>

lemma state_at_simps [simp]:
  "state_at a (set_state b st s) = (if a = b then st else state_at a s)"
  "state_at a (stateFor b s) = state_at a s"
  "state_at a (setEpochError err s) = state_at a s"
  "state_at a (s\<lparr>sv_es := es\<rparr>) = state_at a s"
  "state_at a (s\<lparr>sv_subs := subs\<rparr>) = state_at a s"
  "state_at a (s\<lparr>sv_cfg := cfg\<rparr>) = state_at a s"
  "state_at a (s\<lparr>sv_observers := obs\<rparr>) = state_at a s"
  "state_at a (on_sub n f s) = state_at a s"
  by (auto simp: state_at_def set_state_def stateFor_def setEpochError_def on_sub_def update_conv' split: option.split)

lemma frame_simps [simp]:
  "sv_cfg (set_state b st s) = sv_cfg s" "sv_epochErr (set_state b st s) = sv_epochErr s"
  "sv_observers (set_state b st s) = sv_observers s" "sv_subs (set_state b st s) = sv_subs s" "sv_es (set_state b st s) = sv_es s"
  "sv_cfg (stateFor b s) = sv_cfg s" "sv_epochErr (stateFor b s) = sv_epochErr s"
  "sv_observers (stateFor b s) = sv_observers s" "sv_subs (stateFor b s) = sv_subs s" "sv_es (stateFor b s) = sv_es s"
  "sv_cfg (setEpochError err s) = sv_cfg s" "sv_epochErr (setEpochError err s) = err"
  "sv_stacks (setEpochError err s) = sv_stacks s" "sv_subs (setEpochError err s) = sv_subs s" "sv_es (setEpochError err s) = sv_es s"
  "sv_observers (setEpochError err s) = map (SetDegraded err) (sv_observers s)"
  "sv_cfg (on_sub n f s) = sv_cfg s" "sv_epochErr (on_sub n f s) = sv_epochErr s"
  "sv_observers (on_sub n f s) = sv_observers s" "sv_stacks (on_sub n f s) = sv_stacks s" "sv_es (on_sub n f s) = sv_es s"
  by (simp_all add: set_state_def stateFor_def setEpochError_def on_sub_def split: option.split)

lemma subs_on_sub: "map_of (sv_subs (on_sub n f s)) m = (if m = n then map_option f (map_of (sv_subs s) n) else map_of (sv_subs s) m)"
  by (auto simp: on_sub_def update_conv' split: option.split)

lemma fold_on_sub_frame [simp]:
  fixes s :: "'es Service"
  defines "r xs f \<equiv> fold (\<lambda>(node, sub). on_sub sub f) xs s"
  shows "sv_cfg (r xs f) = sv_cfg s" "sv_epochErr (r xs f) = sv_epochErr s" "sv_observers (r xs f) = sv_observers s"
    "sv_stacks (r xs f) = sv_stacks s" "sv_es (r xs f) = sv_es s" "state_at a (r xs f) = state_at a s"
  unfolding r_def by (induction xs arbitrary: s) (auto simp: split_beta)

lemma set_state_twice [simp]: "set_state a st (set_state a st' s) = set_state a st s"
  by (simp add: set_state_def update_last)

lemma on_sub_set_state: "on_sub n f (set_state a st s) = set_state a st (on_sub n f s)"
  by (simp add: on_sub_def set_state_def split: option.split)

text \<open>A property of every subscriber.\<close>

definition all_subs :: "(subscriber \<Rightarrow> bool) \<Rightarrow> 'es Service \<Rightarrow> bool" where
  "all_subs P s \<longleftrightarrow> (\<forall>n x. map_of (sv_subs s) n = Some x \<longrightarrow> P x)"

lemma all_subs_on_sub: "all_subs P s \<Longrightarrow> (\<And>x. P x \<Longrightarrow> P (f x)) \<Longrightarrow> all_subs P (on_sub n f s)"
  by (auto simp: all_subs_def subs_on_sub split: if_splits)

lemma all_subs_fold:
  "all_subs P s \<Longrightarrow> (\<And>x. P x \<Longrightarrow> P (f x)) \<Longrightarrow> all_subs P (fold (\<lambda>(node, sub). on_sub sub f) xs s)"
  by (induction xs arbitrary: s) (auto simp: split_beta intro: all_subs_on_sub)

lemma all_subs_cong: "sv_subs s' = sv_subs s \<Longrightarrow> all_subs P s' = all_subs P s"
  by (simp add: all_subs_def)

lemma all_subs_mono: "all_subs P s \<Longrightarrow> (\<And>x. P x \<Longrightarrow> Q x) \<Longrightarrow> all_subs Q s"
  by (auto simp: all_subs_def)

section \<open>The invariant of one stack\<close>

text \<open>What the service relies on: \<open>dur\<close> is the epoch a later primary would load, zero when none is
  stored.  A successful save makes its epoch durable, nothing lowers it.\<close>

definition durable_store :: "'es EpochStore \<Rightarrow> ('es \<Rightarrow> string \<Rightarrow> int64) \<Rightarrow> bool" where
  "durable_store store dur \<longleftrightarrow>
     (\<forall>es a. 0 \<le> dur es a) \<and>
     (\<forall>a es r es'. es_LoadEpoch store a es = (r, es') \<longrightarrow>
        (\<forall>b. dur es b \<le> dur es' b) \<and> (\<forall>e. r = Inr e \<longrightarrow> e \<le> dur es' a \<and> i64_range e)) \<and>
     (\<forall>a e es r es'. 0 \<le> e \<longrightarrow> i64_range e \<longrightarrow> es_SaveEpoch store a e es = (r, es') \<longrightarrow>
        (\<forall>b. dur es b \<le> dur es' b) \<and> (r = None \<longrightarrow> e \<le> dur es' a))"

text \<open>The envelopes in a channel: every epoch is durable, and those of a primary carry fences that do
  not go back and are not ahead of the service.\<close>

abbreviation env_fence :: "TopologyEnvelope \<Rightarrow> int64 \<times> int64" where
  "env_fence e \<equiv> (env_watchdog_generation e, env_epoch e)"

abbreviation from_primary :: "TopologyEnvelope \<Rightarrow> bool" where
  "from_primary e \<equiv> env_watchdog_role e = WATCHDOG_ROLE_PRIMARY"

definition chan_ok :: "int64 \<Rightarrow> int64 \<times> int64 \<Rightarrow> TopologyEnvelope list \<Rightarrow> bool" where
  "chan_ok d f ch \<longleftrightarrow> (\<forall>e \<in> set ch. env_epoch e \<le> d) \<and>
     sorted_wrt pair_le (map env_fence (filter from_primary ch)) \<and>
     (\<forall>e \<in> set ch. from_primary e \<longrightarrow> pair_le (env_fence e) f)"

abbreviation stack_epoch :: "string \<Rightarrow> 'es Service \<Rightarrow> int64" where
  "stack_epoch a s \<equiv> cs_epoch (ss_cluster (state_at a s))"

text \<open>\<open>service_wf\<close> holds also between a change of the cluster and the save of its epoch;
  \<open>service_inv\<close> adds that an epoch that is not durable shows as an epoch error.\<close>

definition service_wf :: "('es \<Rightarrow> string \<Rightarrow> int64) \<Rightarrow> string \<Rightarrow> 'es Service \<Rightarrow> bool" where
  "service_wf dur a s \<longleftrightarrow>
     (\<exists>store. tc_EpochStore (sv_cfg s) = Some store \<and> durable_store store dur) \<and>
     gomap (sv_stacks s) \<and> fst ` set (sv_stacks s) \<subseteq> {a} \<and>
     cluster_wf (ss_cluster (state_at a s)) \<and> 0 \<le> stack_epoch a s \<and>
     (\<not> ss_loadedEpoch (state_at a s) \<longrightarrow> ss_cluster (state_at a s) = NewClusterState) \<and>
     all_subs (\<lambda>x. chan_ok (dur (sv_es s) a) (tc_Generation (sv_cfg s), stack_epoch a s) (sub_ch x)) s"

definition service_inv :: "('es \<Rightarrow> string \<Rightarrow> int64) \<Rightarrow> string \<Rightarrow> 'es Service \<Rightarrow> bool" where
  "service_inv dur a s \<longleftrightarrow> service_wf dur a s \<and>
     (sv_epochErr s = None \<longrightarrow> stack_epoch a s \<le> dur (sv_es s) a)"

lemma chan_ok_mono: "chan_ok d f ch \<Longrightarrow> d \<le> d' \<Longrightarrow> pair_le f f' \<Longrightarrow> chan_ok d' f' ch"
  by (auto simp: chan_ok_def intro: pair_le_trans)

lemma chan_ok_send:
  "chan_ok d f ch \<Longrightarrow> env_epoch e \<le> d \<Longrightarrow> (from_primary e \<Longrightarrow> env_fence e = f) \<Longrightarrow> chan_ok d f (ch @ [e])"
  by (auto simp: chan_ok_def sorted_wrt_append)

lemma chan_ok_standby:
  "chan_ok d f ch \<Longrightarrow> env_epoch e \<le> d \<Longrightarrow> \<not> from_primary e \<Longrightarrow> chan_ok d f (ch @ [e])"
  by (rule chan_ok_send) auto

lemma chan_ok_tl: "chan_ok d f ch \<Longrightarrow> chan_ok d f (tl ch)"
  by (cases ch) (auto simp: chan_ok_def split: if_splits)

lemma pair_le_epoch: "e \<le> e' \<Longrightarrow> pair_le (g, e) (g, e')"
  by (simp add: pair_le_def)

lemma service_wf_cluster:
  "service_wf dur a s \<Longrightarrow> cluster_wf (ss_cluster (state_at a s))"
  "service_wf dur a s \<Longrightarrow> 0 \<le> stack_epoch a s"
  "service_wf dur a s \<Longrightarrow> \<not> ss_loadedEpoch (state_at a s) \<Longrightarrow> ss_cluster (state_at a s) = NewClusterState"
  by (simp_all add: service_wf_def)

lemma pair_le_gen: "g \<le> g' \<Longrightarrow> pair_le (g, e) (g', e)"
  by (auto simp: pair_le_def)

lemma set_state_wf:
  assumes "service_wf dur a s" "cluster_wf (ss_cluster st)" "stack_epoch a s \<le> cs_epoch (ss_cluster st)"
    and "ss_loadedEpoch st \<or> ss_cluster st = NewClusterState"
  shows "service_wf dur a (set_state a st s)"
proof -
  have "all_subs (\<lambda>x. chan_ok (dur (sv_es s) a) (tc_Generation (sv_cfg s), cs_epoch (ss_cluster st)) (sub_ch x)) s"
    by (rule all_subs_mono [where P = "\<lambda>x. chan_ok (dur (sv_es s) a) (tc_Generation (sv_cfg s), stack_epoch a s) (sub_ch x)"])
       (use assms(1,3) in \<open>simp_all add: service_wf_def chan_ok_mono pair_le_epoch\<close>)
  then have "all_subs (\<lambda>x. chan_ok (dur (sv_es s) a) (tc_Generation (sv_cfg s), cs_epoch (ss_cluster st)) (sub_ch x)) (set_state a st s)"
    by (subst all_subs_cong [of _ s]) simp_all
  moreover have "gomap (sv_stacks (set_state a st s))" "fst ` set (sv_stacks (set_state a st s)) \<subseteq> {a}"
    using assms(1) by (auto simp: service_wf_def set_state_def dom_update image_iff)
  ultimately show ?thesis using assms by (auto simp: service_wf_def)
qed

lemma stateFor_wf: "service_wf dur a s \<Longrightarrow> service_wf dur a (stateFor a s)"
proof (cases "map_of (sv_stacks s) a")
  case None
  assume wf: "service_wf dur a s"
  have "stateFor a s = set_state a (state_at a s) s"
    using None by (simp add: stateFor_def set_state_def state_at_def)
  moreover have "service_wf dur a (set_state a (state_at a s) s)"
    by (rule set_state_wf [OF wf]) (use service_wf_cluster [OF wf] in auto)
  ultimately show ?thesis by simp
qed (simp add: stateFor_def)

lemma setEpochError_wf: "service_wf dur a (setEpochError err s) = service_wf dur a s"
  by (auto simp: service_wf_def all_subs_def)

lemma es_wf:
  assumes "service_wf dur a s" "\<And>b. dur (sv_es s) b \<le> dur es b"
  shows "service_wf dur a (s\<lparr>sv_es := es\<rparr>)"
proof -
  have "all_subs (\<lambda>x. chan_ok (dur (sv_es s) a) (tc_Generation (sv_cfg s), stack_epoch a s) (sub_ch x)) s"
    using assms(1) by (simp add: service_wf_def)
  then have "all_subs (\<lambda>x. chan_ok (dur es a) (tc_Generation (sv_cfg s), stack_epoch a s) (sub_ch x)) s"
    by (rule all_subs_mono) (rule chan_ok_mono, auto simp: assms(2))
  with assms(1) show ?thesis by (simp add: service_wf_def all_subs_def)
qed

lemma service_wf_store:
  assumes "service_wf dur a s"
  obtains store where "tc_EpochStore (sv_cfg s) = Some store" "durable_store store dur"
  using assms by (auto simp: service_wf_def)

lemma load_inv:
  assumes "service_inv dur a s" "loadEpochLocked a s = (r, s')"
  shows "service_inv dur a s' \<and> (r = None \<longrightarrow> ss_loadedEpoch (state_at a s')) \<and>
    stack_epoch a s \<le> stack_epoch a s' \<and> sv_cfg s' = sv_cfg s"
proof (cases "ss_loadedEpoch (state_at a s)")
  case True
  with assms show ?thesis by (auto simp: loadEpochLocked_def)
next
  case False
  have wf: "service_wf dur a s" using assms(1) by (simp add: service_inv_def)
  obtain store where store: "tc_EpochStore (sv_cfg s) = Some store" "durable_store store dur"
    by (rule service_wf_store [OF wf])
  obtain res es where res: "es_LoadEpoch store a (sv_es s) = (res, es)" by fastforce
  have mono: "dur (sv_es s) b \<le> dur es b" for b using store(2) res by (auto simp: durable_store_def)
  have pos: "0 \<le> dur es a" using store(2) by (simp add: durable_store_def)
  have new: "ss_cluster (state_at a s) = NewClusterState" by (rule service_wf_cluster(3) [OF wf False])
  note wf' = es_wf [OF wf mono]
  show ?thesis
  proof (cases res)
    case (Inl err)
    with assms(2) False store res wf' show ?thesis
      by (auto simp: loadEpochLocked_def service_inv_def setEpochError_wf)
  next
    case (Inr e)
    have e: "e \<le> dur es a" "i64_range e" using store(2) res Inr by (auto simp: durable_store_def)
    let ?c = "BumpEpochAtLeast e NewClusterState"
    have c: "cluster_wf ?c" "0 \<le> cs_epoch ?c" "cs_epoch ?c \<le> dur es a"
      using e pos New_wf by (auto simp: BumpEpochAtLeast_def cluster_wf_def NewClusterState_def)
    have "service_wf dur a (set_state a ((state_at a s)\<lparr>ss_loadedEpoch := True, ss_cluster := ?c\<rparr>) (s\<lparr>sv_es := es\<rparr>))"
      by (rule set_state_wf [OF wf']) (use c new in \<open>simp_all add: NewClusterState_def\<close>)
    with assms(2) False store res Inr new c show ?thesis
      by (auto simp: loadEpochLocked_def service_inv_def setEpochError_wf NewClusterState_def)
  qed
qed

lemma save_inv:
  assumes "service_wf dur a s" "saveEpochLocked a (stack_epoch a s) s = (r, s')"
  shows "service_inv dur a s' \<and> (r = None \<longrightarrow> stack_epoch a s' \<le> dur (sv_es s') a) \<and>
    state_at a s' = state_at a s \<and> sv_cfg s' = sv_cfg s \<and> (\<forall>b. dur (sv_es s) b \<le> dur (sv_es s') b)"
proof -
  obtain store where store: "tc_EpochStore (sv_cfg s) = Some store" "durable_store store dur"
    by (rule service_wf_store [OF assms(1)])
  obtain res es where res: "es_SaveEpoch store a (stack_epoch a s) (sv_es s) = (res, es)" by fastforce
  have "0 \<le> stack_epoch a s" "i64_range (stack_epoch a s)"
    using service_wf_cluster [OF assms(1)] by (simp_all add: cluster_wf_def)
  then have mono: "dur (sv_es s) b \<le> dur es b" and ok: "res = None \<Longrightarrow> stack_epoch a s \<le> dur es a" for b
    using store(2) res unfolding durable_store_def by blast+
  from es_wf [OF assms(1) mono] assms(2) store(1) res ok mono show ?thesis
    by (cases res) (auto simp: saveEpochLocked_def service_inv_def setEpochError_wf)
qed

lemma envelopeFor_simps [simp]:
  "env_epoch (envelopeFor t a reason s) = stack_epoch a s"
  "env_watchdog_generation (envelopeFor t a reason s) = tc_Generation (sv_cfg s)"
  "env_watchdog_role (envelopeFor t a reason s) = tc_Role (sv_cfg s)"
  by (simp_all add: envelopeFor_def Members_def Let_def)

lemma sub_ch_try_send: "sub_ch (try_send e x) = (if length (sub_ch x) < 8 then sub_ch x @ [e] else sub_ch x)"
  by (simp add: try_send_def)

lemma send_inv:
  assumes "service_inv dur a s" "sv_epochErr s = None"
    and that: "state_at a s' = state_at a s" "sv_cfg s' = sv_cfg s"
  shows "service_inv dur a (on_sub n (try_send (envelopeFor t a reason s')) s)"
proof -
  have "all_subs (\<lambda>x. chan_ok (dur (sv_es s) a) (tc_Generation (sv_cfg s), stack_epoch a s) (sub_ch x))
      (on_sub n (try_send (envelopeFor t a reason s')) s)"
    by (rule all_subs_on_sub) (use assms that in \<open>auto simp: service_inv_def service_wf_def sub_ch_try_send chan_ok_send\<close>)
  with assms show ?thesis by (auto simp: service_inv_def service_wf_def)
qed

lemma fold_send_inv:
  assumes "state_at a s' = state_at a s" "sv_cfg s' = sv_cfg s"
  shows "service_inv dur a s \<Longrightarrow> sv_epochErr s = None \<Longrightarrow>
    service_inv dur a (fold (\<lambda>(node, sub). on_sub sub (try_send (envelopeFor t a reason s'))) xs s)"
  using assms
proof (induction xs arbitrary: s)
  case (Cons x xs)
  obtain node n where x: "x = (node, n)" by (cases x)
  show ?case
    unfolding x by (simp, rule Cons.IH) (use Cons.prems send_inv in \<open>auto simp: x\<close>)
qed simp

lemma broadcast_inv:
  assumes "service_wf dur a s"
  shows "service_inv dur a (broadcastLocked t a reason s) \<and> state_at a (broadcastLocked t a reason s) = state_at a s \<and>
    sv_cfg (broadcastLocked t a reason s) = sv_cfg s"
proof -
  obtain r s' where r: "saveEpochLocked a (stack_epoch a s) s = (r, s')" by fastforce
  note * = save_inv [OF assms r]
  show ?thesis
  proof (cases r)
    case None
    then have "sv_epochErr s' = None"
      using r by (auto simp: saveEpochLocked_def split: option.splits prod.splits)
    with None * fold_send_inv [of a s s' dur] show ?thesis
      by (simp add: broadcastLocked_def r Let_def)
  next
    case (Some err)
    with * show ?thesis by (simp add: broadcastLocked_def r Let_def)
  qed
qed

lemma sendLatest_inv: "service_inv dur a s \<Longrightarrow> service_inv dur a (sendLatestLocked t a n reason s)"
  by (simp add: sendLatestLocked_def send_inv)

section \<open>Every operation keeps the invariant\<close>

lemma service_inv_wf: "service_inv dur a s \<Longrightarrow> service_wf dur a s"
  by (simp add: service_inv_def)

lemma stateFor_inv: "service_inv dur a s \<Longrightarrow> service_inv dur a (stateFor a s)"
  by (simp add: service_inv_def stateFor_wf)

lemma set_state_inv:
  assumes "service_inv dur a s" "cluster_wf (ss_cluster st)" "cs_epoch (ss_cluster st) = stack_epoch a s"
    and "ss_loadedEpoch st \<or> ss_cluster st = NewClusterState"
  shows "service_inv dur a (set_state a st s)"
  using set_state_wf [of dur a s st] assms by (simp add: service_inv_def)

lemma prune_epoch:
  assumes "fsm_documented event" "cluster_wf c" "cs_epoch c < 2 ^ 63 - 1"
    and "PruneExpired event t sa ea now c = (changed, c')"
  shows "cluster_wf c' \<and> cs_epoch c' = cs_epoch c + (if changed then 1 else 0)"
  using step_wf [OF cluster_step.prune [OF assms(3), of event t sa ea now] assms(1,2)]
    sweep_epoch [OF assms(2,3), of "prune_node event sa ea (if now = zero_time then t else now)"] assms(4)
  by (simp add: PruneExpired_sweep)

lemma prune_new: "PruneExpired event t sa ea now NewClusterState = (False, NewClusterState)"
  by (simp add: PruneExpired_sweep sweep_def NewClusterState_def)

lemma prune_inv:
  fixes t now :: time
  assumes inv: "service_inv dur a s" and doc: "fsm_documented event" and room: "stack_epoch a s < 2 ^ 63 - 1"
  defines "s' \<equiv> pruneExpiredLocked event t a now s"
  shows "service_inv dur a s' \<and> ss_loadedEpoch (state_at a s') = ss_loadedEpoch (state_at a s) \<and> sv_cfg s' = sv_cfg s \<and>
    stack_epoch a s \<le> stack_epoch a s' \<and> stack_epoch a s' \<le> stack_epoch a s + 1"
proof -
  let ?st = "state_at a s"
  note wf = service_inv_wf [OF inv]
  obtain changed c where c: "PruneExpired event now (tc_SuspectAfter (sv_cfg s)) (tc_ExpireAfter (sv_cfg s)) now (ss_cluster ?st)
      = (changed, c)" by fastforce
  note ce = prune_epoch [OF doc service_wf_cluster(1) [OF wf] room c]
  show ?thesis
  proof (cases changed)
    case False
    have "ss_loadedEpoch ?st \<or> c = NewClusterState"
      using service_wf_cluster(3) [OF wf] c by (cases "ss_loadedEpoch ?st") (auto simp: prune_new)
    with False c ce set_state_inv [OF inv, of "?st\<lparr>ss_cluster := c\<rparr>"] show ?thesis
      by (simp add: s'_def pruneExpiredLocked_def Let_def)
  next
    case True
    then have "ss_loadedEpoch ?st"
      using service_wf_cluster(3) [OF wf] c by (cases "ss_loadedEpoch ?st") (auto simp: prune_new)
    then have "service_wf dur a (set_state a (?st\<lparr>ss_cluster := c, ss_subscribers := subs\<rparr>) s)" for subs
      by (intro set_state_wf [OF wf]) (use ce in auto)
    from True c ce broadcast_inv [OF this] show ?thesis
      by (simp add: s'_def pruneExpiredLocked_def Let_def)
  qed
qed

lemma on_sub_inv:
  assumes "service_inv dur a s" "\<And>d g x. chan_ok d g (sub_ch x) \<Longrightarrow> chan_ok d g (sub_ch (f x))"
  shows "service_inv dur a (on_sub n f s)"
proof -
  have "all_subs (\<lambda>x. chan_ok (dur (sv_es s) a) (tc_Generation (sv_cfg s), stack_epoch a s) (sub_ch x)) (on_sub n f s)"
    by (rule all_subs_on_sub) (use assms in \<open>auto simp: service_inv_def service_wf_def\<close>)
  with assms(1) show ?thesis by (auto simp: service_inv_def service_wf_def)
qed

lemma sub_ch_closeSubscriber [simp]: "sub_ch (closeSubscriber x) = sub_ch x"
  by (simp add: closeSubscriber_def split: option.split)

lemmas close_inv = on_sub_inv [where f = closeSubscriber, simplified]

lemma recv_inv: "service_inv dur a s \<Longrightarrow> service_inv dur a (on_sub n try_recv s)"
  by (rule on_sub_inv) (auto simp: try_recv_def chan_ok_tl)

lemma unregister_inv: "service_inv dur a s \<Longrightarrow> service_inv dur a (unregister a node n s)"
  using stateFor_inv [of dur a s] service_wf_cluster [OF service_inv_wf, of dur a s]
  by (cases "ss_loadedEpoch (state_at a s)") (auto simp: unregister_def Let_def intro!: set_state_inv)

lemma heartbeat_cluster:
  assumes "fsm_documented event" "cluster_wf c" "cs_epoch c < 2 ^ 63 - 1"
    and "ApplyHeartbeat event t obs c = (result, c')"
  shows "cluster_wf c' \<and> cs_epoch c' = cs_epoch c + (if hr_Changed result then 1 else 0)"
  using heartbeat_epoch [OF assms(1-3), of t obs] heartbeat_wf [OF assms(1,2), of t obs] assms(4) by simp

definition has_room :: "string \<Rightarrow> 'es Service \<Rightarrow> bool" where
  "has_room a s \<longleftrightarrow> stack_epoch a (snd (loadEpochLocked a (stateFor a s))) < 2 ^ 63 - 2"

lemma register_inv:
  assumes inv: "service_inv dur a s" and doc: "fsm_documented event" and room: "has_room a s" and a: "hb_stack_id hb = a"
  shows "service_inv dur a (snd (registerHeartbeat event clock hb n s))"
proof -
  obtain r s1 where l: "loadEpochLocked a (stateFor a s) = (r, s1)" by fastforce
  note li = load_inv [OF stateFor_inv [OF inv] l]
  show ?thesis
  proof (cases r)
    case (Some err)
    with l li a show ?thesis by (simp add: registerHeartbeat_def Let_def)
  next
    case None
    define s2 where "s2 = pruneExpiredLocked event (clock 1) a (clock 0) s1"
    define st where "st = state_at a s2"
    have room1: "stack_epoch a s1 < 2 ^ 63 - 1" using room l by (simp add: has_room_def)
    note pi = prune_inv [OF li [THEN conjunct1] doc room1, of "clock 1" "clock 0", folded s2_def]
    have room2: "cs_epoch (ss_cluster st) < 2 ^ 63 - 1" using pi room l by (simp add: has_room_def st_def)
    have inv2: "service_inv dur a s2" and loaded: "ss_loadedEpoch st" using pi li None by (simp_all add: st_def)
    define obs where "obs = heartbeat_observation (clock 0) hb"
    obtain result c where c: "ApplyHeartbeat event (clock 0) obs (ss_cluster st) = (result, c)" by fastforce
    note hc = heartbeat_cluster [OF doc service_wf_cluster(1) [OF service_inv_wf [OF inv2], folded st_def] room2 c]
    have wf: "service_wf dur a (set_state a (st\<lparr>ss_cluster := c, ss_subscribers := subs\<rparr>) s3)"
      if "service_inv dur a s3" "state_at a s3 = st" for subs s3
      by (rule set_state_wf [OF service_inv_wf [OF that(1)]]) (use hc loaded that in auto)
    have keep: "service_inv dur a (set_state a (st\<lparr>ss_cluster := c, ss_subscribers := subs\<rparr>) s3)"
      if "service_inv dur a s3" "state_at a s3 = st" "\<not> hr_Changed result" for subs s3
      by (rule set_state_inv [OF that(1)]) (use hc loaded that in auto)
    have "hr_Stale result \<Longrightarrow> \<not> hr_Changed result"
      using c by (auto simp: ApplyHeartbeat_def Let_def split_beta split: option.splits if_splits)
    with keep [OF inv2, of "ss_subscribers st"] have stale: "service_inv dur a (set_state a (st\<lparr>ss_cluster := c\<rparr>) s2)"
      if "hr_Stale result" using that by (simp add: st_def)
    define s3 where "s3 = (case map_of (ss_subscribers st) (hb_node_id hb) of
                  Some current \<Rightarrow> if current \<noteq> n then on_sub current closeSubscriber s2 else s2
                | None \<Rightarrow> s2)"
    have s3: "service_inv dur a s3" "state_at a s3 = st"
      by (auto simp: s3_def st_def inv2 close_inv split: option.split)
    have s3': "(case map_of (ss_subscribers st) (hb_node_id hb) of
                  Some current \<Rightarrow> if current \<noteq> n then on_sub current closeSubscriber (set_state a st' s2) else set_state a st' s2
                | None \<Rightarrow> set_state a st' s2) = set_state a st' s3" for st'
      by (simp add: s3_def on_sub_set_state split: option.split)
    show ?thesis
      using stale broadcast_inv [OF wf [OF s3]] sendLatest_inv [OF keep [OF s3]] keep [OF s3]
      by (simp add: registerHeartbeat_def a l None s2_def [symmetric] st_def [symmetric] obs_def [symmetric] c Let_def s3'
          cong: if_cong option.case_cong del: One_nat_def)
  qed
qed

lemma observe_inv:
  assumes inv: "service_inv dur a s" and doc: "fsm_documented event" and room: "has_room a s"
  shows "service_inv dur a (ObservePods event clock a observations s)"
proof -
  obtain r s1 where l: "loadEpochLocked a (stateFor a s) = (r, s1)" by fastforce
  note li = load_inv [OF stateFor_inv [OF inv] l]
  show ?thesis
  proof (cases r)
    case (Some err)
    with l li inv show ?thesis by (simp add: ObservePods_def)
  next
    case None
    let ?st = "state_at a s1"
    have room1: "stack_epoch a s1 < 2 ^ 63 - 1" using room l by (simp add: has_room_def)
    have wf1: "cluster_wf (ss_cluster ?st)" and loaded: "ss_loadedEpoch ?st"
      using li None service_wf_cluster(1) [OF service_inv_wf] by blast+
    obtain changed c where c: "ApplyPodObservations event (clock 0) observations (tc_ExpireAfter (sv_cfg s1)) (clock 0) (ss_cluster ?st)
        = (changed, c)" by fastforce
    have cw: "cluster_wf c"
      using step_wf [OF cluster_step.pods [OF room1, of event "clock 0" observations "tc_ExpireAfter (sv_cfg s1)" "clock 0"] doc wf1] c by simp
    have ce: "cs_epoch c = stack_epoch a s1 + (if changed then 1 else 0)"
      using sweep_epoch [OF wf1 room1, of "observe_node event observations (tc_ExpireAfter (sv_cfg s1)) (clock 0)"] c
      by (simp add: ApplyPodObservations_sweep)
    have w: "service_wf dur a (set_state a (?st\<lparr>ss_cluster := c\<rparr>) s1)"
      by (rule set_state_wf) (use li cw ce loaded in \<open>auto simp: service_inv_def\<close>)
    have "\<not> changed \<Longrightarrow> service_inv dur a (set_state a (?st\<lparr>ss_cluster := c\<rparr>) s1)"
      by (rule set_state_inv) (use li cw ce loaded in auto)
    then show ?thesis
      using broadcast_inv [OF w] inv c None l by (simp add: ObservePods_def Let_def)
  qed
qed

lemma get_inv:
  assumes inv: "service_inv dur a s" and doc: "fsm_documented event" and room: "has_room a s"
    and g: "GetTopology event clock a s = (r, s')"
  shows "service_inv dur a s' \<and>
    (\<forall>e. r = Inr e \<longrightarrow> env_epoch e \<le> dur (sv_es s') a)"
proof -
  obtain e s1 where l: "loadEpochLocked a (stateFor a s) = (e, s1)" by fastforce
  note li = load_inv [OF stateFor_inv [OF inv] l]
  have pos: "0 \<le> dur es a" for es
    using service_wf_store [OF service_inv_wf [OF inv]] unfolding durable_store_def by metis
  show ?thesis
  proof (cases "a = [] \<or> \<not> isPrimary s \<or> e \<noteq> None")
    case True
    with g l li inv pos show ?thesis
      by (auto simp: GetTopology_def standbyEnvelope_def split: if_splits)
  next
    case False
    define s2 where "s2 = pruneExpiredLocked event (clock 1) a (clock 0) s1"
    have room1: "stack_epoch a s1 < 2 ^ 63 - 1" using room l by (simp add: has_room_def)
    note pi = prune_inv [OF li [THEN conjunct1] doc room1, of "clock 1" "clock 0", folded s2_def]
    obtain e3 s3 where sv: "saveEpochLocked a (stack_epoch a s2) s2 = (e3, s3)" by fastforce
    note si = save_inv [OF service_inv_wf [OF pi [THEN conjunct1]] sv]
    from False g l show ?thesis
      using si by (cases e3) (auto simp: GetTopology_def Let_def s2_def [symmetric] sv simp del: One_nat_def)
  qed
qed

lemma single_stack: "service_wf dur a s \<Longrightarrow> sv_stacks s = [] \<or> (\<exists>st. sv_stacks s = [(a, st)])"
  by (cases "sv_stacks s" rule: list.exhaust; cases "tl (sv_stacks s)")
     (auto simp: service_wf_def gomap_def)

lemma reaper_inv:
  assumes "service_inv dur a s" "fsm_documented event" "stack_epoch a s < 2 ^ 63 - 1"
  shows "service_inv dur a (reaper_tick event clock now s)"
  using single_stack [OF service_inv_wf [OF assms(1)]] prune_inv [OF assms] assms(1)
  by (auto simp: reaper_tick_def pruneExpired_def)

lemma bookworm_inv: "service_inv dur a s \<Longrightarrow> service_inv dur a (bookworm_tick clock s)"
  using single_stack [OF service_inv_wf, of dur a s] broadcast_inv [OF service_inv_wf, of dur a s]
  by (auto simp: bookworm_tick_def broadcastSnapshots_def)

lemma watch_step_inv: "service_inv dur a s \<Longrightarrow> service_inv dur a (snd (watch_step a node n c s))"
  by (auto simp: watch_step_def unregister_inv recv_inv Let_def
      split: watch_case.split option.split list.split)

lemma new_sub_inv:
  assumes "service_inv dur a s" "sub_ch x = []"
  shows "service_inv dur a (s\<lparr>sv_subs := AList.update n x (sv_subs s)\<rparr>)"
  using assms by (auto simp: service_inv_def service_wf_def all_subs_def update_conv' chan_ok_def)

lemma load_epoch_eq:
  "stack_epoch a (snd (loadEpochLocked a s)) =
    (if ss_loadedEpoch (state_at a s) then stack_epoch a s
     else case tc_EpochStore (sv_cfg s) of None \<Rightarrow> stack_epoch a s
       | Some store \<Rightarrow> (case fst (es_LoadEpoch store a (sv_es s)) of Inl _ \<Rightarrow> stack_epoch a s
           | Inr e \<Rightarrow> cs_epoch (BumpEpochAtLeast e (ss_cluster (state_at a s)))))"
  by (simp add: loadEpochLocked_def Let_def split: option.split prod.split sum.split)

lemma has_room_subs: "has_room a (s\<lparr>sv_subs := subs\<rparr>) = has_room a s"
  by (simp add: has_room_def load_epoch_eq cong: option.case_cong sum.case_cong)

lemma watch_start_inv:
  assumes inv: "service_inv dur a s" and doc: "fsm_documented event" and room: "has_room a s"
    and a: "\<And>hb. recv = Inr hb \<Longrightarrow> hb_stack_id hb = a"
  shows "service_inv dur a (snd (Watch_start event clock recv s))"
proof (cases "\<exists>hb. recv = Inr hb \<and> validateHeartbeat hb = None \<and> isPrimary s")
  case True
  then obtain hb where hb: "recv = Inr hb" "validateHeartbeat hb = None" "isPrimary s" by blast
  let ?s = "s\<lparr>sv_subs := AList.update (fresh_sub s) \<lparr>sub_nodeID = hb_node_id hb, sub_ch = [], sub_done = Some False\<rparr> (sv_subs s)\<rparr>"
  have "service_inv dur a ?s" by (rule new_sub_inv [OF inv]) simp
  then have "service_inv dur a (snd (registerHeartbeat event clock hb (fresh_sub s) ?s))"
    by (rule register_inv [OF _ doc]) (simp_all add: has_room_subs room a [OF hb(1)])
  with hb show ?thesis by (auto simp: Watch_start_def Let_def split: prod.split option.split)
next
  case False
  with inv show ?thesis by (auto simp: Watch_start_def split: sum.split option.split)
qed

text \<open>The calls of all goroutines on a service that only sees stack \<open>a\<close>, in any order.  In \<open>world\<close> the
  epoch store moves on by itself.\<close>

inductive quick_step :: "fsm_library \<Rightarrow> ('es \<Rightarrow> string \<Rightarrow> int64) \<Rightarrow> string \<Rightarrow> 'es Service \<Rightarrow> 'es Service \<Rightarrow> bool"
  for event dur a where
  watch: "has_room a s \<Longrightarrow> (\<And>hb. recv = Inr hb \<Longrightarrow> hb_stack_id hb = a) \<Longrightarrow>
    quick_step event dur a s (snd (Watch_start event clock recv s))"
| receive: "has_room a s \<Longrightarrow> quick_step event dur a s (snd (receive_step event clock a node inc n recv s))"
| turn: "quick_step event dur a s (snd (watch_step a node n c s))"
| get: "has_room a s \<Longrightarrow> quick_step event dur a s (snd (GetTopology event clock a s))"
| pods: "has_room a s \<Longrightarrow> quick_step event dur a s (ObservePods event clock a observations s)"
| reap: "stack_epoch a s < 2 ^ 63 - 1 \<Longrightarrow> quick_step event dur a s (reaper_tick event sweep_clock now s)"
| bookworm: "quick_step event dur a s (bookworm_tick sweep_clock s)"
| observer: "lh_degraded h = False \<Longrightarrow> quick_step event dur a s (AddLeadershipObserver (Some h) s)"
| world: "(\<And>b. dur (sv_es s) b \<le> dur es b) \<Longrightarrow> quick_step event dur a s (s\<lparr>sv_es := es\<rparr>)"

text \<open>A change of leadership, whose pause lets the other goroutines run, and whose generation is
  none or not older.\<close>

inductive service_step :: "fsm_library \<Rightarrow> ('es \<Rightarrow> string \<Rightarrow> int64) \<Rightarrow> string \<Rightarrow> 'es Service \<Rightarrow> 'es Service \<Rightarrow> bool"
  for event dur a where
  quick: "quick_step event dur a s s' \<Longrightarrow> service_step event dur a s s'"
| leadership: "(\<And>t. (quick_step event dur a)\<^sup>*\<^sup>* t (pause t)) \<Longrightarrow>
    generation \<le> 0 \<or> tc_Generation (sv_cfg s) \<le> generation \<Longrightarrow>
    service_step event dur a s (SetLeadership pause role generation s)"

lemma receive_inv:
  assumes "service_inv dur a s" "fsm_documented event" "has_room a s"
  shows "service_inv dur a (snd (receive_step event clock a node inc n recv s))"
  using assms register_inv [OF assms] by (auto simp: receive_step_def split: sum.split option.split)

lemma world_inv: "service_inv dur a s \<Longrightarrow> (\<And>b. dur (sv_es s) b \<le> dur es b) \<Longrightarrow> service_inv dur a (s\<lparr>sv_es := es\<rparr>)"
  using es_wf [of dur a s es] by (simp add: service_inv_def) (metis order_trans)

lemma observer_inv: "service_inv dur a s \<Longrightarrow> service_inv dur a (AddLeadershipObserver h s)"
  by (auto simp: AddLeadershipObserver_def service_inv_def service_wf_def all_subs_def Let_def split: option.split)

lemma quick_step_inv:
  assumes "quick_step event dur a s s'" "fsm_documented event" "service_inv dur a s"
  shows "service_inv dur a s'"
  using assms(1)
proof cases
  case (get clock)
  then show ?thesis using get_inv [OF assms(3,2) get(2)] by (metis prod.collapse)
qed (use assms(2,3) in \<open>simp_all add: watch_start_inv receive_inv watch_step_inv observe_inv reaper_inv bookworm_inv
      observer_inv world_inv\<close>)

lemma quick_run_inv:
  "(quick_step event dur a)\<^sup>*\<^sup>* s s' \<Longrightarrow> fsm_documented event \<Longrightarrow> service_inv dur a s \<Longrightarrow> service_inv dur a s'"
  by (induction rule: rtranclp_induct) (auto intro: quick_step_inv)

lemma cfg_inv:
  assumes "service_inv dur a s" "tc_EpochStore cfg = tc_EpochStore (sv_cfg s)" "tc_Generation (sv_cfg s) \<le> tc_Generation cfg"
  shows "service_inv dur a (s\<lparr>sv_cfg := cfg\<rparr>)"
proof -
  have "all_subs (\<lambda>x. chan_ok (dur (sv_es s) a) (tc_Generation cfg, stack_epoch a s) (sub_ch x)) s"
    by (rule all_subs_mono [where P = "\<lambda>x. chan_ok (dur (sv_es s) a) (tc_Generation (sv_cfg s), stack_epoch a s) (sub_ch x)"])
       (use assms in \<open>simp_all add: service_inv_def service_wf_def chan_ok_mono pair_le_gen\<close>)
  with assms show ?thesis by (auto simp: service_inv_def service_wf_def all_subs_def)
qed

lemma demote_sub_inv:
  assumes "service_inv dur a s" "env_epoch e = 0" "\<not> from_primary e"
  shows "service_inv dur a (demote_sub e n s)"
proof -
  have pos: "0 \<le> dur es a" for es
    using service_wf_store [OF service_inv_wf [OF assms(1)]] unfolding durable_store_def by metis
  let ?s = "on_sub n try_recv s"
  have r: "service_inv dur a ?s" by (rule recv_inv [OF assms(1)])
  have "all_subs (\<lambda>x. chan_ok (dur (sv_es s) a) (tc_Generation (sv_cfg s), stack_epoch a s) (sub_ch x)) (on_sub n (try_send e) ?s)"
    by (rule all_subs_on_sub)
       (use r assms(2,3) pos [of "sv_es s"] in \<open>auto simp: service_inv_def service_wf_def sub_ch_try_send chan_ok_standby\<close>)
  with r show ?thesis unfolding demote_sub_def by (auto simp: service_inv_def service_wf_def)
qed

lemma demote_sub_frame [simp]:
  "state_at b (demote_sub e n s) = state_at b s" "sv_cfg (demote_sub e n s) = sv_cfg s"
  "sv_stacks (demote_sub e n s) = sv_stacks s" "sv_epochErr (demote_sub e n s) = sv_epochErr s"
  "sv_observers (demote_sub e n s) = sv_observers s"
  by (simp_all add: demote_sub_def)

lemma fold_demote_frame [simp]:
  fixes s :: "'es Service"
  defines "r xs e \<equiv> fold (\<lambda>(node, sub). demote_sub e sub) xs s"
  shows "state_at b (r xs e) = state_at b s" "sv_cfg (r xs e) = sv_cfg s" "sv_stacks (r xs e) = sv_stacks s"
    "sv_epochErr (r xs e) = sv_epochErr s" "sv_observers (r xs e) = sv_observers s"
  unfolding r_def by (induction xs arbitrary: s) (auto simp: split_beta)

lemma fold_demote_inv:
  "service_inv dur a s \<Longrightarrow> env_epoch e = 0 \<Longrightarrow> \<not> from_primary e \<Longrightarrow>
    service_inv dur a (fold (\<lambda>(node, sub). demote_sub e sub) xs s)"
  by (induction xs arbitrary: s) (auto simp: split_beta demote_sub_inv)

lemma demote_stack_inv:
  assumes "service_inv dur a s" "\<not> isPrimary s"
  shows "service_inv dur a (demote_stack a s)"
proof -
  let ?s = "fold (\<lambda>(node, sub). demote_sub (standbyEnvelope a s) sub) (ss_subscribers (state_at a s)) s"
  have i: "service_inv dur a ?s"
    by (rule fold_demote_inv [OF assms(1)]) (use assms(2) in \<open>simp_all add: standbyEnvelope_def isPrimary_def\<close>)
  show ?thesis
    unfolding demote_stack_def Let_def
    by (rule set_state_inv [OF i])
       (use service_wf_cluster [OF service_inv_wf [OF assms(1)]] in \<open>auto\<close>)
qed

lemma close_subscribers_inv:
  assumes "service_inv dur a s" "\<not> isPrimary s" "\<And>t. service_inv dur a t \<Longrightarrow> service_inv dur a (pause t)"
  shows "service_inv dur a (closeSubscribersForLeadershipChange pause s)"
proof -
  have fold_close: "service_inv dur a t \<Longrightarrow> service_inv dur a (fold (\<lambda>sub. on_sub sub closeSubscriber) xs t)" for xs t
    by (induction xs arbitrary: t) (auto simp: close_inv)
  have "service_inv dur a (fold demote_stack (map fst (sv_stacks s)) s)"
    using single_stack [OF service_inv_wf [OF assms(1)]] demote_stack_inv [OF assms(1,2)] assms(1) by auto
  with assms(3) fold_close show ?thesis
    by (simp add: closeSubscribersForLeadershipChange_def Let_def)
qed

lemma observers_irrelevant: "service_inv dur a (s\<lparr>sv_observers := obs\<rparr>) = service_inv dur a s"
  by (simp add: service_inv_def service_wf_def all_subs_def)

lemma service_step_inv:
  assumes "service_step event dur a s s'" "fsm_documented event" "service_inv dur a s"
  shows "service_inv dur a s'"
  using assms(1)
proof cases
  case quick
  then show ?thesis using quick_step_inv assms by blast
next
  case (leadership pause generation role)
  have p: "service_inv dur a t \<Longrightarrow> service_inv dur a (pause t)" for t
    using quick_run_inv [OF leadership(2) assms(2)] by blast
  define cfg where "cfg = (if generation > 0 then (sv_cfg s)\<lparr>tc_Role := role, tc_Generation := generation\<rparr>
    else (sv_cfg s)\<lparr>tc_Role := role\<rparr>)"
  have "service_inv dur a (s\<lparr>sv_cfg := cfg\<rparr>)"
    by (rule cfg_inv [OF assms(3)]) (use leadership(3) in \<open>auto simp: cfg_def\<close>)
  moreover have "role \<noteq> WATCHDOG_ROLE_PRIMARY \<Longrightarrow> \<not> isPrimary (s\<lparr>sv_cfg := cfg\<rparr>)" by (simp add: isPrimary_def cfg_def)
  ultimately show ?thesis
    using close_subscribers_inv [OF _ _ p, of "s\<lparr>sv_cfg := cfg\<rparr>"] leadership(1)
    by (simp add: SetLeadership_def Let_def observers_irrelevant cfg_def)
qed

lemma service_run_inv:
  "(service_step event dur a)\<^sup>*\<^sup>* s s' \<Longrightarrow> fsm_documented event \<Longrightarrow> service_inv dur a s \<Longrightarrow> service_inv dur a s'"
  by (induction rule: rtranclp_induct) (auto intro: service_step_inv)

lemma tc_withDefaults_store [simp]: "tc_EpochStore (tc_withDefaults t cfg) = tc_EpochStore cfg"
  by (simp add: tc_withDefaults_def Let_def)

lemma new_service_inv:
  assumes "tc_EpochStore cfg = Some store" "durable_store store dur"
  shows "service_inv dur a (NewServiceWithConfig t es cfg)"
proof -
  have "0 \<le> dur es a" using assms(2) by (simp add: durable_store_def)
  with assms New_wf show ?thesis
    by (simp add: service_inv_def service_wf_def NewServiceWithConfig_def state_at_def new_stackState_def
        all_subs_def cluster_wf_def NewClusterState_def)
qed

section \<open>The ConfigMap as epoch store\<close>

text \<open>The store the watchdog runs with; \<open>the\<close> reads the result of a save that returns.\<close>

definition configmap_store :: "'k k8s_client \<Rightarrow> ConfigMapEpochStore \<Rightarrow> 'k EpochStore" where
  "configmap_store cl st = \<lparr>es_LoadEpoch = (\<lambda>stackID. LoadEpoch cl st),
     es_SaveEpoch = (\<lambda>stackID epoch k. the (SaveEpoch cl st epoch k))\<rparr>"

definition configmap_epoch :: "(namespaced_name \<Rightarrow> 'k \<Rightarrow> ConfigMap option) \<Rightarrow> ConfigMapEpochStore \<Rightarrow> 'k \<Rightarrow> string \<Rightarrow> int64" where
  "configmap_epoch stored st k stackID = (case counter epochKey (stored (store_key st) k) of None \<Rightarrow> 0 | Some c \<Rightarrow> max 0 c)"

lemma LoadEpoch_counter:
  assumes opt: "optimistic cl others stored" and l: "LoadEpoch cl st k = (r, k')"
  shows "others k k'" "r = Inr e \<Longrightarrow> counter epochKey (stored (store_key st) k') = Some e \<and> i64_range e"
proof -
  obtain g k1 where g: "k_Get cl (store_key st) k = (g, k1)" by fastforce
  note law = Get_law [OF opt g]
  have k1: "k' = k1"
    using l g by (auto simp: LoadEpoch_def Let_def split: sum.splits if_splits option.splits)
  then show "others k k'" using law(1) by simp
  assume "r = Inr e"
  then show "counter epochKey (stored (store_key st) k') = Some e \<and> i64_range e"
  proof (cases g)
    case (Inl err)
    with \<open>r = Inr e\<close> l g law(3) k1 show ?thesis
      by (auto simp: LoadEpoch_def i64_range_def split: if_splits)
  next
    case (Inr cm)
    have "counter epochKey (Some cm) = Some e \<and> i64_range e"
      using \<open>r = Inr e\<close> l g Inr ParseInt_range
      by (auto simp: LoadEpoch_def Let_def counter_def parseStoredCounter_def data_at_def i64_range_def
          split: if_splits option.splits)
    with law(2) [OF Inr] k1 show ?thesis by simp
  qed
qed

lemma kept_epoch: "kept stored (store_key st) k k' \<Longrightarrow> configmap_epoch stored st k a \<le> configmap_epoch stored st k' b"
  by (auto simp: kept_def configmap_epoch_def not_lowered_def split: option.splits)

lemma configmap_durable:
  assumes "optimistic cl others stored" and "keeps_counters others (stored (store_key st))" and "retries_end cl rank"
  shows "durable_store (configmap_store cl st) (configmap_epoch stored st)"
  unfolding durable_store_def
proof (intro conjI allI impI)
  show "0 \<le> configmap_epoch stored st es a" for es a by (simp add: configmap_epoch_def split: option.split)
next
  fix a es r es' b
  assume "es_LoadEpoch (configmap_store cl st) a es = (r, es')"
  then have l: "LoadEpoch cl st es = (r, es')" by (simp add: configmap_store_def)
  show "configmap_epoch stored st es b \<le> configmap_epoch stored st es' b"
    by (rule kept_epoch, rule others_kept [of others stored, OF assms(2) LoadEpoch_counter(1) [OF assms(1) l]])
  show "e \<le> configmap_epoch stored st es' a" "i64_range e" if "r = Inr e" for e
    using LoadEpoch_counter(2) [OF assms(1) l that] by (simp_all add: configmap_epoch_def)
next
  fix a e es r es' b
  assume e: "0 \<le> e" "i64_range e" and "es_SaveEpoch (configmap_store cl st) a e es = (r, es')"
  then have "SaveEpoch cl st e es = Some (r, es')"
    using SaveEpoch_returns [OF assms(3), of st e es] by (auto simp: configmap_store_def)
  note k = SaveEpoch_kept [OF assms(1,2) e this]
  show "configmap_epoch stored st es b \<le> configmap_epoch stored st es' b"
    by (rule kept_epoch [OF k [THEN conjunct1]])
  show "e \<le> configmap_epoch stored st es' a" if "r = None"
    using k that by (auto simp: configmap_epoch_def not_lowered_Some)
qed

section \<open>Properties of the service\<close>

definition demo_config :: "'k EpochStore option \<Rightarrow> 'k Config" where
  "demo_config store = \<lparr>tc_SuspectAfter = 0, tc_ExpireAfter = 0, tc_ReapInterval = 0, tc_BookwormInterval = 0,
     tc_LeaseTTL = 0, tc_WatchdogID = ''w'', tc_Generation = 3, tc_Role = WATCHDOG_ROLE_PRIMARY, tc_EpochStore = store\<rparr>"

definition demo_hb :: "string \<Rightarrow> int64 \<Rightarrow> Heartbeat" where
  "demo_hb stackID observed = \<lparr>hb_stack_id = stackID, hb_node_id = ''n1'', hb_pod_name = ''p1'', hb_pod_ip = ''10.0.0.1'',
     hb_incarnation = 1, hb_observed_epoch = observed, hb_state = NODE_STATE_READY, hb_protocol_version = ''v1''\<rparr>"

definition demo_new :: "lone_server Service" where
  "demo_new = NewServiceWithConfig 0 (None, 0) (demo_config (Some (configmap_store lone_client demo_store)))"

definition demo_watched :: "lone_server Service" where
  "demo_watched = snd (Watch_start fsm_table (\<lambda>_. second) (Inr (demo_hb ''s'' 0)) demo_new)"

abbreviation demo_dur :: "lone_server \<Rightarrow> string \<Rightarrow> int64" where
  "demo_dur \<equiv> configmap_epoch lone_stored demo_store"

lemma demo_watched_reached: "(service_step fsm_table demo_dur ''s'')\<^sup>*\<^sup>* demo_new demo_watched"
proof -
  have "has_room ''s'' demo_new" by (simp add: has_room_def load_epoch_eq) code_simp
  then have "quick_step fsm_table demo_dur ''s'' demo_new demo_watched"
    unfolding demo_watched_def by (rule quick_step.watch) (auto simp: demo_hb_def)
  then show ?thesis by (blast intro: service_step.quick)
qed

lemma demo_watched_chan:
  "map_option (\<lambda>x. map env_epoch (sub_ch x)) (map_of (sv_subs demo_watched) 1) = Some [1]"
  by code_simp



text \<open>Two stacks on one watchdog: the store refuses the epochs of stack \<open>a\<close> and takes those of others.\<close>

definition picky_store :: "(string \<Rightarrow> int64) EpochStore" where
  "picky_store = \<lparr>es_LoadEpoch = (\<lambda>a es. (Inr (es a), es)),
     es_SaveEpoch = (\<lambda>a e es. if a = ''a'' then (Some (ErrAPI Conflict), es) else (None, es(a := max e (es a))))\<rparr>"

definition picky_dur :: "(string \<Rightarrow> int64) \<Rightarrow> string \<Rightarrow> int64" where
  "picky_dur es a = es a"


text \<open>C34. A failed save is not retried: while the epoch error is set, the ticks of the reaper and of
  the bookworm do nothing, and a heartbeat that changes nothing in the cluster leaves the error set,
  does not call the store and sends nothing, even when the node's observed epoch is behind.\<close>

theorem failed_save_not_retried:
  assumes "sv_epochErr s = Some err" and "ss_loadedEpoch (state_at a s)" and "map_of (sv_stacks s) a \<noteq> None"
    and "hb_stack_id hb = a"
    and "\<not> fst (PruneExpired event (clock 0) (tc_SuspectAfter (sv_cfg s)) (tc_ExpireAfter (sv_cfg s)) (clock 0) (ss_cluster (state_at a s)))"
    and "\<not> hr_Changed (fst (ApplyHeartbeat event (clock 0) (heartbeat_observation (clock 0) hb)
      (snd (PruneExpired event (clock 0) (tc_SuspectAfter (sv_cfg s)) (tc_ExpireAfter (sv_cfg s)) (clock 0) (ss_cluster (state_at a s))))))"
  shows "reaper_tick event sweep_clock now s = s \<and> bookworm_tick sweep_clock s = s \<and>
    (let s' = snd (registerHeartbeat event clock hb n s)
     in sv_epochErr s' = Some err \<and> sv_es s' = sv_es s \<and>
        (\<forall>m. map_option sub_ch (map_of (sv_subs s') m) = map_option sub_ch (map_of (sv_subs s) m)))"
proof -
  let ?c = "snd (PruneExpired event (clock 0) (tc_SuspectAfter (sv_cfg s)) (tc_ExpireAfter (sv_cfg s)) (clock 0) (ss_cluster (state_at a s)))"
  have sf: "stateFor a s = s" using assms(3) by (auto simp: stateFor_def)
  have ld: "loadEpochLocked a s = (None, s)" using assms(2) by (simp add: loadEpochLocked_def)
  have pr: "pruneExpiredLocked event (clock 1) a (clock 0) s = set_state a ((state_at a s)\<lparr>ss_cluster := ?c\<rparr>) s"
    using assms(5) by (simp add: pruneExpiredLocked_def Let_def split_beta)
  have cl: "map_option sub_ch (map_of (sv_subs (on_sub m closeSubscriber t)) m') = map_option sub_ch (map_of (sv_subs t) m')" for m m' and t :: "'a Service"
    by (simp add: subs_on_sub option.map_comp o_def)
  show ?thesis
    using assms(1,6)
    by (simp add: reaper_tick_def bookworm_tick_def registerHeartbeat_def assms(4) sf ld pr Let_def split_beta
        sendLatestLocked_def cl split: option.split del: One_nat_def)
qed

definition demo_failed :: "(string \<Rightarrow> int64) Service" where
  "demo_failed = snd (Watch_start fsm_table (\<lambda>_. second) (Inr (demo_hb ''a'' 0))
     (NewServiceWithConfig 0 (\<lambda>_. 0) (demo_config (Some picky_store))))"

theorem failed_save_not_retried_witness:
  "reaper_tick fsm_table (\<lambda>_. 2 * second) (2 * second) demo_failed = demo_failed \<and>
   bookworm_tick (\<lambda>_. 2 * second) demo_failed = demo_failed \<and>
   (let s' = snd (registerHeartbeat fsm_table (\<lambda>_. 2 * second) (demo_hb ''a'' 0) 1 demo_failed)
    in sv_epochErr s' = Some (SaveFailed (ErrAPI Conflict)) \<and> sv_es s' = sv_es demo_failed \<and>
       (\<forall>m. map_option sub_ch (map_of (sv_subs s') m) = map_option sub_ch (map_of (sv_subs demo_failed) m)))"
proof (rule failed_save_not_retried [where a = "''a''"])
  show "sv_epochErr demo_failed = Some (SaveFailed (ErrAPI Conflict))" by code_simp
  show "ss_loadedEpoch (state_at ''a'' demo_failed)" by code_simp
  show "map_of (sv_stacks demo_failed) ''a'' \<noteq> None" by code_simp
  show "hb_stack_id (demo_hb ''a'' 0) = ''a''" by code_simp
qed code_simp+

text \<open>The effect of a demotion on one subscriber.\<close>

lemma fold_demote_sub:
  "distinct (map snd xs) \<Longrightarrow> map_of (sv_subs (fold (\<lambda>(node, sub). demote_sub e sub) xs s)) n =
    (if n \<in> snd ` set xs then map_option (try_send e \<circ> try_recv) (map_of (sv_subs s) n) else map_of (sv_subs s) n)"
proof (induction xs arbitrary: s)
  case (Cons x xs)
  then show ?case
    by (cases x) (auto simp: demote_sub_def subs_on_sub option.map_comp image_iff o_def)
qed simp

lemma demote_stack_simps:
  "sv_cfg (demote_stack b s) = sv_cfg s"
  "state_at c (demote_stack b s) = (if c = b then (state_at b s)\<lparr>ss_subscribers := []\<rparr> else state_at c s)"
  "sv_subs (demote_stack b s) =
    sv_subs (fold (\<lambda>(node, sub). demote_sub (standbyEnvelope b s) sub) (ss_subscribers (state_at b s)) s)"
  by (simp_all add: demote_stack_def Let_def)

definition registered :: "'es Service \<Rightarrow> string \<Rightarrow> nat set" where
  "registered s b = snd ` set (ss_subscribers (state_at b s))"

lemma registered_demote: "c \<noteq> k \<Longrightarrow> registered (demote_stack k s) c = registered s c"
  by (simp add: registered_def demote_stack_simps)

lemma demote_stack_other:
  assumes "n \<notin> registered s k" "distinct (map snd (ss_subscribers (state_at k s)))"
  shows "map_of (sv_subs (demote_stack k s)) n = map_of (sv_subs s) n"
  using assms by (simp add: demote_stack_simps fold_demote_sub registered_def)

lemma fold_demote_other:
  assumes "\<And>c. c \<in> set ks \<Longrightarrow> n \<notin> registered s c" "b \<notin> set ks" "distinct ks"
    and "\<And>c. c \<in> set ks \<Longrightarrow> distinct (map snd (ss_subscribers (state_at c s)))"
  shows "map_of (sv_subs (fold demote_stack ks s)) n = map_of (sv_subs s) n \<and>
    ss_subscribers (state_at b (fold demote_stack ks s)) = ss_subscribers (state_at b s)"
  using assms
proof (induction ks arbitrary: s)
  case (Cons k ks)
  have "n \<notin> registered (demote_stack k s) c" if "c \<in> set ks" for c
    using Cons.prems(1) [of c] Cons.prems(3) that by (subst registered_demote) auto
  then have "map_of (sv_subs (fold demote_stack ks (demote_stack k s))) n = map_of (sv_subs (demote_stack k s)) n \<and>
    ss_subscribers (state_at b (fold demote_stack ks (demote_stack k s))) = ss_subscribers (state_at b (demote_stack k s))"
    using Cons.prems(2-4) by (intro Cons.IH) (auto simp: demote_stack_simps)
  with Cons.prems demote_stack_other [of n s k] show ?case by (simp add: demote_stack_simps)
qed simp

lemma fold_demote_stack:
  assumes "distinct ks" "\<And>b. b \<in> set ks \<Longrightarrow> distinct (map snd (ss_subscribers (state_at b s)))"
    and "\<And>b c. b \<in> set ks \<Longrightarrow> c \<in> set ks \<Longrightarrow> b \<noteq> c \<Longrightarrow> registered s b \<inter> registered s c = {}"
    and "b \<in> set ks" "n \<in> registered s b"
  shows "map_of (sv_subs (fold demote_stack ks s)) n =
      map_option (try_send (standbyEnvelope b s) \<circ> try_recv) (map_of (sv_subs s) n) \<and>
    ss_subscribers (state_at b (fold demote_stack ks s)) = []"
  using assms
proof (induction ks arbitrary: s)
  case (Cons k ks)
  let ?s = "demote_stack k s"
  have n: "n \<notin> registered s c" if "c \<in> set (k # ks)" "c \<noteq> b" for c
    using Cons.prems(3) [OF that(1) Cons.prems(4) that(2)] Cons.prems(5) by auto
  have r: "registered ?s c = registered s c" if "c \<in> set ks" for c
    using Cons.prems(1) that by (intro registered_demote) auto
  show ?case
  proof (cases "b = k")
    case True
    have "map_of (sv_subs (fold demote_stack ks ?s)) n = map_of (sv_subs ?s) n \<and>
        ss_subscribers (state_at b (fold demote_stack ks ?s)) = ss_subscribers (state_at b ?s)"
      by (rule fold_demote_other) (use n r True Cons.prems(1,2) in \<open>auto simp: demote_stack_simps\<close>)
    with True Cons.prems show ?thesis by (simp add: demote_stack_simps fold_demote_sub registered_def o_def)
  next
    case False
    then have b: "b \<in> set ks" using Cons.prems(4) by simp
    have "map_of (sv_subs (fold demote_stack ks ?s)) n =
        map_option (try_send (standbyEnvelope b ?s) \<circ> try_recv) (map_of (sv_subs ?s) n) \<and>
      ss_subscribers (state_at b (fold demote_stack ks ?s)) = []"
    proof (rule Cons.IH [OF _ _ _ b])
      show "registered ?s c \<inter> registered ?s d = {}" if "c \<in> set ks" "d \<in> set ks" "c \<noteq> d" for c d
        using Cons.prems(3) [of c d] that r by simp
    qed (use Cons.prems b r in \<open>auto simp: demote_stack_simps\<close>)
    moreover have "map_of (sv_subs ?s) n = map_of (sv_subs s) n"
      using demote_stack_other [of n s k] n [of k] False Cons.prems(2) by simp
    moreover have "standbyEnvelope b ?s = standbyEnvelope b s" by (simp add: standbyEnvelope_def demote_stack_simps)
    ultimately show ?thesis by (simp add: o_def)
  qed
qed simp

lemma fold_close_sub:
  "map_of (sv_subs (fold (\<lambda>sub. on_sub sub closeSubscriber) xs s)) n =
    (if n \<in> set xs then map_option closeSubscriber (map_of (sv_subs s) n) else map_of (sv_subs s) n)"
proof -
  have idem: "closeSubscriber (closeSubscriber x) = closeSubscriber x" for x
    by (simp add: closeSubscriber_def split: option.split)
  show ?thesis by (induction xs arbitrary: s) (auto simp: subs_on_sub option.map_comp o_def idem)
qed

lemma fold_close_frame: "state_at b (fold (\<lambda>sub. on_sub sub closeSubscriber) xs s) = state_at b s"
  by (induction xs arbitrary: s) auto

lemma demotion_effect:
  assumes "isPrimary s" and "role \<noteq> WATCHDOG_ROLE_PRIMARY" and "gomap (sv_stacks s)"
    and "\<And>b. distinct (map snd (ss_subscribers (state_at b s)))"
    and "\<And>b c. b \<noteq> c \<Longrightarrow> registered s b \<inter> registered s c = {}"
    and "n \<in> registered s a" and "map_of (sv_stacks s) a \<noteq> None"
    and "map_of (sv_subs s) n = Some x" and "length (sub_ch x) \<le> 8"
    and s': "s' = SetLeadership (\<lambda>t. t) role generation s"
  shows "ss_subscribers (state_at a s') = [] \<and>
    map_of (sv_subs s') n = Some (x\<lparr>sub_ch := tl (sub_ch x) @ [standbyEnvelope a s'],
      sub_done := map_option (\<lambda>_. True) (sub_done x)\<rparr>) \<and>
    env_watchdog_role (standbyEnvelope a s') = role"
proof -
  define cfg where "cfg = (if generation > 0 then (sv_cfg s)\<lparr>tc_Role := role, tc_Generation := generation\<rparr>
    else (sv_cfg s)\<lparr>tc_Role := role\<rparr>)"
  let ?s = "s\<lparr>sv_cfg := cfg\<rparr>"
  define ks where "ks = map fst (sv_stacks s)"
  define pending where "pending = concat (map (\<lambda>(stackID, st). map snd (ss_subscribers st)) (sv_stacks s))"
  have ks: "distinct ks" "a \<in> set ks"
    using assms(3,7) by (auto simp: ks_def gomap_def map_of_eq_None_iff)
  have reg: "registered ?s b = registered s b" for b by (simp add: registered_def)
  have d: "map_of (sv_subs (fold demote_stack ks ?s)) n =
      map_option (try_send (standbyEnvelope a ?s) \<circ> try_recv) (map_of (sv_subs ?s) n) \<and>
    ss_subscribers (state_at a (fold demote_stack ks ?s)) = []"
    by (rule fold_demote_stack [OF ks(1) _ _ ks(2)]) (use assms(4-6) in \<open>simp_all add: reg\<close>)
  obtain st where st: "map_of (sv_stacks s) a = Some st" using assms(7) by auto
  have "state_at a s = st" using st by (simp add: state_at_def)
  then have p: "n \<in> set pending"
    using assms(6) map_of_SomeD [OF st] by (force simp: pending_def registered_def)
  have cfg: "standbyEnvelope a (t\<lparr>sv_observers := obs\<rparr>) = standbyEnvelope a t" for t :: "'a Service" and obs
    by (simp add: standbyEnvelope_def)
  have frame: "sv_cfg (fold (\<lambda>sub. on_sub sub closeSubscriber) xs (fold demote_stack ls t)) = sv_cfg t" for xs ls and t :: "'a Service"
  proof -
    have "sv_cfg (fold (\<lambda>sub. on_sub sub closeSubscriber) xs u) = sv_cfg u" for u :: "'a Service"
      by (induction xs arbitrary: u) auto
    moreover have "sv_cfg (fold demote_stack ls t) = sv_cfg t"
      by (induction ls arbitrary: t) (auto simp: demote_stack_simps)
    ultimately show ?thesis by simp
  qed
  let ?t = "fold (\<lambda>sub. on_sub sub closeSubscriber) pending (fold demote_stack ks ?s)"
  have eq: "SetLeadership (\<lambda>t. t) role generation s =
      ?t\<lparr>sv_observers := map (health_SetLeadership role (tc_Generation cfg)) (sv_observers ?t)\<rparr>"
    using assms(1,2) by (simp add: SetLeadership_def Let_def isPrimary_def cfg_def
        closeSubscribersForLeadershipChange_def ks_def pending_def)
  have "standbyEnvelope a ?t = standbyEnvelope a ?s" by (simp add: standbyEnvelope_def frame)
  moreover have "env_watchdog_role (standbyEnvelope a ?s) = role" by (simp add: standbyEnvelope_def cfg_def)
  ultimately show ?thesis
    using d p assms(8,9)
    by (auto simp: s' eq fold_close_frame fold_close_sub cfg try_send_def try_recv_def closeSubscriber_def
        split: option.split)
qed

lemma demo_watched_shape:
  obtains st x where "sv_stacks demo_watched = [(''s'', st)]" "ss_subscribers st = [(''n1'', 1)]"
    "map_of (sv_subs demo_watched) 1 = Some x" "length (sub_ch x) = 1" "isPrimary demo_watched"
proof -
  have one: "map (\<lambda>(b, st). (b, ss_subscribers st)) (sv_stacks demo_watched) = [(''s'', [(''n1'', 1)])]" by code_simp
  then obtain st where "sv_stacks demo_watched = [(''s'', st)]" "ss_subscribers st = [(''n1'', 1)]"
    by auto
  moreover obtain x where "map_of (sv_subs demo_watched) 1 = Some x" "map env_epoch (sub_ch x) = [1]"
    by (rule map_option_SomeE [OF demo_watched_chan])
  moreover from this(2) have "length (sub_ch x) = 1" by (metis length_map length_Cons list.size(3) One_nat_def)
  moreover have "isPrimary demo_watched" by code_simp
  ultimately show thesis using that by blast
qed

text \<open>C32. A demotion with nothing else running in its pause: no stack keeps a subscriber, and every
  subscriber that was registered has its done channel closed and the standby envelope at the end
  of its channel, behind the envelopes that were already there except the oldest.\<close>

theorem demotion_posts_standby:
  assumes "isPrimary s" and "role \<noteq> WATCHDOG_ROLE_PRIMARY" and "gomap (sv_stacks s)"
    and "\<And>b. distinct (map snd (ss_subscribers (state_at b s)))"
    and "\<And>b c. b \<noteq> c \<Longrightarrow> registered s b \<inter> registered s c = {}"
    and "n \<in> registered s a" and "map_of (sv_stacks s) a \<noteq> None"
    and "map_of (sv_subs s) n = Some x" and "length (sub_ch x) \<le> 8"
  shows "let s' = SetLeadership (\<lambda>t. t) role generation s
    in ss_subscribers (state_at a s') = [] \<and>
       map_of (sv_subs s') n = Some (x\<lparr>sub_ch := tl (sub_ch x) @ [standbyEnvelope a s'],
         sub_done := map_option (\<lambda>_. True) (sub_done x)\<rparr>) \<and>
       env_watchdog_role (standbyEnvelope a s') = role"
  using demotion_effect [OF assms refl] by (simp add: Let_def)

theorem demotion_posts_standby_witness:
  "let s' = SetLeadership (\<lambda>t. t) WATCHDOG_ROLE_STANDBY 0 demo_watched
   in ss_subscribers (state_at ''s'' s') = [] \<and>
      map_option (\<lambda>x. (map env_watchdog_role (sub_ch x), sub_done x)) (map_of (sv_subs s') 1) =
        Some ([WATCHDOG_ROLE_STANDBY], Some True)"
proof -
  let ?s' = "SetLeadership (\<lambda>t. t) WATCHDOG_ROLE_STANDBY 0 demo_watched"
  obtain st x where stacks: "sv_stacks demo_watched = [(''s'', st)]" and st: "ss_subscribers st = [(''n1'', 1)]"
    and x: "map_of (sv_subs demo_watched) 1 = Some x" and len: "length (sub_ch x) = 1" and prim: "isPrimary demo_watched"
    by (rule demo_watched_shape)
  have subs: "ss_subscribers (state_at b demo_watched) = (if b = ''s'' then [(''n1'', 1)] else [])" for b
    by (simp add: state_at_def stacks st new_stackState_def)
  have "map_option sub_done (map_of (sv_subs demo_watched) 1) = Some (Some False)" by code_simp
  with x have dn: "sub_done x = Some False" by simp
  have *: "let s' = ?s' in ss_subscribers (state_at ''s'' s') = [] \<and>
       map_of (sv_subs s') 1 = Some (x\<lparr>sub_ch := tl (sub_ch x) @ [standbyEnvelope ''s'' s'],
         sub_done := map_option (\<lambda>_. True) (sub_done x)\<rparr>) \<and>
       env_watchdog_role (standbyEnvelope ''s'' s') = WATCHDOG_ROLE_STANDBY"
    by (rule demotion_posts_standby [OF prim])
       (auto simp: subs registered_def stacks x len gomap_def simp del: One_nat_def)
  have "tl (sub_ch x) = []" using len by (cases "sub_ch x") auto
  with * dn show ?thesis unfolding Let_def by simp
qed

section \<open>Health follows the service\<close>

text \<open>How an operation may change what the observers see: not at all, or by setting the error.\<close>

definition error_sets :: "'es Service \<Rightarrow> 'es Service \<Rightarrow> bool" where
  "error_sets s s' \<longleftrightarrow> tc_Role (sv_cfg s') = tc_Role (sv_cfg s) \<and>
     (sv_epochErr s' = sv_epochErr s \<and> sv_observers s' = sv_observers s \<or>
      sv_observers s' = map (SetDegraded (sv_epochErr s')) (sv_observers s))"

lemma SetDegraded_twice [simp]: "SetDegraded e (SetDegraded e' h) = SetDegraded e h"
  by (simp add: SetDegraded_def refreshLocked_def)

lemma error_sets_refl [simp]: "error_sets s s"
  by (simp add: error_sets_def)

lemma error_sets_trans: "error_sets a b \<Longrightarrow> error_sets b c \<Longrightarrow> error_sets a c"
  by (auto simp: error_sets_def)

lemma error_sets_same:
  "sv_cfg s' = sv_cfg s \<Longrightarrow> sv_epochErr s' = sv_epochErr s \<Longrightarrow> sv_observers s' = sv_observers s \<Longrightarrow> error_sets s s'"
  by (simp add: error_sets_def)

lemma error_sets_load: "error_sets s (snd (loadEpochLocked a s))"
  by (auto simp: error_sets_def loadEpochLocked_def Let_def split: option.split prod.split sum.split)

lemma error_sets_load_for: "loadEpochLocked a (stateFor a s) = (r, s1) \<Longrightarrow> error_sets s s1"
  using error_sets_load [of "stateFor a s" a] error_sets_trans [OF error_sets_same, of "stateFor a s" s] by simp

lemma error_sets_save: "error_sets s (snd (saveEpochLocked a e s))"
  by (auto simp: error_sets_def saveEpochLocked_def split: option.split prod.split)

lemma error_sets_broadcast: "error_sets s (broadcastLocked t a reason s)"
proof -
  obtain r s1 where r: "saveEpochLocked a (stack_epoch a s) s = (r, s1)" by fastforce
  then have "error_sets s s1" using error_sets_save [of s a "stack_epoch a s"] by simp
  moreover have "error_sets s1 (fold (\<lambda>(node, sub). on_sub sub f) xs s1)" for f xs by (rule error_sets_same) simp_all
  ultimately show ?thesis
    using r by (cases r) (auto simp: broadcastLocked_def Let_def intro: error_sets_trans)
qed

lemma error_sets_prune: "error_sets s (pruneExpiredLocked event t a now s)"
proof -
  have "error_sets s (set_state a st s)" for st by (rule error_sets_same) simp_all
  then show ?thesis
    using error_sets_broadcast error_sets_trans
    by (auto simp: pruneExpiredLocked_def Let_def split_beta) blast
qed

lemma error_sets_register: "error_sets s (snd (registerHeartbeat event clock hb n s))"
proof -
  let ?a = "hb_stack_id hb"
  obtain r s1 where l: "loadEpochLocked ?a (stateFor ?a s) = (r, s1)" by fastforce
  have s1: "error_sets s s1"
    by (rule error_sets_load_for [OF l])
  define s2 where "s2 = pruneExpiredLocked event (clock 1) ?a (clock 0) s1"
  have s2: "error_sets s s2" unfolding s2_def by (rule error_sets_trans [OF s1 error_sets_prune])
  have st: "error_sets s (set_state ?a st t)" if "sv_cfg t = sv_cfg s2" "sv_epochErr t = sv_epochErr s2" "sv_observers t = sv_observers s2"
    for st and t :: "'a Service"
    by (rule error_sets_trans [OF s2 error_sets_same]) (simp_all add: that)
  have bc: "error_sets s (broadcastLocked t ?a reason u)" if "error_sets s u" for t reason u
    by (rule error_sets_trans [OF that error_sets_broadcast])
  have sl: "error_sets s (sendLatestLocked t ?a n reason u)" if "error_sets s u" for t reason u
    by (rule error_sets_trans [OF that error_sets_same]) (simp_all add: sendLatestLocked_def)
  show ?thesis
    using s1 by (cases r)
      (auto simp: registerHeartbeat_def Let_def l s2_def [symmetric] split_beta split: option.split
        intro!: bc sl st simp del: One_nat_def)
qed

lemma error_sets_unregister: "error_sets s (unregister a node n s)"
  by (rule error_sets_same) (simp_all add: unregister_def Let_def)

lemma error_sets_turn: "error_sets s (snd (watch_step a node n c s))"
proof -
  have "error_sets s (unregister a node n (on_sub n try_recv s))"
    by (rule error_sets_trans [OF _ error_sets_unregister]) (rule error_sets_same, simp_all)
  moreover have "error_sets s (on_sub n try_recv s)" by (rule error_sets_same) simp_all
  ultimately show ?thesis
    by (auto simp: watch_step_def Let_def error_sets_unregister split: watch_case.split option.split list.split)
qed

lemma error_sets_receive: "error_sets s (snd (receive_step event clock a node inc n recv s))"
  using error_sets_register by (auto simp: receive_step_def split: sum.split option.split)

lemma error_sets_watch: "error_sets s (snd (Watch_start event clock recv s))"
proof -
  have "error_sets s (snd (registerHeartbeat event clock hb m (s\<lparr>sv_subs := subs\<rparr>)))" for hb m subs
    by (rule error_sets_trans [OF error_sets_same error_sets_register]) simp_all
  then show ?thesis
    by (auto simp: Watch_start_def Let_def split: sum.split option.split prod.split) (metis snd_conv)+
qed

lemma error_sets_observe: "error_sets s (ObservePods event clock a observations s)"
proof -
  obtain r s1 where l: "loadEpochLocked a (stateFor a s) = (r, s1)" by fastforce
  have s1: "error_sets s s1"
    by (rule error_sets_load_for [OF l])
  have st: "error_sets s (set_state a st s1)" for st
    by (rule error_sets_trans [OF s1 error_sets_same]) simp_all
  then show ?thesis
    using s1 error_sets_trans [OF st error_sets_broadcast]
    by (cases r) (auto simp: ObservePods_def Let_def l split_beta)
qed

lemma error_sets_get: "error_sets s (snd (GetTopology event clock a s))"
proof -
  obtain r s1 where l: "loadEpochLocked a (stateFor a s) = (r, s1)" by fastforce
  have s1: "error_sets s s1"
    by (rule error_sets_load_for [OF l])
  define s2 where "s2 = pruneExpiredLocked event (clock 1) a (clock 0) s1"
  have s2: "error_sets s s2" unfolding s2_def by (rule error_sets_trans [OF s1 error_sets_prune])
  obtain r3 s3 where v: "saveEpochLocked a (stack_epoch a s2) s2 = (r3, s3)" by fastforce
  have "error_sets s s3" using error_sets_trans [OF s2 error_sets_save [of s2 a "stack_epoch a s2"]] v by simp
  then show ?thesis
    using s1 by (cases r; cases r3)
      (auto simp: GetTopology_def Let_def l s2_def [symmetric] v simp del: One_nat_def)
qed

lemma error_sets_fold: "(\<And>k t. error_sets t (f k t)) \<Longrightarrow> error_sets s (fold f ks s)"
  by (induction ks arbitrary: s) (auto intro: error_sets_trans)

lemma error_sets_ticks:
  "error_sets s (reaper_tick event clock now s)" "error_sets s (bookworm_tick clock s)"
  by (auto simp: reaper_tick_def bookworm_tick_def pruneExpired_def broadcastSnapshots_def
      intro!: error_sets_fold error_sets_prune error_sets_broadcast)

definition synced :: "'es Service \<Rightarrow> bool" where
  "synced s \<longleftrightarrow> (\<forall>h \<in> set (sv_observers s). lh_degraded h = (sv_epochErr s \<noteq> None) \<and>
     lh_serving h = (lh_role h = WATCHDOG_ROLE_PRIMARY \<and> \<not> lh_degraded h))"

definition healthy :: "'es Service \<Rightarrow> bool" where
  "healthy s \<longleftrightarrow> synced s \<and> (\<forall>h \<in> set (sv_observers s). lh_role h = tc_Role (sv_cfg s))"

lemma error_sets_synced: "error_sets s s' \<Longrightarrow> synced s \<Longrightarrow> synced s'"
  by (auto simp: error_sets_def synced_def SetDegraded_def refreshLocked_def)

lemma error_sets_roles:
  "error_sets s s' \<Longrightarrow> \<forall>h \<in> set (sv_observers s). lh_role h = tc_Role (sv_cfg s) \<Longrightarrow>
    \<forall>h \<in> set (sv_observers s'). lh_role h = tc_Role (sv_cfg s')"
  by (auto simp: error_sets_def SetDegraded_def refreshLocked_def)

lemma quick_step_observers:
  assumes "quick_step event dur a s s'"
  shows "error_sets s s' \<or> (\<exists>h. lh_degraded h = False \<and> s' = AddLeadershipObserver (Some h) s)"
  using assms
proof cases
  case (world es)
  then show ?thesis by (auto intro: error_sets_same)
qed (auto simp: error_sets_watch error_sets_receive error_sets_turn error_sets_get error_sets_observe error_sets_ticks)

lemma add_observer_healthy:
  assumes "lh_degraded h = False"
  shows "synced s \<Longrightarrow> synced (AddLeadershipObserver (Some h) s)"
    "healthy s \<Longrightarrow> healthy (AddLeadershipObserver (Some h) s)"
    "tc_Role (sv_cfg (AddLeadershipObserver (Some h) s)) = tc_Role (sv_cfg s)"
  using assms
  by (auto simp: AddLeadershipObserver_def synced_def healthy_def Let_def health_SetLeadership_def SetDegraded_def refreshLocked_def)

lemma quick_run_synced:
  assumes "(quick_step event dur a)\<^sup>*\<^sup>* s s'" "synced s"
  shows "synced s' \<and> tc_Role (sv_cfg s') = tc_Role (sv_cfg s)"
  using assms
proof (induction rule: rtranclp_induct)
  case (step t u)
  then have t: "synced t" "tc_Role (sv_cfg t) = tc_Role (sv_cfg s)" by simp_all
  from quick_step_observers [OF step(2)] show ?case
  proof
    assume e: "error_sets t u"
    with error_sets_synced [OF e t(1)] t(2) show ?thesis by (simp add: error_sets_def)
  next
    assume "\<exists>h. lh_degraded h = False \<and> u = AddLeadershipObserver (Some h) t"
    then obtain h where h: "lh_degraded h = False" "u = AddLeadershipObserver (Some h) t" by blast
    show ?thesis using add_observer_healthy(1,3) [OF h(1), of t] t h(2) by simp
  qed
qed simp

lemma close_subscribers_synced:
  assumes "synced s" "\<And>t. synced t \<Longrightarrow> synced (pause t) \<and> tc_Role (sv_cfg (pause t)) = tc_Role (sv_cfg t)"
  shows "synced (closeSubscribersForLeadershipChange pause s) \<and>
    tc_Role (sv_cfg (closeSubscribersForLeadershipChange pause s)) = tc_Role (sv_cfg s)"
proof -
  have d: "error_sets t (demote_stack k t)" for k and t :: "'a Service"
    by (rule error_sets_same) (simp_all add: demote_stack_def Let_def)
  have c: "error_sets t (on_sub n closeSubscriber t)" for n and t :: "'a Service"
    by (rule error_sets_same) simp_all
  note d' = error_sets_fold [of demote_stack, OF d] and c' = error_sets_fold [of "\<lambda>sub. on_sub sub closeSubscriber", OF c]
  define t where "t = fold demote_stack (map fst (sv_stacks s)) s"
  have t: "synced t \<and> tc_Role (sv_cfg t) = tc_Role (sv_cfg s)"
    using error_sets_synced [OF d' assms(1)] d' unfolding t_def by (simp add: error_sets_def)
  have u: "synced u \<and> tc_Role (sv_cfg u) = tc_Role (sv_cfg s)" if "u = pause t \<or> u = t" for u
    using assms(2) [of t] t that by auto
  have "synced (fold (\<lambda>sub. on_sub sub closeSubscriber) xs u) \<and>
      tc_Role (sv_cfg (fold (\<lambda>sub. on_sub sub closeSubscriber) xs u)) = tc_Role (sv_cfg s)" if "u = pause t \<or> u = t" for u xs
    using error_sets_synced [OF c'] c' u [OF that] by (simp add: error_sets_def)
  then show ?thesis
    by (simp add: closeSubscribersForLeadershipChange_def Let_def t_def)
qed

lemma service_step_healthy:
  assumes "service_step event dur a s s'" "healthy s"
  shows "healthy s'"
  using assms(1)
proof cases
  case quick
  from quick_step_observers [OF this] show ?thesis
    using assms(2) error_sets_synced error_sets_roles add_observer_healthy(2) unfolding healthy_def by blast
next
  case (leadership pause generation role)
  define cfg where "cfg = (if generation > 0 then (sv_cfg s)\<lparr>tc_Role := role, tc_Generation := generation\<rparr>
    else (sv_cfg s)\<lparr>tc_Role := role\<rparr>)"
  have c: "synced (s\<lparr>sv_cfg := cfg\<rparr>)" "tc_Role cfg = role"
    using assms(2) by (simp_all add: healthy_def synced_def cfg_def)
  note c' = close_subscribers_synced [of "s\<lparr>sv_cfg := cfg\<rparr>" pause, OF c(1) quick_run_synced [OF leadership(2)], simplified]
  define t where "t = (if tc_Role (sv_cfg s) = WATCHDOG_ROLE_PRIMARY \<and> role \<noteq> WATCHDOG_ROLE_PRIMARY
    then closeSubscribersForLeadershipChange pause (s\<lparr>sv_cfg := cfg\<rparr>) else s\<lparr>sv_cfg := cfg\<rparr>)"
  have "synced t" "tc_Role (sv_cfg t) = role" using c c' by (auto simp: t_def)
  moreover have "s' = t\<lparr>sv_observers := map (health_SetLeadership role (tc_Generation cfg)) (sv_observers t)\<rparr>"
    unfolding leadership(1) by (simp add: SetLeadership_def Let_def t_def cfg_def)
  ultimately show ?thesis
    by (auto simp: healthy_def synced_def health_SetLeadership_def refreshLocked_def)
qed

text \<open>The health the watchdog reports follows the service: whatever happened, an observer that
  was registered reports serving exactly when the service is primary and its last use of the epoch
  store succeeded.\<close>

theorem health_follows_service:
  assumes "(service_step event dur a)\<^sup>*\<^sup>* (NewServiceWithConfig t es cfg) s" and "h \<in> set (sv_observers s)"
  shows "lh_serving h \<longleftrightarrow> isPrimary s \<and> sv_epochErr s = None"
proof -
  have "healthy (NewServiceWithConfig t es cfg)" by (simp add: healthy_def synced_def NewServiceWithConfig_def)
  with assms(1) have "healthy s" by (induction rule: rtranclp_induct) (auto intro: service_step_healthy)
  with assms(2) show ?thesis by (auto simp: healthy_def synced_def isPrimary_def)
qed

theorem health_follows_service_witness:
  "let s = AddLeadershipObserver (Some NewLeadershipHealth) demo_watched
   in lh_serving NewLeadershipHealth = False \<and> map lh_serving (sv_observers s) = [True] \<and>
      (\<forall>h \<in> set (sv_observers s). lh_serving h = (isPrimary s \<and> sv_epochErr s = None))"
proof -
  let ?s = "AddLeadershipObserver (Some NewLeadershipHealth) demo_watched"
  have "service_step fsm_table demo_dur ''s'' demo_watched ?s"
    by (rule service_step.quick, rule quick_step.observer) code_simp
  with demo_watched_reached have "(service_step fsm_table demo_dur ''s'')\<^sup>*\<^sup>* demo_new ?s" by (rule rtranclp.rtrancl_into_rtrancl)
  from health_follows_service [OF this [unfolded demo_new_def]]
  have "\<forall>h \<in> set (sv_observers ?s). lh_serving h = (isPrimary ?s \<and> sv_epochErr ?s = None)" by blast
  moreover have "lh_serving NewLeadershipHealth = False" "map lh_serving (sv_observers ?s) = [True]" by code_simp+
  ultimately show ?thesis unfolding Let_def by blast
qed

end
