(* ===== verification/String_Kv.thy ===== *)
theory String_Kv
  imports Fence_Lease
begin

text \<open>
  The string key-value service of a node (\<^verbatim>\<open>internal/stringkv/service.go\<close>) and its adapter over an
  Olric client (\<^verbatim>\<open>internal/stringkv/olric_adapter.go\<close>).  The Olric client is an argument: its
  state is a type variable, its calls are functions, and what its interface documents of them is
  \<open>documented_client\<close>.  The results: no call reaches the client without a serving lease, and the
  service is a finite map per DMap, with a failed mutation applied in full or not at all.
\<close>

section \<open>Errors\<close>

text \<open>The sentinel errors the service tells apart, the text-only errors of \<^verbatim>\<open>errors.New\<close>, and
  \<^verbatim>\<open>fmt.Errorf("...: %w", err)\<close>.\<close>

datatype kv_error =
    ErrNotFound | ErrLeaseExpired | DeadlineExceeded | Canceled | ErrKeyNotFound | ErrClosed
  | ErrNew string | Errorf string kv_error

fun unwraps_to :: "kv_error \<Rightarrow> kv_error \<Rightarrow> bool" where
  "unwraps_to (Errorf msg err) target \<longleftrightarrow> Errorf msg err = target \<or> unwraps_to err target"
| "unwraps_to err target \<longleftrightarrow> err = target"

text \<open>\<^verbatim>\<open>errors.Is\<close>.\<close>

definition errors_Is :: "kv_error \<Rightarrow> kv_error \<Rightarrow> bool" where
  "errors_Is err target \<longleftrightarrow> unwraps_to err target"

fun error_text :: "kv_error \<Rightarrow> string" where
  "error_text ErrNotFound = ''string kv value not found''"
| "error_text ErrLeaseExpired = ''string kv serving lease is expired''"
| "error_text DeadlineExceeded = ''context deadline exceeded''"
| "error_text Canceled = ''context canceled''"
| "error_text ErrKeyNotFound = ''key not found''"
| "error_text ErrClosed = ''use of closed network connection''"
| "error_text (ErrNew msg) = msg"
| "error_text (Errorf msg err) = msg @ '': '' @ error_text err"

section \<open>The service\<close>

text \<open>The interfaces \<^verbatim>\<open>DMap\<close> and \<^verbatim>\<open>DMapProvider\<close>; \<open>'d\<close> is the state behind them.\<close>

record 'd DMap =
  dm_Get :: "string \<Rightarrow> 'd \<Rightarrow> (kv_error + string) \<times> 'd"
  dm_Set :: "string \<Rightarrow> string \<Rightarrow> duration \<Rightarrow> 'd \<Rightarrow> kv_error option \<times> 'd"
  dm_Delete :: "string \<Rightarrow> 'd \<Rightarrow> kv_error option \<times> 'd"
  dm_Expire :: "string \<Rightarrow> duration \<Rightarrow> 'd \<Rightarrow> kv_error option \<times> 'd"

type_synonym 'd DMapProvider = "string \<Rightarrow> 'd \<Rightarrow> (kv_error + 'd DMap) \<times> 'd"

text \<open>\<open>kv_lease\<close> is the value of the shared lease tracker at the call.\<close>

record 'd kv_Service =
  kv_dmaps :: "'d DMapProvider"
  kv_lease :: LeaseTracker

definition NewService :: "'d DMapProvider option \<Rightarrow> LeaseTracker option \<Rightarrow> kv_error + 'd kv_Service" where
  "NewService dmaps lease =
     (case dmaps of None \<Rightarrow> Inl (ErrNew ''dmap provider is nil'')
      | Some dmaps \<Rightarrow> (case lease of None \<Rightarrow> Inl (ErrNew ''lease is nil'')
         | Some lease \<Rightarrow> Inr \<lparr>kv_dmaps = dmaps, kv_lease = lease\<rparr>))"

definition requireLease :: "'d kv_Service \<Rightarrow> time \<Rightarrow> kv_error option" where
  "requireLease s now = (if ServingAllowed (kv_lease s) now then None else Some ErrLeaseExpired)"

definition kv_Get :: "'d kv_Service \<Rightarrow> time \<Rightarrow> string \<Rightarrow> string \<Rightarrow> 'd \<Rightarrow> (kv_error + string) \<times> 'd" where
  "kv_Get s now dmap key d =
     (case requireLease s now of
        Some err \<Rightarrow> (Inl err, d)
      | None \<Rightarrow>
          (case kv_dmaps s dmap d of
             (Inl err, d) \<Rightarrow> (Inl err, d)
           | (Inr dm, d) \<Rightarrow>
               (case dm_Get dm key d of
                  (Inr value, d) \<Rightarrow> (Inr value, d)
                | (Inl err, d) \<Rightarrow>
                    if \<not> errors_Is err ErrNotFound then (Inl err, d) else (Inl ErrNotFound, d))))"

definition kv_Set :: "'d kv_Service \<Rightarrow> time \<Rightarrow> string \<Rightarrow> string \<Rightarrow> string \<Rightarrow> duration \<Rightarrow> 'd \<Rightarrow>
    kv_error option \<times> 'd" where
  "kv_Set s now dmap key value ttl d =
     (case requireLease s now of
        Some err \<Rightarrow> (Some err, d)
      | None \<Rightarrow>
          (case kv_dmaps s dmap d of
             (Inl err, d) \<Rightarrow> (Some err, d)
           | (Inr dm, d) \<Rightarrow> dm_Set dm key value ttl d))"

definition kv_Delete :: "'d kv_Service \<Rightarrow> time \<Rightarrow> string \<Rightarrow> string \<Rightarrow> 'd \<Rightarrow> kv_error option \<times> 'd" where
  "kv_Delete s now dmap key d =
     (case requireLease s now of
        Some err \<Rightarrow> (Some err, d)
      | None \<Rightarrow>
          (case kv_dmaps s dmap d of
             (Inl err, d) \<Rightarrow> (Some err, d)
           | (Inr dm, d) \<Rightarrow>
               (case dm_Delete dm key d of
                  (Some err, d) \<Rightarrow> if \<not> errors_Is err ErrNotFound then (Some err, d) else (None, d)
                | (None, d) \<Rightarrow> (None, d))))"

definition kv_Expire :: "'d kv_Service \<Rightarrow> time \<Rightarrow> string \<Rightarrow> string \<Rightarrow> duration \<Rightarrow> 'd \<Rightarrow>
    kv_error option \<times> 'd" where
  "kv_Expire s now dmap key ttl d =
     (if ttl \<le> 0 then (Some (ErrNew ''ttl must be positive''), d)
      else case requireLease s now of
        Some err \<Rightarrow> (Some err, d)
      | None \<Rightarrow>
          (case kv_dmaps s dmap d of
             (Inl err, d) \<Rightarrow> (Some err, d)
           | (Inr dm, d) \<Rightarrow> dm_Expire dm key ttl d))"

text \<open>\<^verbatim>\<open>xxhash.Sum64String\<close> is the argument \<open>Sum64String\<close>.\<close>

definition HKey :: "(string \<Rightarrow> u64) \<Rightarrow> string \<Rightarrow> string \<Rightarrow> u64" where
  "HKey Sum64String dmap key = Sum64String (dmap @ key)"

section \<open>The Olric adapter\<close>

text \<open>\<^verbatim>\<open>olric.DMap\<close> as far as the adapter calls it.  A \<^verbatim>\<open>GetResponse\<close> is what its \<^verbatim>\<open>String\<close> method
  returns; the only option of \<^verbatim>\<open>Put\<close> is \<^verbatim>\<open>PX\<close>.\<close>

type_synonym GetResponse = "kv_error + string"

record 'd olric_DMap =
  od_Get :: "string \<Rightarrow> 'd \<Rightarrow> (kv_error + GetResponse) \<times> 'd"
  od_Put :: "string \<Rightarrow> string \<Rightarrow> duration list \<Rightarrow> 'd \<Rightarrow> kv_error option \<times> 'd"
  od_Delete :: "string list \<Rightarrow> 'd \<Rightarrow> (int \<times> kv_error option) \<times> 'd"
  od_Expire :: "string \<Rightarrow> duration \<Rightarrow> 'd \<Rightarrow> kv_error option \<times> 'd"

type_synonym 'd OlricClient = "string \<Rightarrow> 'd \<Rightarrow> (kv_error + 'd olric_DMap) \<times> 'd"

definition olricDMap_Get :: "'d olric_DMap \<Rightarrow> string \<Rightarrow> 'd \<Rightarrow> (kv_error + string) \<times> 'd" where
  "olricDMap_Get inner key d =
     (case od_Get inner key d of
        (Inl err, d) \<Rightarrow> if errors_Is err ErrKeyNotFound then (Inl ErrNotFound, d) else (Inl err, d)
      | (Inr resp, d) \<Rightarrow>
          (case resp of
             Inl err \<Rightarrow> (Inl (Errorf ''decode olric string value'' err), d)
           | Inr value \<Rightarrow> (Inr value, d)))"

definition olricDMap_Set :: "'d olric_DMap \<Rightarrow> string \<Rightarrow> string \<Rightarrow> duration \<Rightarrow> 'd \<Rightarrow> kv_error option \<times> 'd" where
  "olricDMap_Set inner key value ttl d =
     (let options = (if ttl > 0 then [ttl] else []) in od_Put inner key value options d)"

definition olricDMap_Delete :: "'d olric_DMap \<Rightarrow> string \<Rightarrow> 'd \<Rightarrow> kv_error option \<times> 'd" where
  "olricDMap_Delete inner key d =
     (case od_Delete inner [key] d of
        ((_, Some err), d) \<Rightarrow> if errors_Is err ErrKeyNotFound then (Some ErrNotFound, d) else (Some err, d)
      | ((_, None), d) \<Rightarrow> (None, d))"

definition olricDMap_Expire :: "'d olric_DMap \<Rightarrow> string \<Rightarrow> duration \<Rightarrow> 'd \<Rightarrow> kv_error option \<times> 'd" where
  "olricDMap_Expire inner key ttl d =
     (case od_Expire inner key ttl d of
        (Some err, d) \<Rightarrow> if errors_Is err ErrKeyNotFound then (Some ErrNotFound, d) else (Some err, d)
      | (None, d) \<Rightarrow> (None, d))"

definition olricDMap :: "'d olric_DMap \<Rightarrow> 'd DMap" where
  "olricDMap inner = \<lparr>dm_Get = olricDMap_Get inner, dm_Set = olricDMap_Set inner,
     dm_Delete = olricDMap_Delete inner, dm_Expire = olricDMap_Expire inner\<rparr>"

definition OlricProvider_DMap :: "'d OlricClient \<Rightarrow> 'd DMapProvider" where
  "OlricProvider_DMap client name d =
     (case client name d of
        (Inl err, d) \<Rightarrow> (Inl err, d)
      | (Inr dmap, d) \<Rightarrow> (Inr (olricDMap dmap), d))"

definition NewOlricProvider :: "'d OlricClient option \<Rightarrow> kv_error + 'd DMapProvider" where
  "NewOlricProvider client =
     (case client of None \<Rightarrow> Inl (ErrNew ''olric client is nil'')
      | Some client \<Rightarrow> Inr (OlricProvider_DMap client))"

section \<open>What the Olric client documents\<close>

text \<open>\<open>contents d n k\<close> is the value the cluster holds for key \<open>k\<close> of the DMap \<open>n\<close>.  A read
  returns that value or \<^verbatim>\<open>ErrKeyNotFound\<close> when there is none; a mutation that returns an error may
  or may not have been applied; no call reports the sentinel of the string service.\<close>

type_synonym 'd contents = "'d \<Rightarrow> string \<Rightarrow> string \<Rightarrow> string option"

definition store_at :: "string \<Rightarrow> string \<Rightarrow> string option \<Rightarrow> (string \<Rightarrow> string \<Rightarrow> string option) \<Rightarrow>
    string \<Rightarrow> string \<Rightarrow> string option" where
  "store_at n k v m = m(n := (m n)(k := v))"

definition get_law :: "'d contents \<Rightarrow> string \<Rightarrow> 'd olric_DMap \<Rightarrow> bool" where
  "get_law contents n dm \<longleftrightarrow> (\<forall>k d r d'. od_Get dm k d = (r, d') \<longrightarrow> contents d' = contents d \<and>
     (case r of Inl err \<Rightarrow> \<not> errors_Is err ErrNotFound \<and>
          (errors_Is err ErrKeyNotFound \<longrightarrow> contents d n k = None)
      | Inr (Inl err) \<Rightarrow> \<not> errors_Is err ErrNotFound
      | Inr (Inr v) \<Rightarrow> contents d n k = Some v))"

definition put_law :: "'d contents \<Rightarrow> string \<Rightarrow> 'd olric_DMap \<Rightarrow> bool" where
  "put_law contents n dm \<longleftrightarrow> (\<forall>k v opts d r d'. od_Put dm k v opts d = (r, d') \<longrightarrow>
     (case r of None \<Rightarrow> contents d' = store_at n k (Some v) (contents d)
      | Some err \<Rightarrow> \<not> errors_Is err ErrNotFound \<and>
          contents d' \<in> {contents d, store_at n k (Some v) (contents d)}))"

definition delete_law :: "'d contents \<Rightarrow> string \<Rightarrow> 'd olric_DMap \<Rightarrow> bool" where
  "delete_law contents n dm \<longleftrightarrow> (\<forall>k d c r d'. od_Delete dm [k] d = ((c, r), d') \<longrightarrow>
     (case r of None \<Rightarrow> contents d' = store_at n k None (contents d)
      | Some err \<Rightarrow> \<not> errors_Is err ErrNotFound \<and>
          (if errors_Is err ErrKeyNotFound then contents d n k = None \<and> contents d' = contents d
           else contents d' \<in> {contents d, store_at n k None (contents d)})))"

definition expire_law :: "'d contents \<Rightarrow> string \<Rightarrow> 'd olric_DMap \<Rightarrow> bool" where
  "expire_law contents n dm \<longleftrightarrow> (\<forall>k ttl d r d'. od_Expire dm k ttl d = (r, d') \<longrightarrow>
     contents d' = contents d \<and>
     (case r of None \<Rightarrow> True
      | Some err \<Rightarrow> \<not> errors_Is err ErrNotFound \<and>
          (errors_Is err ErrKeyNotFound \<longrightarrow> contents d n k = None)))"

definition documented_client :: "'d contents \<Rightarrow> 'd OlricClient \<Rightarrow> bool" where
  "documented_client contents client \<longleftrightarrow> (\<forall>n d r d'. client n d = (r, d') \<longrightarrow> contents d' = contents d \<and>
     (case r of Inl err \<Rightarrow> \<not> errors_Is err ErrNotFound
      | Inr dm \<Rightarrow> get_law contents n dm \<and> put_law contents n dm \<and> delete_law contents n dm \<and>
          expire_law contents n dm))"

section \<open>Serving requires the lease\<close>

lemma errors_Is_self [simp]:
  "errors_Is ErrNotFound ErrNotFound" "errors_Is ErrLeaseExpired ErrLeaseExpired"
  "\<not> errors_Is ErrLeaseExpired ErrNotFound" "\<not> errors_Is (ErrNew msg) ErrNotFound"
  "errors_Is (Errorf msg err) ErrNotFound = errors_Is err ErrNotFound"
  by (simp_all add: errors_Is_def)

lemma requireLease_simps [simp]:
  "ServingAllowed (kv_lease s) now \<Longrightarrow> requireLease s now = None"
  "\<not> ServingAllowed (kv_lease s) now \<Longrightarrow> requireLease s now = Some ErrLeaseExpired"
  by (simp_all add: requireLease_def)

lemma no_lease_no_access:
  assumes "\<not> ServingAllowed (kv_lease s) now"
  shows "kv_Get s now dmap key d = (Inl ErrLeaseExpired, d)"
    and "kv_Set s now dmap key value ttl d = (Some ErrLeaseExpired, d)"
    and "kv_Delete s now dmap key d = (Some ErrLeaseExpired, d)"
    and "0 < ttl \<Longrightarrow> kv_Expire s now dmap key ttl d = (Some ErrLeaseExpired, d)"
  using assms by (simp_all add: kv_Get_def kv_Set_def kv_Delete_def kv_Expire_def)

section \<open>The service over a documented client\<close>

definition documented_service :: "'d contents \<Rightarrow> 'd kv_Service \<Rightarrow> bool" where
  "documented_service contents s \<longleftrightarrow>
     (\<exists>client. kv_dmaps s = OlricProvider_DMap client \<and> documented_client contents client)"

lemma documented_service_lease [simp]:
  "documented_service contents (s\<lparr>kv_lease := l\<rparr>) = documented_service contents s"
  by (simp add: documented_service_def)

text \<open>Opening a DMap changes nothing, and gives the adapter over a documented map.\<close>

lemma documented_open:
  assumes "documented_service contents s" and "kv_dmaps s n d = (r, d1)"
  shows "contents d1 = contents d \<and>
    (case r of Inl err \<Rightarrow> \<not> errors_Is err ErrNotFound
     | Inr dm \<Rightarrow> \<exists>inner. dm = olricDMap inner \<and> get_law contents n inner \<and> put_law contents n inner \<and>
         delete_law contents n inner \<and> expire_law contents n inner)"
proof -
  from assms obtain client where s: "OlricProvider_DMap client n d = (r, d1)"
    and doc: "documented_client contents client"
    by (auto simp: documented_service_def)
  obtain r0 d0 where c: "client n d = (r0, d0)" by fastforce
  with s have "d1 = d0" "r = map_sum id olricDMap r0"
    by (auto simp: OlricProvider_DMap_def split: sum.splits)
  moreover from doc c have "contents d0 = contents d \<and>
     (case r0 of Inl err \<Rightarrow> \<not> errors_Is err ErrNotFound
      | Inr dm \<Rightarrow> get_law contents n dm \<and> put_law contents n dm \<and> delete_law contents n dm \<and>
          expire_law contents n dm)"
    unfolding documented_client_def by blast
  ultimately show ?thesis by (cases r0) auto
qed

lemma adapter_Get:
  assumes "get_law contents n inner" and "olricDMap_Get inner k d = (r, d')"
  shows "contents d' = contents d \<and>
    (case r of Inl err \<Rightarrow> errors_Is err ErrNotFound \<longrightarrow> contents d n k = None
     | Inr v \<Rightarrow> contents d n k = Some v)"
proof -
  obtain r0 d0 where g: "od_Get inner k d = (r0, d0)" by fastforce
  with assms(1) have "contents d0 = contents d \<and>
     (case r0 of Inl err \<Rightarrow> \<not> errors_Is err ErrNotFound \<and>
          (errors_Is err ErrKeyNotFound \<longrightarrow> contents d n k = None)
      | Inr (Inl err) \<Rightarrow> \<not> errors_Is err ErrNotFound
      | Inr (Inr v) \<Rightarrow> contents d n k = Some v)"
    unfolding get_law_def by blast
  with assms(2) g show ?thesis
    by (auto simp: olricDMap_Get_def split: sum.splits if_splits)
qed

lemma adapter_Set:
  assumes "put_law contents n inner" and "olricDMap_Set inner k v ttl d = (r, d')"
  shows "case r of None \<Rightarrow> contents d' = store_at n k (Some v) (contents d)
    | Some err \<Rightarrow> \<not> errors_Is err ErrNotFound \<and>
        contents d' \<in> {contents d, store_at n k (Some v) (contents d)}"
  using assms unfolding put_law_def olricDMap_Set_def Let_def by blast

lemma adapter_Delete:
  assumes "delete_law contents n inner" and "olricDMap_Delete inner k d = (r, d')"
  shows "case r of None \<Rightarrow> contents d' = store_at n k None (contents d)
    | Some err \<Rightarrow> if errors_Is err ErrNotFound then contents d n k = None \<and> contents d' = contents d
        else contents d' \<in> {contents d, store_at n k None (contents d)}"
proof -
  obtain c r0 d0 where g: "od_Delete inner [k] d = ((c, r0), d0)" by (metis surj_pair)
  with assms(1) have "case r0 of None \<Rightarrow> contents d0 = store_at n k None (contents d)
      | Some err \<Rightarrow> \<not> errors_Is err ErrNotFound \<and>
          (if errors_Is err ErrKeyNotFound then contents d n k = None \<and> contents d0 = contents d
           else contents d0 \<in> {contents d, store_at n k None (contents d)})"
    unfolding delete_law_def by blast
  with assms(2) g show ?thesis
    by (auto simp: olricDMap_Delete_def split: option.splits if_splits)
qed

lemma adapter_Expire:
  assumes "expire_law contents n inner" and "olricDMap_Expire inner k ttl d = (r, d')"
  shows "contents d' = contents d \<and>
    (case r of None \<Rightarrow> True | Some err \<Rightarrow> errors_Is err ErrNotFound \<longrightarrow> contents d n k = None)"
proof -
  obtain r0 d0 where g: "od_Expire inner k ttl d = (r0, d0)" by fastforce
  with assms(1) have "contents d0 = contents d \<and>
     (case r0 of None \<Rightarrow> True
      | Some err \<Rightarrow> \<not> errors_Is err ErrNotFound \<and>
          (errors_Is err ErrKeyNotFound \<longrightarrow> contents d n k = None))"
    unfolding expire_law_def by blast
  with assms(2) g show ?thesis
    by (auto simp: olricDMap_Expire_def split: option.splits if_splits)
qed

lemma store_at_None [simp]: "m n k = None \<Longrightarrow> store_at n k None m = m"
  by (rule ext)+ (simp add: store_at_def)

lemma kv_Get_contents:
  assumes "documented_service contents s" and "kv_Get s now n k d = (r, d')"
  shows "contents d' = contents d \<and>
    (case r of Inl err \<Rightarrow> errors_Is err ErrNotFound \<longrightarrow> contents d n k = None
     | Inr v \<Rightarrow> contents d n k = Some v)"
proof (cases "ServingAllowed (kv_lease s) now")
  case False
  with assms(2) show ?thesis by (auto simp: no_lease_no_access)
next
  case True
  obtain r1 d1 where o: "kv_dmaps s n d = (r1, d1)" by fastforce
  note o' = documented_open [OF assms(1) this]
  show ?thesis
  proof (cases r1)
    case (Inl err)
    with True o o' assms(2) show ?thesis by (auto simp: kv_Get_def)
  next
    case (Inr dm)
    with o' obtain inner where dm: "dm = olricDMap inner" "get_law contents n inner"
      and c: "contents d1 = contents d" by auto
    obtain r2 d2 where g: "olricDMap_Get inner k d1 = (r2, d2)" by fastforce
    from adapter_Get [OF dm(2) g] c True o g Inr dm(1) assms(2) show ?thesis
      by (auto simp: kv_Get_def olricDMap_def split: sum.splits if_splits)
  qed
qed

text \<open>A mutation either took effect or left the map alone, and reporting success means it took
  effect.\<close>

lemma kv_Set_contents:
  assumes "documented_service contents s" and "kv_Set s now n k v ttl d = (r, d')"
  shows "(case r of None \<Rightarrow> contents d' = store_at n k (Some v) (contents d)
    | Some err \<Rightarrow> \<not> errors_Is err ErrNotFound \<and>
        contents d' \<in> {contents d, store_at n k (Some v) (contents d)})"
proof (cases "ServingAllowed (kv_lease s) now")
  case False
  with assms(2) show ?thesis by (auto simp: no_lease_no_access)
next
  case True
  obtain r1 d1 where o: "kv_dmaps s n d = (r1, d1)" by fastforce
  note o' = documented_open [OF assms(1) this]
  show ?thesis
  proof (cases r1)
    case (Inl err)
    with True o o' assms(2) show ?thesis by (auto simp: kv_Set_def)
  next
    case (Inr dm)
    with o' obtain inner where dm: "dm = olricDMap inner" "put_law contents n inner"
      and c: "contents d1 = contents d" by auto
    from True o Inr dm(1) assms(2) have "olricDMap_Set inner k v ttl d1 = (r, d')"
      by (simp add: kv_Set_def olricDMap_def)
    from adapter_Set [OF dm(2) this] show ?thesis unfolding c .
  qed
qed

lemma kv_Delete_contents:
  assumes "documented_service contents s" and "kv_Delete s now n k d = (r, d')"
  shows "case r of None \<Rightarrow> contents d' = store_at n k None (contents d)
    | Some err \<Rightarrow> \<not> errors_Is err ErrNotFound \<and>
        contents d' \<in> {contents d, store_at n k None (contents d)}"
proof (cases "ServingAllowed (kv_lease s) now")
  case False
  with assms(2) show ?thesis by (auto simp: no_lease_no_access)
next
  case True
  obtain r1 d1 where o: "kv_dmaps s n d = (r1, d1)" by fastforce
  note o' = documented_open [OF assms(1) this]
  show ?thesis
  proof (cases r1)
    case (Inl err)
    with True o o' assms(2) show ?thesis by (auto simp: kv_Delete_def)
  next
    case (Inr dm)
    with o' obtain inner where dm: "dm = olricDMap inner" "delete_law contents n inner"
      and c: "contents d1 = contents d" by auto
    obtain r2 d2 where g: "olricDMap_Delete inner k d1 = (r2, d2)" by fastforce
    from adapter_Delete [OF dm(2) g] c True o g Inr dm(1) assms(2) show ?thesis
      by (auto simp: kv_Delete_def olricDMap_def split: option.splits if_splits)
  qed
qed

lemma kv_Expire_contents:
  assumes "documented_service contents s" and "kv_Expire s now n k ttl d = (r, d')"
  shows "contents d' = contents d \<and>
    (case r of None \<Rightarrow> True | Some err \<Rightarrow> errors_Is err ErrNotFound \<longrightarrow> contents d n k = None)"
proof (cases "0 < ttl \<and> ServingAllowed (kv_lease s) now")
  case False
  with assms(2) show ?thesis by (auto simp: kv_Expire_def split: if_splits)
next
  case True
  obtain r1 d1 where o: "kv_dmaps s n d = (r1, d1)" by fastforce
  note o' = documented_open [OF assms(1) this]
  show ?thesis
  proof (cases r1)
    case (Inl err)
    with True o o' assms(2) show ?thesis by (auto simp: kv_Expire_def)
  next
    case (Inr dm)
    with o' obtain inner where dm: "dm = olricDMap inner" "expire_law contents n inner"
      and c: "contents d1 = contents d" by auto
    from True o Inr dm(1) assms(2) have "olricDMap_Expire inner k ttl d1 = (r, d')"
      by (simp add: kv_Expire_def olricDMap_def)
    from adapter_Expire [OF dm(2) this] show ?thesis unfolding c .
  qed
qed

end
