(* ===== verification/Go_Strings.thy ===== *)
theory Go_Strings
  imports Go_Strconv
begin

text \<open>
  What the sources use of \<^verbatim>\<open>strings\<close>, \<^verbatim>\<open>net\<close>, \<^verbatim>\<open>encoding/hex\<close> and \<^verbatim>\<open>os\<close>: upper case, trimming,
  splitting, host and port, hexadecimal.  The functions that consult the Unicode tables are byte by
  byte on ASCII strings, as in the library; on every other string their result is an argument.
\<close>

definition ascii :: "string \<Rightarrow> bool" where
  "ascii s \<longleftrightarrow> list_all (\<lambda>c. (of_char c :: nat) < 128) s"

definition ascii_upper :: "char \<Rightarrow> char" where
  "ascii_upper c = (if 97 \<le> (of_char c :: nat) \<and> (of_char c :: nat) \<le> 122 then char_of (of_char c - 32 :: nat) else c)"

definition ToUpper :: "(string \<Rightarrow> string) \<Rightarrow> string \<Rightarrow> string" where
  "ToUpper unicode s = (if ascii s then map ascii_upper s else unicode s)"

text \<open>Tab, line feed, vertical tab, form feed, carriage return and space.\<close>

definition ascii_space :: "char \<Rightarrow> bool" where
  "ascii_space c \<longleftrightarrow> (of_char c :: nat) \<in> {9, 10, 11, 12, 13, 32}"

definition TrimSpace :: "(string \<Rightarrow> string) \<Rightarrow> string \<Rightarrow> string" where
  "TrimSpace unicode s =
     (if ascii s then rev (dropWhile ascii_space (rev (dropWhile ascii_space s))) else unicode s)"

text \<open>\<^verbatim>\<open>strings.Split(s, ",")\<close>.\<close>

fun split_comma :: "string \<Rightarrow> string list" where
  "split_comma [] = [[]]"
| "split_comma (c # cs) =
     (if c = CHR '','' then [] # split_comma cs
      else case split_comma cs of [] \<Rightarrow> [[c]] | p # ps \<Rightarrow> (c # p) # ps)"

definition JoinHostPort :: "string \<Rightarrow> string \<Rightarrow> string" where
  "JoinHostPort host port =
     (if CHR '':'' \<in> set host then ''['' @ host @ '']:'' @ port else host @ '':'' @ port)"

definition hex_digit :: "nat \<Rightarrow> char" where
  "hex_digit n = char_of (if n < 10 then 48 + n else 87 + n)"

definition EncodeToString :: "byte list \<Rightarrow> string" where
  "EncodeToString bs = concat (map (\<lambda>b. [hex_digit (unat b div 16), hex_digit (unat b mod 16)]) bs)"

lemma hex_digit_inj: "m < 16 \<Longrightarrow> n < 16 \<Longrightarrow> hex_digit m = hex_digit n \<Longrightarrow> m = n"
proof -
  assume mn: "m < 16" "n < 16" and "hex_digit m = hex_digit n"
  then have "(of_char (hex_digit m) :: nat) = of_char (hex_digit n)" by simp
  with mn show "m = n" by (simp add: hex_digit_def split: if_splits)
qed

lemma EncodeToString_inj: "length bs = length cs \<Longrightarrow> EncodeToString bs = EncodeToString cs \<Longrightarrow> bs = cs"
proof (induction bs cs rule: list_induct2)
  case (Cons b bs c cs)
  have n: "unat b div 16 < 16" "unat c div 16 < 16"
    using unsigned_less [of b] unsigned_less [of c] by (auto simp: div_less_iff_less_mult)
  from Cons.prems have "hex_digit (unat b div 16) = hex_digit (unat c div 16)"
    "hex_digit (unat b mod 16) = hex_digit (unat c mod 16)" "EncodeToString bs = EncodeToString cs"
    by (simp_all add: EncodeToString_def)
  with n Cons.IH have "unat b div 16 = unat c div 16" "unat b mod 16 = unat c mod 16" "bs = cs"
    by (auto intro: hex_digit_inj)
  then show ?case by (metis div_mult_mod_eq unsigned_word_eqI)
qed simp

text \<open>An environment is what \<^verbatim>\<open>os.Getenv\<close> returns for each name, the empty string for an unset
  one.\<close>

type_synonym environ = "string \<Rightarrow> string"

end
