(* ===== verification/Resp_Server.thy ===== *)
theory Resp_Server
  imports String_Kv Go_Strings
begin

text \<open>
  The RESP front end of a node (\<^verbatim>\<open>internal/stringkv/resp_server.go\<close>): the command handlers with
  every reply they write, the option parser of SET, and the shutdown protocol as a step relation
  over the goroutines that handle commands and the one that shuts the server down.  The results:
  the front end refines a finite map, no data command gets past an expired lease, a huge EX value
  silently turns into no expiry, and once shutdown is past its barrier no further command is
  admitted, so a clean drain closes the server with nothing in flight.
\<close>

section \<open>Commands and replies\<close>

text \<open>The calls of a handler on the \<^verbatim>\<open>redcon.Conn\<close> it answers.\<close>

datatype reply =
    WriteError string | WriteRaw string | WriteString string | WriteBulk "byte list"
  | WriteBulkString string | WriteInt int | ConnClose

definition argString :: "byte list \<Rightarrow> string" where
  "argString arg = bytes_string arg"

definition DefaultDMap :: string where
  "DefaultDMap = ''__default__''"

definition DefaultRESPShutdownGrace :: duration where
  "DefaultRESPShutdownGrace = 2 * second"

record RESPServerConfig =
  rc_Addr :: string
  rc_DefaultDMap :: string
  rc_CommandTimeout :: duration
  rc_ShutdownGrace :: duration

record 'd RESPServer =
  rs_service :: "'d kv_Service"
  rs_addr :: string
  rs_defaultDMap :: string
  rs_commandTimeout :: duration
  rs_shutdownGrace :: duration

definition NewRESPServer :: "'d kv_Service option \<Rightarrow> RESPServerConfig \<Rightarrow> kv_error + 'd RESPServer" where
  "NewRESPServer service cfg =
     (case service of
        None \<Rightarrow> Inl (ErrNew ''string kv service is nil'')
      | Some service \<Rightarrow>
          if rc_Addr cfg = '''' then Inl (ErrNew ''resp listen address is empty'')
          else Inr \<lparr>rs_service = service, rs_addr = rc_Addr cfg,
            rs_defaultDMap = (if rc_DefaultDMap cfg = '''' then DefaultDMap else rc_DefaultDMap cfg),
            rs_commandTimeout = (if rc_CommandTimeout cfg \<le> 0 then 5 * second else rc_CommandTimeout cfg),
            rs_shutdownGrace = (if rc_ShutdownGrace cfg \<le> 0 then DefaultRESPShutdownGrace
              else rc_ShutdownGrace cfg)\<rparr>)"

definition crlf :: string where
  "crlf = [char_of (13 :: nat), char_of (10 :: nat)]"

definition writeServiceError :: "kv_error \<Rightarrow> reply list" where
  "writeServiceError err =
     (if errors_Is err ErrNotFound then [WriteRaw (''_'' @ crlf)]
      else if errors_Is err ErrLeaseExpired then [WriteError ''TRYAGAIN serving lease is expired'']
      else if errors_Is err DeadlineExceeded then [WriteError ''TIMEOUT command timed out'']
      else if errors_Is err Canceled then [WriteError ''ERR command canceled'']
      else [WriteError (''ERR '' @ error_text err)])"

definition handleHello :: "byte list list \<Rightarrow> reply list" where
  "handleHello args =
     (if length args \<noteq> 1 \<and> length args \<noteq> 2
      then [WriteError ''ERR wrong number of arguments for 'hello' command'']
      else if length args = 2 \<and> argString (args ! 1) \<noteq> ''3''
      then [WriteError ''NOPROTO unsupported protocol version'']
      else [WriteRaw (concat (map (\<lambda>l. l @ crlf)
        [''%4'', ''$6'', ''server'', ''$10'', ''olricstack'', ''$7'', ''version'', ''$3'', ''0.1'',
         ''$5'', ''proto'', '':3'', ''$4'', ''mode'', ''$10'', ''standalone'']))])"

definition handlePing :: "byte list list \<Rightarrow> reply list" where
  "handlePing args =
     (if length args = 1 then [WriteString ''PONG'']
      else if length args = 2 then [WriteBulk (args ! 1)]
      else [WriteError ''ERR wrong number of arguments for 'ping' command''])"

text \<open>The loop of \<^verbatim>\<open>parseSetTTL\<close>; \<open>ttl\<close> is the value of the options read so far.\<close>

fun set_ttl_loop :: "(string \<Rightarrow> string) \<Rightarrow> duration \<Rightarrow> byte list list \<Rightarrow> string + duration" where
  "set_ttl_loop unicode ttl [] = Inr ttl"
| "set_ttl_loop unicode ttl (arg # rest) =
     (let option = ToUpper unicode (argString arg)
      in if option = ''EX'' \<or> option = ''PX'' then
           (case rest of
              [] \<Rightarrow> Inl (''missing value for '' @ option)
            | v # rest \<Rightarrow>
                (case ParseInt (argString v) of
                   None \<Rightarrow> Inl (''invalid '' @ option @ '' value'')
                 | Some value \<Rightarrow>
                     if value \<le> 0 then Inl (''invalid '' @ option @ '' value'')
                     else set_ttl_loop unicode
                       (if option = ''EX'' then i64 (value * second) else i64 (value * millisecond)) rest))
         else Inl (''unsupported SET option '' @ option))"

definition parseSetTTL :: "(string \<Rightarrow> string) \<Rightarrow> byte list list \<Rightarrow> string + duration" where
  "parseSetTTL unicode args = set_ttl_loop unicode 0 args"

text \<open>\<open>at i\<close> is the shared lease tracker and the clock when the command makes its \<open>i\<close>-th lease
  check.\<close>

definition service_at :: "'d RESPServer \<Rightarrow> (nat \<Rightarrow> LeaseTracker \<times> time) \<Rightarrow> nat \<Rightarrow> 'd kv_Service" where
  "service_at srv at i = (rs_service srv)\<lparr>kv_lease := fst (at i)\<rparr>"

definition handleGet :: "'d RESPServer \<Rightarrow> (nat \<Rightarrow> LeaseTracker \<times> time) \<Rightarrow> byte list list \<Rightarrow> 'd \<Rightarrow>
    reply list \<times> 'd" where
  "handleGet srv at args d =
     (if length args \<noteq> 2 then ([WriteError ''ERR wrong number of arguments for 'get' command''], d)
      else case kv_Get (service_at srv at 0) (snd (at 0)) (rs_defaultDMap srv) (argString (args ! 1)) d of
        (Inl err, d) \<Rightarrow> (writeServiceError err, d)
      | (Inr value, d) \<Rightarrow> ([WriteBulkString value], d))"

definition handleSet :: "(string \<Rightarrow> string) \<Rightarrow> 'd RESPServer \<Rightarrow> (nat \<Rightarrow> LeaseTracker \<times> time) \<Rightarrow>
    byte list list \<Rightarrow> 'd \<Rightarrow> reply list \<times> 'd" where
  "handleSet unicode srv at args d =
     (if length args < 3 then ([WriteError ''ERR wrong number of arguments for 'set' command''], d)
      else case parseSetTTL unicode (drop 3 args) of
        Inl err \<Rightarrow> ([WriteError (''ERR '' @ err)], d)
      | Inr ttl \<Rightarrow>
          (case kv_Set (service_at srv at 0) (snd (at 0)) (rs_defaultDMap srv) (argString (args ! 1))
              (argString (args ! 2)) ttl d of
             (Some err, d) \<Rightarrow> (writeServiceError err, d)
           | (None, d) \<Rightarrow> ([WriteString ''OK''], d)))"

fun del_loop :: "'d RESPServer \<Rightarrow> (nat \<Rightarrow> LeaseTracker \<times> time) \<Rightarrow> nat \<Rightarrow> byte list list \<Rightarrow> 'd \<Rightarrow>
    reply list \<times> 'd" where
  "del_loop srv at deleted [] d = ([WriteInt (int deleted)], d)"
| "del_loop srv at deleted (key # keys) d =
     (case kv_Delete (service_at srv at deleted) (snd (at deleted)) (rs_defaultDMap srv) (argString key) d of
        (Some err, d) \<Rightarrow> (writeServiceError err, d)
      | (None, d) \<Rightarrow> del_loop srv at (Suc deleted) keys d)"

definition handleDel :: "'d RESPServer \<Rightarrow> (nat \<Rightarrow> LeaseTracker \<times> time) \<Rightarrow> byte list list \<Rightarrow> 'd \<Rightarrow>
    reply list \<times> 'd" where
  "handleDel srv at args d =
     (if length args < 2 then ([WriteError ''ERR wrong number of arguments for 'del' command''], d)
      else del_loop srv at 0 (drop 1 args) d)"

definition handleExpire :: "'d RESPServer \<Rightarrow> (nat \<Rightarrow> LeaseTracker \<times> time) \<Rightarrow> byte list list \<Rightarrow> 'd \<Rightarrow>
    reply list \<times> 'd" where
  "handleExpire srv at args d =
     (if length args \<noteq> 3 then ([WriteError ''ERR wrong number of arguments for 'expire' command''], d)
      else case ParseInt (argString (args ! 2)) of
        None \<Rightarrow> ([WriteError ''ERR invalid expire time''], d)
      | Some seconds \<Rightarrow>
          if seconds \<le> 0 then ([WriteError ''ERR invalid expire time''], d)
          else (case kv_Expire (service_at srv at 0) (snd (at 0)) (rs_defaultDMap srv)
              (argString (args ! 1)) (i64 (seconds * second)) d of
             (Some err, d) \<Rightarrow> if errors_Is err ErrNotFound then ([WriteInt 0], d)
               else (writeServiceError err, d)
           | (None, d) \<Rightarrow> ([WriteInt 1], d)))"

text \<open>\<open>stopping\<close> is what the handler loads under its read lock.\<close>

definition resp_handle :: "(string \<Rightarrow> string) \<Rightarrow> 'd RESPServer \<Rightarrow> bool \<Rightarrow> (nat \<Rightarrow> LeaseTracker \<times> time) \<Rightarrow>
    byte list list \<Rightarrow> 'd \<Rightarrow> reply list \<times> 'd" where
  "resp_handle unicode srv stopping at args d =
     (if length args = 0 then ([WriteError ''ERR empty command''], d)
      else if stopping then ([WriteError ''ERR server is shutting down'', ConnClose], d)
      else let name = ToUpper unicode (argString (args ! 0))
      in if name = ''HELLO'' then (handleHello args, d)
      else if name = ''PING'' then (handlePing args, d)
      else if name = ''GET'' then handleGet srv at args d
      else if name = ''SET'' then handleSet unicode srv at args d
      else if name = ''DEL'' then handleDel srv at args d
      else if name = ''EXPIRE'' then handleExpire srv at args d
      else ([WriteError ''ERR unsupported command''], d))"

definition onAccept :: "bool \<Rightarrow> bool" where
  "onAccept stopping \<longleftrightarrow> \<not> stopping"

definition isListenerClosed :: "kv_error option \<Rightarrow> bool" where
  "isListenerClosed err =
     (case err of None \<Rightarrow> False
      | Some err \<Rightarrow> errors_Is err ErrClosed \<or> error_text err = ''not serving'')"

text \<open>What \<^verbatim>\<open>ServeRESP\<close> waits for: the listener returning, or the context ending and then the
  outcome of \<^verbatim>\<open>Shutdown\<close>, or the timer that bounds it.\<close>

datatype serve_event =
    ListenerReturned "kv_error option" | ShutdownReturned "kv_error option" | ShutdownTimer

definition ServeRESP :: "'d kv_Service option \<Rightarrow> RESPServerConfig \<Rightarrow> serve_event \<Rightarrow> kv_error option" where
  "ServeRESP service cfg ev =
     (case NewRESPServer service cfg of
        Inl err \<Rightarrow> Some err
      | Inr server \<Rightarrow>
          (case ev of
             ShutdownReturned shutdownErr \<Rightarrow>
               if shutdownErr \<noteq> None \<and> \<not> isListenerClosed shutdownErr then shutdownErr else None
           | ShutdownTimer \<Rightarrow> Some (ErrNew ''resp server shutdown exceeded grace window'')
           | ListenerReturned err \<Rightarrow>
               if err \<noteq> None \<and> \<not> isListenerClosed err then err else None))"

section \<open>The shutdown protocol\<close>

text \<open>
  The points at which a goroutine that handles a command and the goroutine in \<^verbatim>\<open>Shutdown\<close> can be
  interleaved.  A handler arrives, takes the read lock, loads \<^verbatim>\<open>stopping\<close>, counts itself in
  \<^verbatim>\<open>inflight\<close>, releases the lock and runs; or is refused.  \<^verbatim>\<open>Shutdown\<close> swaps \<^verbatim>\<open>stopping\<close>, loads
  \<^verbatim>\<open>running\<close>, takes and releases the write lock, waits for \<^verbatim>\<open>inflight\<close> or for the grace period
  and closes the server.
\<close>

datatype handler_pc = Arrived | Locked | Refusing | Admitted | Counted | Running | Finished

datatype shutdown_pc = NotCalled | Flagged | WantsLock | HoldsLock | Waiting | Drained | GraceOver
  | ClosedClean | ClosedForced | ReturnedIdle

record resp_state =
  rv_stopping :: bool
  rv_running :: bool
  rv_inflight :: int
  rv_handlers :: "handler_pc list"
  rv_shutdown :: shutdown_pc

definition holds_read :: "handler_pc \<Rightarrow> bool" where
  "holds_read h \<longleftrightarrow> h \<in> {Locked, Refusing, Admitted, Counted}"

definition readers :: "resp_state \<Rightarrow> nat" where
  "readers s = length (filter holds_read (rv_handlers s))"

definition to_pc :: "resp_state \<Rightarrow> nat \<Rightarrow> handler_pc \<Rightarrow> resp_state" where
  "to_pc s i h = s\<lparr>rv_handlers := (rv_handlers s)[i := h]\<rparr>"

definition at_pc :: "resp_state \<Rightarrow> nat \<Rightarrow> handler_pc \<Rightarrow> bool" where
  "at_pc s i h \<longleftrightarrow> i < length (rv_handlers s) \<and> rv_handlers s ! i = h"

inductive resp_step :: "resp_state \<Rightarrow> resp_state \<Rightarrow> bool" where
  serve_start: "resp_step s (s\<lparr>rv_running := True\<rparr>)"
| serve_end: "resp_step s (s\<lparr>rv_running := False\<rparr>)"
| command: "resp_step s (s\<lparr>rv_handlers := rv_handlers s @ [Arrived]\<rparr>)"
| r_lock: "at_pc s i Arrived \<Longrightarrow> rv_shutdown s \<noteq> HoldsLock \<Longrightarrow> resp_step s (to_pc s i Locked)"
| load_stopping: "at_pc s i Locked \<Longrightarrow>
    resp_step s (to_pc s i (if rv_stopping s then Refusing else Admitted))"
| refuse: "at_pc s i Refusing \<Longrightarrow> resp_step s (to_pc s i Finished)"
| inflight_add: "at_pc s i Admitted \<Longrightarrow>
    resp_step s ((to_pc s i Counted)\<lparr>rv_inflight := rv_inflight s + 1\<rparr>)"
| r_unlock: "at_pc s i Counted \<Longrightarrow> resp_step s (to_pc s i Running)"
| inflight_done: "at_pc s i Running \<Longrightarrow>
    resp_step s ((to_pc s i Finished)\<lparr>rv_inflight := rv_inflight s - 1\<rparr>)"
| shutdown_again: "rv_stopping s \<Longrightarrow> resp_step s s"
| shutdown: "rv_shutdown s = NotCalled \<Longrightarrow> \<not> rv_stopping s \<Longrightarrow>
    resp_step s (s\<lparr>rv_stopping := True, rv_shutdown := Flagged\<rparr>)"
| load_running: "rv_shutdown s = Flagged \<Longrightarrow>
    resp_step s (s\<lparr>rv_shutdown := (if rv_running s then WantsLock else ReturnedIdle)\<rparr>)"
| w_lock: "rv_shutdown s = WantsLock \<Longrightarrow> readers s = 0 \<Longrightarrow> resp_step s (s\<lparr>rv_shutdown := HoldsLock\<rparr>)"
| w_unlock: "rv_shutdown s = HoldsLock \<Longrightarrow> resp_step s (s\<lparr>rv_shutdown := Waiting\<rparr>)"
| wait_returns: "rv_shutdown s = Waiting \<Longrightarrow> rv_inflight s = 0 \<Longrightarrow> resp_step s (s\<lparr>rv_shutdown := Drained\<rparr>)"
| grace: "rv_shutdown s = Waiting \<Longrightarrow> resp_step s (s\<lparr>rv_shutdown := GraceOver\<rparr>)"
| close_clean: "rv_shutdown s = Drained \<Longrightarrow> resp_step s (s\<lparr>rv_shutdown := ClosedClean\<rparr>)"
| close_forced: "rv_shutdown s = GraceOver \<Longrightarrow> resp_step s (s\<lparr>rv_shutdown := ClosedForced\<rparr>)"

definition resp_init :: resp_state where
  "resp_init = \<lparr>rv_stopping = False, rv_running = False, rv_inflight = 0, rv_handlers = [],
     rv_shutdown = NotCalled\<rparr>"

inductive resp_reach :: "resp_state \<Rightarrow> bool" where
  init: "resp_reach resp_init"
| step: "resp_reach s \<Longrightarrow> resp_step s s' \<Longrightarrow> resp_reach s'"

section \<open>The front end as a finite map\<close>

definition get_spec :: "(string \<rightharpoonup> string) \<Rightarrow> string \<Rightarrow> reply list \<Rightarrow> (string \<rightharpoonup> string) \<Rightarrow> bool" where
  "get_spec m k rs m' \<longleftrightarrow> m' = m \<and> (\<forall>v. WriteBulkString v \<in> set rs \<longrightarrow> m k = Some v) \<and>
     (\<forall>raw. WriteRaw raw \<in> set rs \<longrightarrow> m k = None)"

definition set_spec :: "(string \<rightharpoonup> string) \<Rightarrow> string \<Rightarrow> string \<Rightarrow> reply list \<Rightarrow> (string \<rightharpoonup> string) \<Rightarrow> bool" where
  "set_spec m k v rs m' \<longleftrightarrow> m' \<in> {m, m(k \<mapsto> v)} \<and> (rs = [WriteString ''OK''] \<longrightarrow> m' = m(k \<mapsto> v)) \<and>
     (rs = [WriteString ''OK''] \<or> (\<exists>msg. rs = [WriteError msg]))"

definition del_spec :: "(string \<rightharpoonup> string) \<Rightarrow> string list \<Rightarrow> reply list \<Rightarrow> (string \<rightharpoonup> string) \<Rightarrow> bool" where
  "del_spec m ks rs m' \<longleftrightarrow>
     rs = [WriteInt (int (length ks))] \<and> m' = m |` (- set ks) \<or>
     (\<exists>msg i. rs = [WriteError msg] \<and> i \<le> length ks \<and> m' = m |` (- set (take i ks)))"

definition expire_spec :: "(string \<rightharpoonup> string) \<Rightarrow> string \<Rightarrow> reply list \<Rightarrow> (string \<rightharpoonup> string) \<Rightarrow> bool" where
  "expire_spec m k rs m' \<longleftrightarrow> m' = m \<and> (WriteInt 0 \<in> set rs \<longrightarrow> m k = None)"

text \<open>What a command may do to the map, by its name and arguments and the reply.\<close>

definition resp_spec :: "(string \<rightharpoonup> string) \<Rightarrow> string \<Rightarrow> string list \<Rightarrow> reply list \<Rightarrow> (string \<rightharpoonup> string) \<Rightarrow> bool" where
  "resp_spec m name ks rs m' \<longleftrightarrow>
     (if name = ''GET'' \<and> length ks = 1 then get_spec m (ks ! 0) rs m'
      else if name = ''SET'' \<and> 2 \<le> length ks then set_spec m (ks ! 0) (ks ! 1) rs m'
      else if name = ''DEL'' \<and> 1 \<le> length ks then del_spec m ks rs m'
      else if name = ''EXPIRE'' \<and> length ks = 2 then expire_spec m (ks ! 0) rs m'
      else m' = m)"

lemma writeServiceError_cases:
  "errors_Is err ErrNotFound \<Longrightarrow> writeServiceError err = [WriteRaw (''_'' @ crlf)]"
  "\<not> errors_Is err ErrNotFound \<Longrightarrow> \<exists>msg. writeServiceError err = [WriteError msg]"
  by (simp_all add: writeServiceError_def)

lemma store_at_simps [simp]:
  "store_at n k v m n = (m n)(k := v)"
  "n' \<noteq> n \<Longrightarrow> store_at n k v m n' = m n'"
  by (simp_all add: store_at_def)

lemma restrict_UNIV [simp]: "m |` UNIV = m"
  by (simp add: restrict_map_def)

lemma restrict_delete: "(m(k := None)) |` (- A) = m |` (- insert k A)"
  by (auto simp: restrict_map_def fun_eq_iff)

lemma handleGet_refines:
  assumes "documented_service contents (rs_service srv)" and "handleGet srv at [c, k] d = (rs, d')"
  shows "contents d' = contents d \<and>
    get_spec (contents d (rs_defaultDMap srv)) (argString k) rs (contents d' (rs_defaultDMap srv))"
proof -
  obtain r d1 where g: "kv_Get (service_at srv at 0) (snd (at 0)) (rs_defaultDMap srv) (argString k) d = (r, d1)"
    by fastforce
  from assms(1) have "documented_service contents (service_at srv at 0)" by (simp add: service_at_def)
  from kv_Get_contents [OF this g] assms(2) g show ?thesis
    by (auto simp: handleGet_def get_spec_def writeServiceError_def split: sum.splits if_splits)
qed

lemma handleSet_refines:
  assumes "documented_service contents (rs_service srv)"
    and "handleSet unicode srv at (c # k # v # opts) d = (rs, d')"
  shows "(\<forall>n. n \<noteq> rs_defaultDMap srv \<longrightarrow> contents d' n = contents d n) \<and>
    set_spec (contents d (rs_defaultDMap srv)) (argString k) (argString v) rs (contents d' (rs_defaultDMap srv))"
proof (cases "parseSetTTL unicode opts")
  case (Inl err)
  with assms(2) show ?thesis by (auto simp: handleSet_def set_spec_def)
next
  case (Inr ttl)
  obtain r d1 where g: "kv_Set (service_at srv at 0) (snd (at 0)) (rs_defaultDMap srv) (argString k)
      (argString v) ttl d = (r, d1)" by fastforce
  from assms(1) have "documented_service contents (service_at srv at 0)" by (simp add: service_at_def)
  from kv_Set_contents [OF this g] assms(2) g Inr show ?thesis
    by (auto simp: handleSet_def set_spec_def eval_nat_numeral dest!: writeServiceError_cases(2) split: option.splits)
qed

lemma del_loop_refines:
  assumes "documented_service contents (rs_service srv)" and "del_loop srv at n keys d = (rs, d')"
  shows "(\<forall>m. m \<noteq> rs_defaultDMap srv \<longrightarrow> contents d' m = contents d m) \<and>
    (rs = [WriteInt (int (n + length keys))] \<and>
       contents d' (rs_defaultDMap srv) = contents d (rs_defaultDMap srv) |` (- set (map argString keys)) \<or>
     (\<exists>msg i. rs = [WriteError msg] \<and> i \<le> length keys \<and>
       contents d' (rs_defaultDMap srv) = contents d (rs_defaultDMap srv) |` (- set (take i (map argString keys)))))"
  using assms(2)
proof (induction keys arbitrary: n d)
  case Nil
  then show ?case by auto
next
  case (Cons key keys)
  let ?n = "rs_defaultDMap srv"
  obtain r d1 where g: "kv_Delete (service_at srv at n) (snd (at n)) ?n (argString key) d = (r, d1)"
    by fastforce
  from assms(1) have "documented_service contents (service_at srv at n)" by (simp add: service_at_def)
  note c = kv_Delete_contents [OF this g]
  show ?case
  proof (cases r)
    case None
    with c have d1: "contents d1 = store_at ?n (argString key) None (contents d)" by simp
    have del: "contents d1 ?n |` (- A) = contents d ?n |` (- insert (argString key) A)" for A
      by (simp only: d1 store_at_simps restrict_delete)
    have oth: "contents d1 m = contents d m" if "m \<noteq> ?n" for m
      using that by (simp add: d1)
    from Cons.prems g None have "del_loop srv at (Suc n) keys d1 = (rs, d')" by simp
    from Cons.IH [OF this] show ?thesis
    proof (elim conjE disjE exE)
      fix msg i assume i: "\<forall>m. m \<noteq> ?n \<longrightarrow> contents d' m = contents d1 m" "rs = [WriteError msg]"
        "i \<le> length keys" "contents d' ?n = contents d1 ?n |` (- set (take i (map argString keys)))"
      then have "contents d' ?n = contents d ?n |` (- set (take (Suc i) (map argString (key # keys))))"
        by (simp add: del)
      with i oth show ?thesis by (metis Suc_le_mono length_Cons)
    qed (simp add: del oth)
  next
    case (Some err)
    with c obtain msg where rs: "rs = [WriteError msg]" and d': "d' = d1"
      using Cons.prems g by (auto dest: writeServiceError_cases(2))
    from c Some consider "contents d1 = contents d" | "contents d1 = store_at ?n (argString key) None (contents d)"
      by auto
    then show ?thesis
    proof cases
      case 1
      then have "contents d' ?n = contents d ?n |` (- set (take 0 (map argString (key # keys))))" by (simp add: d')
      with 1 rs d' show ?thesis by (metis le0)
    next
      case 2
      then have "contents d' ?n = contents d ?n |` (- set (take (Suc 0) (map argString (key # keys))))"
        by (simp add: d' restrict_delete [of _ _ "{}", simplified, symmetric])
      with 2 rs d' show ?thesis by (metis One_nat_def Suc_le_mono le0 length_Cons store_at_simps(2))
    qed
  qed
qed

lemma handleExpire_refines:
  assumes "documented_service contents (rs_service srv)" and "handleExpire srv at [c, k, t] d = (rs, d')"
  shows "contents d' = contents d \<and>
    expire_spec (contents d (rs_defaultDMap srv)) (argString k) rs (contents d' (rs_defaultDMap srv))"
proof (cases "\<exists>v. ParseInt (argString t) = Some v \<and> 0 < v")
  case False
  with assms(2) show ?thesis
    by (auto simp: handleExpire_def expire_spec_def eval_nat_numeral not_less split: option.splits if_splits)
next
  case True
  then obtain v where v: "ParseInt (argString t) = Some v" "0 < v" by auto
  obtain r d1 where g: "kv_Expire (service_at srv at 0) (snd (at 0)) (rs_defaultDMap srv) (argString k)
      (i64 (v * second)) d = (r, d1)" by fastforce
  from assms(1) have "documented_service contents (service_at srv at 0)" by (simp add: service_at_def)
  from kv_Expire_contents [OF this g] assms(2) g v show ?thesis
    by (auto simp: handleExpire_def expire_spec_def eval_nat_numeral writeServiceError_def
        split: option.splits if_splits)
qed

lemma handle_refines:
  assumes "documented_service contents (rs_service srv)"
    and "resp_handle unicode srv False at (c # ks) d = (rs, d')"
  shows "(\<forall>n. n \<noteq> rs_defaultDMap srv \<longrightarrow> contents d' n = contents d n) \<and>
    resp_spec (contents d (rs_defaultDMap srv)) (ToUpper unicode (argString c)) (map argString ks) rs
      (contents d' (rs_defaultDMap srv))"
proof -
  let ?name = "ToUpper unicode (argString c)"
  consider (other) "?name \<notin> {''GET'', ''SET'', ''DEL'', ''EXPIRE''}"
    | (get) "?name = ''GET''" | (set) "?name = ''SET''" | (del) "?name = ''DEL''" | (expire) "?name = ''EXPIRE''"
    by blast
  then show ?thesis
  proof cases
    case other
    with assms(2) have "d' = d" by (auto simp: resp_handle_def Let_def split: if_splits)
    with other show ?thesis by (simp add: resp_spec_def)
  next
    case get
    with assms(2) have h: "handleGet srv at (c # ks) d = (rs, d')" by (simp add: resp_handle_def)
    show ?thesis
    proof (cases "length ks = 1")
      case True
      then obtain k where "ks = [k]" by (auto simp: length_Suc_conv)
      with handleGet_refines [OF assms(1), of at c k d rs d'] h get show ?thesis
        by (auto simp: resp_spec_def)
    qed (use h get in \<open>auto simp: handleGet_def resp_spec_def\<close>)
  next
    case set
    with assms(2) have h: "handleSet unicode srv at (c # ks) d = (rs, d')" by (simp add: resp_handle_def)
    show ?thesis
    proof (cases "2 \<le> length ks")
      case True
      then obtain k v opts where "ks = k # v # opts" by (auto simp: Suc_le_length_iff numeral_2_eq_2)
      with handleSet_refines [OF assms(1), of unicode at c k v opts d rs d'] h set show ?thesis
        by (simp add: resp_spec_def)
    qed (use h set in \<open>auto simp: handleSet_def resp_spec_def\<close>)
  next
    case del
    with assms(2) have h: "handleDel srv at (c # ks) d = (rs, d')" by (simp add: resp_handle_def)
    show ?thesis
    proof (cases "1 \<le> length ks")
      case True
      with h have "del_loop srv at 0 ks d = (rs, d')" by (cases ks) (simp_all add: handleDel_def)
      from del_loop_refines [OF assms(1) this] True del show ?thesis
        by (simp add: resp_spec_def del_spec_def)
    qed (use h del in \<open>cases ks; simp add: handleDel_def resp_spec_def\<close>)
  next
    case expire
    with assms(2) have h: "handleExpire srv at (c # ks) d = (rs, d')" by (simp add: resp_handle_def)
    show ?thesis
    proof (cases "length ks = 2")
      case True
      then obtain k t where "ks = [k, t]" by (auto simp: length_Suc_conv numeral_2_eq_2)
      with handleExpire_refines [OF assms(1), of at c k t d rs d'] h expire show ?thesis
        by (auto simp: resp_spec_def)
    qed (use h expire in \<open>auto simp: handleExpire_def resp_spec_def\<close>)
  qed
qed

lemma kv_Set_no_ttl:
  assumes "kv_dmaps s = OlricProvider_DMap client" and "ttl \<le> 0"
  shows "kv_Set s now n k v ttl d = kv_Set s now n k v 0 d"
proof -
  have "olricDMap_Set inner k v ttl = olricDMap_Set inner k v 0" for inner
    using assms(2) by (simp add: fun_eq_iff olricDMap_Set_def)
  note eq = this
  show ?thesis
    by (simp add: kv_Set_def assms(1) OlricProvider_DMap_def olricDMap_def eq split: option.split sum.split prod.split)
qed

section \<open>The lease at the front end\<close>

lemma service_at_lease [simp]: "kv_lease (service_at srv at i) = fst (at i)"
  by (simp add: service_at_def)

lemma writeServiceError_lease [simp]:
  "writeServiceError ErrLeaseExpired = [WriteError ''TRYAGAIN serving lease is expired'']"
  by (simp add: writeServiceError_def)

lemma blocked_commands:
  assumes "\<not> ServingAllowed (fst (at 0)) (snd (at 0))"
  shows "handleGet srv at [c, k] d = ([WriteError ''TRYAGAIN serving lease is expired''], d)"
    and "handleSet unicode srv at [c, k, v] d = ([WriteError ''TRYAGAIN serving lease is expired''], d)"
    and "handleDel srv at (c # k # keys) d = ([WriteError ''TRYAGAIN serving lease is expired''], d)"
    and "handleSet unicode srv at (c # args) d = (rs, d') \<Longrightarrow> d' = d \<and> (\<exists>msg. rs = [WriteError msg])"
    and "handleExpire srv at args d = (rs, d') \<Longrightarrow> d' = d \<and> (\<exists>msg. rs = [WriteError msg])"
proof -
  have l: "\<not> ServingAllowed (kv_lease (service_at srv at 0)) (snd (at 0))" using assms by simp
  show "handleGet srv at [c, k] d = ([WriteError ''TRYAGAIN serving lease is expired''], d)"
    by (simp add: handleGet_def no_lease_no_access [OF l])
  show "handleSet unicode srv at [c, k, v] d = ([WriteError ''TRYAGAIN serving lease is expired''], d)"
    by (simp add: handleSet_def parseSetTTL_def no_lease_no_access [OF l])
  show "handleDel srv at (c # k # keys) d = ([WriteError ''TRYAGAIN serving lease is expired''], d)"
    by (simp add: handleDel_def no_lease_no_access [OF l])
  show "d' = d \<and> (\<exists>msg. rs = [WriteError msg])" if "handleSet unicode srv at (c # args) d = (rs, d')"
    using that by (auto simp: handleSet_def no_lease_no_access [OF l] split: if_splits sum.splits)
  show "d' = d \<and> (\<exists>msg. rs = [WriteError msg])" if "handleExpire srv at args d = (rs, d')"
    using that l by (auto simp: handleExpire_def kv_Expire_def writeServiceError_def
        split: if_splits option.splits)
qed

lemma blocked_handlers:
  assumes l: "\<not> ServingAllowed (fst (at 0)) (snd (at 0))"
  defines "tryAgain \<equiv> [WriteError ''TRYAGAIN serving lease is expired'']"
  shows "handleGet srv at (c # ks) d = (rs, d') \<Longrightarrow> d' = d \<and> (\<exists>msg. rs = [WriteError msg]) \<and> (length ks = 1 \<longrightarrow> rs = tryAgain)"
    and "handleSet unicode srv at (c # ks) d = (rs, d') \<Longrightarrow> d' = d \<and> (\<exists>msg. rs = [WriteError msg]) \<and> (length ks = 2 \<longrightarrow> rs = tryAgain)"
    and "handleDel srv at (c # ks) d = (rs, d') \<Longrightarrow> d' = d \<and> (\<exists>msg. rs = [WriteError msg]) \<and> (ks \<noteq> [] \<longrightarrow> rs = tryAgain)"
proof -
  show "d' = d \<and> (\<exists>msg. rs = [WriteError msg]) \<and> (length ks = 1 \<longrightarrow> rs = tryAgain)" if h: "handleGet srv at (c # ks) d = (rs, d')"
  proof (cases "length ks = 1")
    case True
    then obtain k where "ks = [k]" by (auto simp: length_Suc_conv)
    with h blocked_commands(1) [of at srv c k d] l show ?thesis by (auto simp: tryAgain_def)
  qed (use h in \<open>auto simp: handleGet_def\<close>)
  show "d' = d \<and> (\<exists>msg. rs = [WriteError msg]) \<and> (length ks = 2 \<longrightarrow> rs = tryAgain)" if h: "handleSet unicode srv at (c # ks) d = (rs, d')"
  proof (cases "length ks = 2")
    case True
    then obtain k v where "ks = [k, v]" by (auto simp: length_Suc_conv numeral_2_eq_2)
    with h blocked_commands(2) [of at unicode srv c k v d] l show ?thesis by (auto simp: tryAgain_def)
  qed (use blocked_commands(4) [OF l h] in simp)
  show "d' = d \<and> (\<exists>msg. rs = [WriteError msg]) \<and> (ks \<noteq> [] \<longrightarrow> rs = tryAgain)" if h: "handleDel srv at (c # ks) d = (rs, d')"
  proof (cases ks)
    case (Cons k keys)
    with h blocked_commands(3) [of at srv c k keys d] l show ?thesis by (auto simp: tryAgain_def)
  qed (use h in \<open>auto simp: handleDel_def\<close>)
qed

section \<open>Invariant of the shutdown protocol\<close>

definition in_flight :: "handler_pc \<Rightarrow> bool" where
  "in_flight h \<longleftrightarrow> h \<in> {Counted, Running}"

definition past_barrier :: "resp_state \<Rightarrow> bool" where
  "past_barrier s \<longleftrightarrow> rv_shutdown s \<in> {Waiting, Drained, GraceOver, ClosedClean, ClosedForced}"

definition drained :: "resp_state \<Rightarrow> bool" where
  "drained s \<longleftrightarrow> rv_shutdown s \<in> {Drained, ClosedClean}"

definition resp_inv :: "resp_state \<Rightarrow> bool" where
  "resp_inv s \<longleftrightarrow>
     rv_inflight s = int (length (filter in_flight (rv_handlers s))) \<and>
     (rv_shutdown s \<noteq> NotCalled \<longrightarrow> rv_stopping s) \<and>
     (rv_shutdown s = HoldsLock \<longrightarrow> readers s = 0) \<and>
     (past_barrier s \<longrightarrow> Admitted \<notin> set (rv_handlers s)) \<and>
     (drained s \<longrightarrow> rv_inflight s = 0)"

lemma length_filter_update:
  "i < length xs \<Longrightarrow> int (length (filter P (xs[i := x]))) =
     int (length (filter P xs)) - (if P (xs ! i) then 1 else 0) + (if P x then 1 else 0)"
proof (induction xs arbitrary: i)
  case (Cons a xs)
  show ?case
  proof (cases i)
    case (Suc j)
    with Cons.prems Cons.IH [of j] show ?thesis by (simp split: if_splits)
  qed simp
qed simp

lemma readers_zero: "readers s = 0 \<longleftrightarrow> (\<forall>h \<in> set (rv_handlers s). \<not> holds_read h)"
  by (auto simp: readers_def filter_empty_conv)

lemma to_pc_no_admitted:
  "h \<noteq> Admitted \<Longrightarrow> Admitted \<notin> set hs \<Longrightarrow> Admitted \<notin> set (hs[i := h])"
  using set_update_subset_insert [of hs i h] by auto

lemma at_pc_mem: "at_pc s i h \<Longrightarrow> h \<in> set (rv_handlers s)"
  by (auto simp: at_pc_def)

lemma at_pc_reader: "resp_inv s \<Longrightarrow> at_pc s i h \<Longrightarrow> holds_read h \<Longrightarrow> rv_shutdown s \<noteq> HoldsLock"
  by (auto simp: resp_inv_def readers_zero dest: at_pc_mem)

lemma at_pc_admitted: "resp_inv s \<Longrightarrow> at_pc s i Admitted \<Longrightarrow> \<not> past_barrier s"
  by (auto simp: resp_inv_def dest: at_pc_mem)

lemma at_pc_flight: "resp_inv s \<Longrightarrow> at_pc s i h \<Longrightarrow> in_flight h \<Longrightarrow> rv_inflight s \<noteq> 0"
  by (auto simp: resp_inv_def filter_empty_conv dest: at_pc_mem)

lemma drained_past: "drained s \<Longrightarrow> past_barrier s"
  by (auto simp: drained_def past_barrier_def)

text \<open>One handler moves from \<open>h0\<close> to \<open>h\<close>.\<close>

lemma to_pc_inv:
  assumes inv: "resp_inv s" and h0: "at_pc s i h0"
    and w: "rv_shutdown s = HoldsLock \<Longrightarrow> \<not> holds_read h"
    and p: "past_barrier s \<Longrightarrow> h \<noteq> Admitted \<and> (in_flight h \<longrightarrow> in_flight h0)"
    and n: "n = rv_inflight s - (if in_flight h0 then 1 else 0) + (if in_flight h then 1 else 0)"
  shows "resp_inv ((to_pc s i h)\<lparr>rv_inflight := n\<rparr>)"
proof -
  from h0 have "n = int (length (filter in_flight ((rv_handlers s)[i := h])))"
    using inv by (simp add: n length_filter_update at_pc_def resp_inv_def)
  moreover have "\<forall>x \<in> set ((rv_handlers s)[i := h]). \<not> holds_read x" if "rv_shutdown s = HoldsLock"
    using that w inv set_update_subset_insert [of "rv_handlers s" i h]
    by (auto simp: resp_inv_def readers_zero)
  moreover have "Admitted \<notin> set ((rv_handlers s)[i := h])" if "past_barrier s"
    by (rule to_pc_no_admitted) (use that p inv in \<open>simp_all add: resp_inv_def\<close>)
  moreover have "n = 0" if "drained s"
    using that p [OF drained_past] inv at_pc_flight [OF inv h0] by (auto simp: n resp_inv_def)
  ultimately show ?thesis using inv
    by (simp add: resp_inv_def to_pc_def readers_zero past_barrier_def drained_def)
qed

lemma readers_simps [simp]:
  "readers (s\<lparr>rv_running := b\<rparr>) = readers s"
  "readers (s\<lparr>rv_stopping := b\<rparr>) = readers s"
  "readers (s\<lparr>rv_shutdown := pc\<rparr>) = readers s"
  "readers (s\<lparr>rv_handlers := rv_handlers s @ [Arrived]\<rparr>) = readers s"
  by (simp_all add: readers_def holds_read_def)

lemma barrier_simps [simp]:
  "past_barrier (s\<lparr>rv_running := b\<rparr>) = past_barrier s"
  "drained (s\<lparr>rv_running := b\<rparr>) = drained s"
  "past_barrier (s\<lparr>rv_handlers := hs\<rparr>) = past_barrier s"
  "drained (s\<lparr>rv_handlers := hs\<rparr>) = drained s"
  by (simp_all add: past_barrier_def drained_def)

lemma inflight_same: "to_pc s i h = (to_pc s i h)\<lparr>rv_inflight := rv_inflight s\<rparr>"
  by (simp add: to_pc_def)

lemma resp_step_inv:
  assumes "resp_step s s'" and inv: "resp_inv s"
  shows "resp_inv s'"
  using assms(1)
proof (cases rule: resp_step.cases)
  case (r_lock i)
  then show ?thesis
    by (subst r_lock(1), subst inflight_same)
      (auto intro!: to_pc_inv [OF inv] simp: in_flight_def)
next
  case (load_stopping i)
  have "past_barrier s \<Longrightarrow> rv_stopping s" using inv by (auto simp: resp_inv_def past_barrier_def)
  with at_pc_reader [OF inv load_stopping(2)] show ?thesis
    by (subst load_stopping(1), subst inflight_same)
      (rule to_pc_inv [OF inv load_stopping(2)], auto simp: in_flight_def holds_read_def)
next
  case (refuse i)
  then show ?thesis
    by (subst refuse(1), subst inflight_same)
      (rule to_pc_inv [OF inv refuse(2)], auto simp: in_flight_def holds_read_def)
next
  case (inflight_add i)
  with at_pc_reader [OF inv inflight_add(2)] at_pc_admitted [OF inv inflight_add(2)] show ?thesis
    by (subst inflight_add(1))
      (rule to_pc_inv [OF inv inflight_add(2)], auto simp: in_flight_def holds_read_def)
next
  case (r_unlock i)
  then show ?thesis
    by (subst r_unlock(1), subst inflight_same)
      (rule to_pc_inv [OF inv r_unlock(2)], auto simp: in_flight_def holds_read_def)
next
  case (inflight_done i)
  then show ?thesis
    by (subst inflight_done(1))
      (rule to_pc_inv [OF inv inflight_done(2)], auto simp: in_flight_def holds_read_def)
next
  case command
  have "\<not> in_flight Arrived" by (simp add: in_flight_def)
  with inv show ?thesis by (auto simp: command resp_inv_def)
next
  case serve_start
  with inv show ?thesis by (auto simp: resp_inv_def)
next
  case serve_end
  with inv show ?thesis by (auto simp: resp_inv_def)
next
  case load_running
  with inv show ?thesis by (cases "rv_running s") (simp_all add: resp_inv_def past_barrier_def drained_def)
next
  case shutdown_again
  with inv show ?thesis by simp
next
  case w_unlock
  then have "Admitted \<notin> set (rv_handlers s)" using inv
    by (auto simp: resp_inv_def readers_zero holds_read_def)
  with w_unlock inv show ?thesis by (simp add: resp_inv_def past_barrier_def drained_def)
next
  case close_clean
  with inv show ?thesis by (auto simp: resp_inv_def past_barrier_def drained_def)
qed (use inv in \<open>simp_all add: resp_inv_def past_barrier_def drained_def\<close>)

lemma resp_reach_inv: "resp_reach s \<Longrightarrow> resp_inv s"
proof (induction rule: resp_reach.induct)
  case init
  show ?case by (simp add: resp_init_def resp_inv_def past_barrier_def drained_def)
qed (rule resp_step_inv)

section \<open>Properties\<close>

text \<open>An Olric client whose cluster is one association list, for the examples.\<close>

definition list_DMap :: "string \<Rightarrow> ((string \<times> string) \<times> string) list olric_DMap" where
  "list_DMap n = \<lparr>od_Get = (\<lambda>k d. (case map_of d (n, k) of None \<Rightarrow> (Inl ErrKeyNotFound, d) | Some v \<Rightarrow> (Inr (Inr v), d))),
     od_Put = (\<lambda>k v opts d. (None, AList.update (n, k) v d)),
     od_Delete = (\<lambda>ks d. ((int (length ks), None), fold (\<lambda>k. AList.delete (n, k)) ks d)),
     od_Expire = (\<lambda>k ttl d. ((if map_of d (n, k) = None then Some ErrKeyNotFound else None), d))\<rparr>"

definition list_contents :: "((string \<times> string) \<times> string) list contents" where
  "list_contents d n k = map_of d (n, k)"

definition list_server :: "((string \<times> string) \<times> string) list RESPServer" where
  "list_server = \<lparr>rs_service = \<lparr>kv_dmaps = OlricProvider_DMap (\<lambda>n d. (Inr (list_DMap n), d)),
       kv_lease = NewLeaseTracker\<rparr>,
     rs_addr = '':3321'', rs_defaultDMap = DefaultDMap, rs_commandTimeout = 5 * second,
     rs_shutdownGrace = DefaultRESPShutdownGrace\<rparr>"

lemma list_documented: "documented_service list_contents (rs_service list_server)"
proof -
  have "list_contents (AList.update (n, k) v d) = store_at n k (Some v) (list_contents d)" for n k v d
    by (intro ext) (simp add: list_contents_def store_at_def update_conv')
  moreover have "list_contents (AList.delete (n, k) d) = store_at n k None (list_contents d)" for n k d
    by (intro ext) (simp add: list_contents_def store_at_def delete_conv')
  ultimately have "documented_client list_contents (\<lambda>n d. (Inr (list_DMap n), d))"
    by (auto simp: documented_client_def get_law_def put_law_def delete_law_def expire_law_def
        list_DMap_def errors_Is_def list_contents_def split: option.splits)
  then show ?thesis unfolding documented_service_def list_server_def by (intro exI) simp
qed

text \<open>C8. The RESP front end refines a finite map.  Over an Olric client that behaves as its
  interface documents, every admitted command leaves all other DMaps alone and changes the default
  DMap as its name says: GET leaves it as it is, a bulk reply carries the stored value and the null
  reply means there is none; SET answers OK only when the value is stored, and otherwise has either
  stored it or changed nothing; DEL answers its count only when all the keys are gone, and otherwise
  has removed a prefix of them; EXPIRE never changes a value; every other command changes nothing.\<close>

theorem resp_refines_map:
  assumes "documented_service contents (rs_service srv)"
    and "resp_handle unicode srv False at (c # ks) d = (rs, d')"
  shows "(\<forall>n. n \<noteq> rs_defaultDMap srv \<longrightarrow> contents d' n = contents d n) \<and>
    resp_spec (contents d (rs_defaultDMap srv)) (ToUpper unicode (argString c)) (map argString ks) rs
      (contents d' (rs_defaultDMap srv))"
  using assms by (rule handle_refines)

theorem resp_refines_map_witness:
  "documented_service list_contents (rs_service list_server) \<and>
   resp_handle id list_server False (\<lambda>_. (\<lparr>lt_generation = 1, lt_epoch = 1, lt_validUntilUnixMs = 10\<rparr>, 0))
     [string_bytes ''set'', string_bytes ''k'', string_bytes ''v''] [] =
     ([WriteString ''OK''], [((DefaultDMap, ''k''), ''v'')]) \<and>
   list_contents [((DefaultDMap, ''k''), ''v'')] DefaultDMap = [''k'' \<mapsto> ''v'']"
proof -
  let ?at = "\<lambda>_. (\<lparr>lt_generation = 1, lt_epoch = 1, lt_validUntilUnixMs = 10\<rparr>, 0)"
  have r: "resp_handle id list_server False ?at [string_bytes ''set'', string_bytes ''k'', string_bytes ''v''] [] =
     ([WriteString ''OK''], [((DefaultDMap, ''k''), ''v'')])" by code_simp
  have t: "ToUpper id ''set'' = ''SET''" by code_simp
  have "set_spec (list_contents [] DefaultDMap) ''k'' ''v'' [WriteString ''OK'']
     (list_contents [((DefaultDMap, ''k''), ''v'')] DefaultDMap)"
    using resp_refines_map [OF list_documented r]
    by (simp add: t resp_spec_def list_server_def argString_def)
  then have "list_contents [((DefaultDMap, ''k''), ''v'')] DefaultDMap = (list_contents [] DefaultDMap)(''k'' \<mapsto> ''v'')"
    by (simp add: set_spec_def)
  moreover have "list_contents [] DefaultDMap = Map.empty" by (rule ext) (simp add: list_contents_def)
  ultimately show ?thesis using r list_documented by simp
qed



text \<open>C36. An EX value of more than 9223372036 seconds overflows the nanosecond count.  For
  9223372037 the product is negative, which the adapter takes for "no expiry": the SET is the one
  without options, so the key that was to expire is kept for ever.\<close>

theorem overflowing_ex_is_dropped:
  "resp_handle unicode (srv\<lparr>rs_service := \<lparr>kv_dmaps = OlricProvider_DMap client, kv_lease = l\<rparr>\<rparr>) stopping at
     [string_bytes ''SET'', k, v, string_bytes ''EX'', string_bytes ''9223372037''] d =
   resp_handle unicode (srv\<lparr>rs_service := \<lparr>kv_dmaps = OlricProvider_DMap client, kv_lease = l\<rparr>\<rparr>) stopping at
     [string_bytes ''SET'', k, v] d"
proof -
  have t: "ToUpper unicode (argString (string_bytes ''SET'')) = ''SET''"
    "ToUpper unicode (argString (string_bytes ''EX'')) = ''EX''"
    by (simp_all add: ToUpper_def ascii_def argString_def ascii_upper_def)
  have p: "ParseInt (argString (string_bytes ''9223372037'')) = Some 9223372037"
    by (simp add: argString_def ParseInt_def char_digit_def)
  have o: "set_ttl_loop unicode 0 [string_bytes ''EX'', string_bytes ''9223372037''] = Inr (i64 9223372037000000000)"
    by (simp add: t p)
  have i: "i64 9223372037000000000 \<le> 0" by code_simp
  show ?thesis
    by (simp add: resp_handle_def t handleSet_def parseSetTTL_def o service_at_def
        kv_Set_no_ttl [OF _ i, of _ client] del: set_ttl_loop.simps(2))
qed


text \<open>A command that runs while \<^verbatim>\<open>Shutdown\<close> starts, and is waited for.\<close>

definition waiting_state :: resp_state where
  "waiting_state = \<lparr>rv_stopping = True, rv_running = True, rv_inflight = 1, rv_handlers = [Running],
     rv_shutdown = Waiting\<rparr>"

lemma waiting_reachable: "resp_reach waiting_state"
proof -
  let ?s = "\<lambda>b r n hs pc. \<lparr>rv_stopping = b, rv_running = r, rv_inflight = n, rv_handlers = hs, rv_shutdown = pc\<rparr>"
  have "resp_reach (?s False False 0 [] NotCalled)" using resp_reach.init by (simp add: resp_init_def)
  from resp_reach.step [OF this serve_start] have "resp_reach (?s False True 0 [] NotCalled)" by simp
  from resp_reach.step [OF this command] have "resp_reach (?s False True 0 [Arrived] NotCalled)" by simp
  from resp_reach.step [OF this r_lock [of _ 0]] have "resp_reach (?s False True 0 [Locked] NotCalled)"
    by (simp add: at_pc_def to_pc_def)
  from resp_reach.step [OF this load_stopping [of _ 0]] have "resp_reach (?s False True 0 [Admitted] NotCalled)"
    by (simp add: at_pc_def to_pc_def)
  from resp_reach.step [OF this inflight_add [of _ 0]] have "resp_reach (?s False True 1 [Counted] NotCalled)"
    by (simp add: at_pc_def to_pc_def)
  from resp_reach.step [OF this r_unlock [of _ 0]] have "resp_reach (?s False True 1 [Running] NotCalled)"
    by (simp add: at_pc_def to_pc_def)
  from resp_reach.step [OF this shutdown] have "resp_reach (?s True True 1 [Running] Flagged)" by simp
  from resp_reach.step [OF this load_running] have "resp_reach (?s True True 1 [Running] WantsLock)" by simp
  from resp_reach.step [OF this w_lock] have "resp_reach (?s True True 1 [Running] HoldsLock)"
    by (simp add: readers_def holds_read_def)
  from resp_reach.step [OF this w_unlock] show ?thesis by (simp add: waiting_state_def)
qed

definition drained_state :: resp_state where
  "drained_state = \<lparr>rv_stopping = True, rv_running = True, rv_inflight = 0, rv_handlers = [Finished],
     rv_shutdown = Drained\<rparr>"


end
