(* ===== verification/Sidecar_Rpc.thy ===== *)
theory Sidecar_Rpc
  imports Sidecar_Server
begin

text \<open>
  The control calls over the unix socket: the messages, the service description with its handlers,
  the generated-style client (\<^verbatim>\<open>internal/sidecar/control.go\<close>, from line 480) and the wrapper
  around it (\<^verbatim>\<open>internal/sidecar/transport.go\<close>).  The connection is an argument; when it delivers
  calls to the registered handlers and the codec reads back what it wrote, a remote call is the
  local call of the server.
\<close>

section \<open>Messages\<close>

record NotifyRequest =
  nr_Pending :: u64

record LoadRequest =
  lq_DMap :: string
  lq_Key :: string
  lq_HKey :: u64

record PurgeRequest =
  pr_MinGeneration :: int64

record PurgeResponse =
  ps_Purged :: nat

text \<open>An error of a call: of the connection, of the decoding, or the status the server's error
  arrives as.\<close>

datatype rpc_error = RpcTransport string | RpcDecode string | RpcUnimplemented string | RpcStatus sidecar_error

text \<open>\<^verbatim>\<open>jsonCodec\<close> on the message types; the encoding itself is \<^verbatim>\<open>encoding/json\<close>'s.\<close>

record jsonCodec =
  js_notify :: "(NotifyRequest \<Rightarrow> byte list) \<times> (byte list \<Rightarrow> string + NotifyRequest)"
  js_load :: "(LoadRequest \<Rightarrow> byte list) \<times> (byte list \<Rightarrow> string + LoadRequest)"
  js_drain :: "(DrainPartitionRequest \<Rightarrow> byte list) \<times> (byte list \<Rightarrow> string + DrainPartitionRequest)"
  js_purge :: "(PurgeRequest \<Rightarrow> byte list) \<times> (byte list \<Rightarrow> string + PurgeRequest)"
  js_empty :: "(unit \<Rightarrow> byte list) \<times> (byte list \<Rightarrow> string + unit)"
  js_loaded :: "(LoadResponse \<Rightarrow> byte list) \<times> (byte list \<Rightarrow> string + LoadResponse)"
  js_purged :: "(PurgeResponse \<Rightarrow> byte list) \<times> (byte list \<Rightarrow> string + PurgeResponse)"

section \<open>The server side\<close>

text \<open>What the server's methods take from their surroundings: the codec of the oplog, the backend,
  the other goroutines during an upsert and the clock.\<close>

record 'db sidecar_env =
  se_unmarshal :: "byte list \<Rightarrow> string + oplog_Entry"
  se_upsert :: "'db \<Rightarrow> EntryRecord list \<Rightarrow> backend_error option \<times> 'db"
  se_load :: "'db \<Rightarrow> EntryRef \<Rightarrow> backend_error + EntryRecord"
  se_purge :: "'db \<Rightarrow> int64 \<Rightarrow> (backend_error + nat) \<times> 'db"
  se_mid :: "Server \<Rightarrow> Server"
  se_now :: time

text \<open>The sidecar process as its callers see it.  \<open>None\<close> is a call that does not return.\<close>

type_synonym 'db sidecar_host = "Server \<times> 'db"
type_synonym ('a, 'db) call = "'db sidecar_host \<Rightarrow> ((sidecar_error + 'a) \<times> 'db sidecar_host) option"

text \<open>The interface \<^verbatim>\<open>OplogControlServer\<close> of the server.\<close>

definition srv_Notify :: "NotifyRequest \<Rightarrow> (unit, 'db) call" where
  "srv_Notify req w = (case w of (s, db) \<Rightarrow> Some (Inr (), Notify s, db))"

definition srv_LoadFromMySQL :: "'db sidecar_env \<Rightarrow> LoadRequest \<Rightarrow> (LoadResponse, 'db) call" where
  "srv_LoadFromMySQL env req w =
     (case w of (s, db) \<Rightarrow> Some (Server_LoadFromMySQL (se_load env db) s
        (Some \<lparr>ref_DMap = lq_DMap req, ref_Key = lq_Key req, ref_HKey = lq_HKey req\<rparr>) (se_now env), s, db))"

definition srv_DrainPartition :: "'db sidecar_env \<Rightarrow> DrainPartitionRequest \<Rightarrow> (unit, 'db) call" where
  "srv_DrainPartition env req w =
     (case w of (s, db) \<Rightarrow>
        map_option (\<lambda>(err, s, db). (case err of None \<Rightarrow> Inr () | Some e \<Rightarrow> Inl e, s, db))
          (DrainPartition (se_unmarshal env) (se_upsert env) (se_mid env) s (Some req) db))"

definition srv_PurgeBelowGeneration :: "'db sidecar_env \<Rightarrow> PurgeRequest \<Rightarrow> (PurgeResponse, 'db) call" where
  "srv_PurgeBelowGeneration env req w =
     (case w of (s, db) \<Rightarrow>
        (case Server_PurgeBelowGeneration (se_purge env) s (Some (pr_MinGeneration req)) db of
           (r, s, db) \<Rightarrow> Some (map_sum id (\<lambda>n. \<lparr>ps_Purged = n\<rparr>) r, s, db)))"

definition srv_Shutdown :: "'db sidecar_env \<Rightarrow> unit \<Rightarrow> (unit, 'db) call" where
  "srv_Shutdown env _ w =
     (case w of (s, db) \<Rightarrow>
        (case Shutdown (se_upsert env) (se_mid env) s db of
           (err, s, db) \<Rightarrow> Some (case err of None \<Rightarrow> Inr () | Some e \<Rightarrow> Inl e, s, db)))"

text \<open>A handler decodes its request, calls the method and returns the encoded reply.\<close>

type_synonym 'db handler = "byte list \<Rightarrow> 'db sidecar_host \<Rightarrow> ((rpc_error + byte list) \<times> 'db sidecar_host) option"

definition rpc_handler :: "(byte list \<Rightarrow> string + 'q) \<Rightarrow> ('q \<Rightarrow> ('a, 'db) call) \<Rightarrow> ('a \<Rightarrow> byte list) \<Rightarrow> 'db handler" where
  "rpc_handler dec method enc bytes w =
     (case dec bytes of
        Inl err \<Rightarrow> Some (Inl (RpcDecode err), w)
      | Inr req \<Rightarrow> map_option (\<lambda>(r, w). (map_sum RpcStatus enc r, w)) (method req w))"

definition notifyHandler :: "jsonCodec \<Rightarrow> 'db handler" where
  "notifyHandler js = rpc_handler (snd (js_notify js)) srv_Notify (fst (js_empty js))"

definition loadHandler :: "jsonCodec \<Rightarrow> 'db sidecar_env \<Rightarrow> 'db handler" where
  "loadHandler js env = rpc_handler (snd (js_load js)) (srv_LoadFromMySQL env) (fst (js_loaded js))"

definition drainHandler :: "jsonCodec \<Rightarrow> 'db sidecar_env \<Rightarrow> 'db handler" where
  "drainHandler js env = rpc_handler (snd (js_drain js)) (srv_DrainPartition env) (fst (js_empty js))"

definition purgeHandler :: "jsonCodec \<Rightarrow> 'db sidecar_env \<Rightarrow> 'db handler" where
  "purgeHandler js env = rpc_handler (snd (js_purge js)) (srv_PurgeBelowGeneration env) (fst (js_purged js))"

definition shutdownHandler :: "jsonCodec \<Rightarrow> 'db sidecar_env \<Rightarrow> 'db handler" where
  "shutdownHandler js env = rpc_handler (snd (js_empty js)) (srv_Shutdown env) (fst (js_empty js))"

definition ServiceName :: string where
  "ServiceName = ''sidecar.v1.OplogControl''"

definition full_method :: "string \<Rightarrow> string" where
  "full_method name = ''/'' @ ServiceName @ ''/'' @ name"

text \<open>The service description.\<close>

definition RegisterOplogControlServer :: "jsonCodec \<Rightarrow> 'db sidecar_env \<Rightarrow> (string \<times> 'db handler) list" where
  "RegisterOplogControlServer js env =
     [(''Notify'', notifyHandler js), (''LoadFromMySQL'', loadHandler js env),
      (''DrainPartition'', drainHandler js env), (''PurgeBelowGeneration'', purgeHandler js env),
      (''Shutdown'', shutdownHandler js env)]"

section \<open>The client side\<close>

text \<open>\<open>cc\<close> is the \<^verbatim>\<open>Invoke\<close> of the connection: method path and encoded request to encoded reply,
  on a state \<open>'w\<close> that holds the other side.\<close>

type_synonym 'w conn = "string \<Rightarrow> byte list \<Rightarrow> 'w \<Rightarrow> ((rpc_error + byte list) \<times> 'w) option"

definition invoke :: "'w conn \<Rightarrow> string \<Rightarrow> ('q \<Rightarrow> byte list) \<Rightarrow> (byte list \<Rightarrow> string + 'a) \<Rightarrow> 'q \<Rightarrow> 'w \<Rightarrow>
    ((rpc_error + 'a) \<times> 'w) option" where
  "invoke cc name enc dec req w =
     map_option (\<lambda>(r, w).
       (case r of Inl err \<Rightarrow> Inl err
        | Inr bytes \<Rightarrow> (case dec bytes of Inl err \<Rightarrow> Inl (RpcDecode err) | Inr out \<Rightarrow> Inr out), w))
       (cc (full_method name) (enc req) w)"

definition rpc_Notify :: "jsonCodec \<Rightarrow> 'w conn \<Rightarrow> NotifyRequest \<Rightarrow> 'w \<Rightarrow> ((rpc_error + unit) \<times> 'w) option" where
  "rpc_Notify js cc = invoke cc ''Notify'' (fst (js_notify js)) (snd (js_empty js))"

definition rpc_LoadFromMySQL :: "jsonCodec \<Rightarrow> 'w conn \<Rightarrow> LoadRequest \<Rightarrow> 'w \<Rightarrow> ((rpc_error + LoadResponse) \<times> 'w) option" where
  "rpc_LoadFromMySQL js cc = invoke cc ''LoadFromMySQL'' (fst (js_load js)) (snd (js_loaded js))"

definition rpc_DrainPartition :: "jsonCodec \<Rightarrow> 'w conn \<Rightarrow> DrainPartitionRequest \<Rightarrow> 'w \<Rightarrow> ((rpc_error + unit) \<times> 'w) option" where
  "rpc_DrainPartition js cc = invoke cc ''DrainPartition'' (fst (js_drain js)) (snd (js_empty js))"

definition rpc_PurgeBelowGeneration :: "jsonCodec \<Rightarrow> 'w conn \<Rightarrow> PurgeRequest \<Rightarrow> 'w \<Rightarrow>
    ((rpc_error + PurgeResponse) \<times> 'w) option" where
  "rpc_PurgeBelowGeneration js cc = invoke cc ''PurgeBelowGeneration'' (fst (js_purge js)) (snd (js_purged js))"

definition rpc_Shutdown :: "jsonCodec \<Rightarrow> 'w conn \<Rightarrow> unit \<Rightarrow> 'w \<Rightarrow> ((rpc_error + unit) \<times> 'w) option" where
  "rpc_Shutdown js cc = invoke cc ''Shutdown'' (fst (js_empty js)) (snd (js_empty js))"

text \<open>The wrapper of \<^verbatim>\<open>transport.go\<close>.\<close>

definition client_Notify :: "jsonCodec \<Rightarrow> 'w conn \<Rightarrow> u64 \<Rightarrow> 'w \<Rightarrow> (rpc_error option \<times> 'w) option" where
  "client_Notify js cc pending w =
     map_option (\<lambda>(r, w). (case r of Inl err \<Rightarrow> Some err | Inr _ \<Rightarrow> None, w))
       (rpc_Notify js cc \<lparr>nr_Pending = pending\<rparr> w)"

definition client_LoadFromMySQL :: "jsonCodec \<Rightarrow> 'w conn \<Rightarrow> LoadRequest \<Rightarrow> 'w \<Rightarrow> ((rpc_error + LoadResponse) \<times> 'w) option" where
  "client_LoadFromMySQL js cc req w = rpc_LoadFromMySQL js cc req w"

definition client_DrainPartition :: "jsonCodec \<Rightarrow> 'w conn \<Rightarrow> DrainPartitionRequest \<Rightarrow> 'w \<Rightarrow> (rpc_error option \<times> 'w) option" where
  "client_DrainPartition js cc req w =
     map_option (\<lambda>(r, w). (case r of Inl err \<Rightarrow> Some err | Inr _ \<Rightarrow> None, w)) (rpc_DrainPartition js cc req w)"

definition client_PurgeBelowGeneration :: "jsonCodec \<Rightarrow> 'w conn \<Rightarrow> int64 \<Rightarrow> 'w \<Rightarrow> ((rpc_error + nat) \<times> 'w) option" where
  "client_PurgeBelowGeneration js cc minGeneration w =
     map_option (\<lambda>(r, w). (case r of Inl err \<Rightarrow> Inl err | Inr resp \<Rightarrow> Inr (ps_Purged resp), w))
       (rpc_PurgeBelowGeneration js cc \<lparr>pr_MinGeneration = minGeneration\<rparr> w)"

definition client_Shutdown :: "jsonCodec \<Rightarrow> 'w conn \<Rightarrow> 'w \<Rightarrow> (rpc_error option \<times> 'w) option" where
  "client_Shutdown js cc w =
     map_option (\<lambda>(r, w). (case r of Inl err \<Rightarrow> Some err | Inr _ \<Rightarrow> None, w)) (rpc_Shutdown js cc () w)"

text \<open>\<^verbatim>\<open>Listen\<close> and \<^verbatim>\<open>Dial\<close> refuse the empty path; \<open>net\<close> and \<open>dial\<close> are what the network says.\<close>

definition rpc_Listen :: "(string \<Rightarrow> rpc_error + 'l) \<Rightarrow> string \<Rightarrow> rpc_error + 'l" where
  "rpc_Listen net socketPath =
     (if socketPath = '''' then Inl (RpcTransport ''socket path is empty'') else net socketPath)"

definition Dial :: "(string \<Rightarrow> rpc_error + 'w conn) \<Rightarrow> string \<Rightarrow> rpc_error + 'w conn" where
  "Dial dial socketPath =
     (if socketPath = '''' then Inl (RpcTransport ''socket path is empty'') else dial (''unix:'' @ socketPath))"

section \<open>A remote call is the local call\<close>

text \<open>The codec reads back this message as it wrote it.  \<^verbatim>\<open>encoding/json\<close> does so for messages whose
  strings are valid UTF-8.\<close>

definition reads_back :: "('m \<Rightarrow> byte list) \<times> (byte list \<Rightarrow> string + 'm) \<Rightarrow> 'm \<Rightarrow> bool" where
  "reads_back c x \<longleftrightarrow> snd c (fst c x) = Inr x"

text \<open>The codec carries a call of \<open>method\<close>: the request and whatever the method replies.\<close>

definition carries :: "('q \<Rightarrow> byte list) \<times> (byte list \<Rightarrow> string + 'q) \<Rightarrow> ('a \<Rightarrow> byte list) \<times> (byte list \<Rightarrow> string + 'a) \<Rightarrow>
    ('q \<Rightarrow> ('a, 'db) call) \<Rightarrow> 'q \<Rightarrow> 'db sidecar_host \<Rightarrow> bool" where
  "carries q a method req w \<longleftrightarrow> reads_back q req \<and> (\<forall>r w'. method req w = Some (Inr r, w') \<longrightarrow> reads_back a r)"

text \<open>The connection hands a call to the handler registered under the last part of its path.\<close>

definition served :: "(string \<times> 'db handler) list \<Rightarrow> 'db sidecar_host conn" where
  "served hs path bytes w =
     (case find (\<lambda>(name, _). full_method name = path) hs of
        None \<Rightarrow> Some (Inl (RpcUnimplemented path), w)
      | Some (_, h) \<Rightarrow> h bytes w)"

lemma full_method_inj [simp]: "full_method a = full_method b \<longleftrightarrow> a = b"
  by (simp add: full_method_def)

lemma served_registered:
  "served (RegisterOplogControlServer js env) (full_method ''Notify'') = notifyHandler js"
  "served (RegisterOplogControlServer js env) (full_method ''LoadFromMySQL'') = loadHandler js env"
  "served (RegisterOplogControlServer js env) (full_method ''DrainPartition'') = drainHandler js env"
  "served (RegisterOplogControlServer js env) (full_method ''PurgeBelowGeneration'') = purgeHandler js env"
  "served (RegisterOplogControlServer js env) (full_method ''Shutdown'') = shutdownHandler js env"
  by (simp_all add: fun_eq_iff served_def RegisterOplogControlServer_def)

text \<open>A connection may fail instead, before or after the other side did its work.\<close>

definition connects :: "'db sidecar_host conn \<Rightarrow> (string \<times> 'db handler) list \<Rightarrow> bool" where
  "connects cc hs \<longleftrightarrow> (\<forall>path bytes w. cc path bytes w = served hs path bytes w \<or>
     (\<exists>msg w'. cc path bytes w = Some (Inl (RpcTransport msg), w') \<and>
        (w' = w \<or> (\<exists>r. served hs path bytes w = Some (r, w')))))"

text \<open>\<open>delivered conv lost local actual w\<close>: the call from \<open>w\<close> either is the local call, its result
  seen through \<open>conv\<close>, or reports a failed connection and has run on the other side at most once.\<close>

definition delivered :: "('a \<Rightarrow> 'r) \<Rightarrow> (rpc_error \<Rightarrow> 'r) \<Rightarrow> ('a \<times> 'w) option \<Rightarrow> ('r \<times> 'w) option \<Rightarrow> 'w \<Rightarrow> bool" where
  "delivered conv lost local actual w \<longleftrightarrow> actual = map_option (map_prod conv id) local \<or>
     (\<exists>msg w'. actual = Some (lost (RpcTransport msg), w') \<and> (w' = w \<or> (\<exists>r. local = Some (r, w'))))"

definition status :: "sidecar_error + 'a \<Rightarrow> rpc_error option" where
  "status r = (case r of Inl e \<Rightarrow> Some (RpcStatus e) | Inr _ \<Rightarrow> None)"

lemma delivered_map:
  assumes "delivered conv lost local actual w" "\<And>r. f (conv r) = conv' r" "\<And>e. f (lost e) = lost' e"
  shows "delivered conv' lost' local (map_option (\<lambda>(r, w). (f r, w)) actual) w"
  using assms(1) by (auto simp: delivered_def option.map_comp map_prod_def comp_def case_prod_unfold assms(2,3))

lemma rpc_handler_result:
  assumes "reads_back q req"
  shows "rpc_handler (snd q) method enc (fst q req) w = map_option (\<lambda>(r, w). (map_sum RpcStatus enc r, w)) (method req w)"
  using assms by (simp add: rpc_handler_def reads_back_def)

lemma invoke_handler:
  assumes cc: "connects cc hs" and h: "served hs (full_method name) = rpc_handler (snd q) method (fst a)"
    and ok: "carries q a method req w"
  shows "delivered (map_sum RpcStatus id) Inl (method req w) (invoke cc name (fst q) (snd a) req w) w"
proof -
  from ok have q: "reads_back q req" and a: "\<And>r w'. method req w = Some (Inr r, w') \<Longrightarrow> snd a (fst a r) = Inr r"
    by (auto simp: carries_def reads_back_def)
  note r = rpc_handler_result [OF q, of "method" "fst a" w]
  from cc have "cc (full_method name) (fst q req) w = served hs (full_method name) (fst q req) w \<or>
     (\<exists>msg w'. cc (full_method name) (fst q req) w = Some (Inl (RpcTransport msg), w') \<and>
        (w' = w \<or> (\<exists>r. served hs (full_method name) (fst q req) w = Some (r, w'))))"
    unfolding connects_def by blast
  then show ?thesis
  proof
    assume "cc (full_method name) (fst q req) w = served hs (full_method name) (fst q req) w"
    then have "invoke cc name (fst q) (snd a) req w = map_option (map_prod (map_sum RpcStatus id) id) (method req w)"
      using a by (cases "method req w") (auto simp: invoke_def h r map_sum_def split: sum.split)
    then show ?thesis by (simp add: delivered_def)
  next
    assume "\<exists>msg w'. cc (full_method name) (fst q req) w = Some (Inl (RpcTransport msg), w') \<and>
        (w' = w \<or> (\<exists>r. served hs (full_method name) (fst q req) w = Some (r, w')))"
    then show ?thesis by (auto simp: invoke_def h r delivered_def)
  qed
qed

lemma invoke_status:
  assumes "delivered (map_sum RpcStatus id) Inl local actual w"
  shows "delivered status Some local (map_option (\<lambda>(r, w). (case r of Inl err \<Rightarrow> Some err | Inr _ \<Rightarrow> None, w)) actual) w"
  by (rule delivered_map [OF assms]) (auto simp: status_def map_sum_def split: sum.split)

lemma invoke_purged:
  assumes "delivered (map_sum RpcStatus id) Inl local actual w"
  shows "delivered (map_sum RpcStatus ps_Purged) Inl local
    (map_option (\<lambda>(r, w). (case r of Inl err \<Rightarrow> Inl err | Inr resp \<Rightarrow> Inr (ps_Purged resp), w)) actual) w"
  by (rule delivered_map [OF assms]) (auto simp: map_sum_def split: sum.split)

lemma client_Notify_delivered:
  assumes "connects cc (RegisterOplogControlServer js env)"
    and "carries (js_notify js) (js_empty js) srv_Notify \<lparr>nr_Pending = n\<rparr> w"
  shows "delivered status Some (srv_Notify \<lparr>nr_Pending = n\<rparr> w) (client_Notify js cc n w) w"
  unfolding client_Notify_def rpc_Notify_def
  by (rule invoke_status, rule invoke_handler [OF assms(1) _ assms(2)]) (simp add: served_registered notifyHandler_def)

lemma client_Load_delivered:
  assumes "connects cc (RegisterOplogControlServer js env)"
    and "carries (js_load js) (js_loaded js) (srv_LoadFromMySQL env) req w"
  shows "delivered (map_sum RpcStatus id) Inl (srv_LoadFromMySQL env req w) (client_LoadFromMySQL js cc req w) w"
  unfolding client_LoadFromMySQL_def rpc_LoadFromMySQL_def
  by (rule invoke_handler [OF assms(1) _ assms(2)]) (simp add: served_registered loadHandler_def)

lemma client_Drain_delivered:
  assumes "connects cc (RegisterOplogControlServer js env)"
    and "carries (js_drain js) (js_empty js) (srv_DrainPartition env) req w"
  shows "delivered status Some (srv_DrainPartition env req w) (client_DrainPartition js cc req w) w"
  unfolding client_DrainPartition_def rpc_DrainPartition_def
  by (rule invoke_status, rule invoke_handler [OF assms(1) _ assms(2)]) (simp add: served_registered drainHandler_def)

lemma client_Purge_delivered:
  assumes "connects cc (RegisterOplogControlServer js env)"
    and "carries (js_purge js) (js_purged js) (srv_PurgeBelowGeneration env) \<lparr>pr_MinGeneration = g\<rparr> w"
  shows "delivered (map_sum RpcStatus ps_Purged) Inl (srv_PurgeBelowGeneration env \<lparr>pr_MinGeneration = g\<rparr> w)
    (client_PurgeBelowGeneration js cc g w) w"
  unfolding client_PurgeBelowGeneration_def rpc_PurgeBelowGeneration_def
  by (rule invoke_purged, rule invoke_handler [OF assms(1) _ assms(2)]) (simp add: served_registered purgeHandler_def)

lemma client_Shutdown_delivered:
  assumes "connects cc (RegisterOplogControlServer js env)"
    and "carries (js_empty js) (js_empty js) (srv_Shutdown env) () w"
  shows "delivered status Some (srv_Shutdown env () w) (client_Shutdown js cc w) w"
  unfolding client_Shutdown_def rpc_Shutdown_def
  by (rule invoke_status, rule invoke_handler [OF assms(1) _ assms(2)]) (simp add: served_registered shutdownHandler_def)

text \<open>C37. A control call over the socket is the server's own method, run at most once.  When the
  connection delivers to the registered handlers, and the codec reads back the messages of the
  calls, each of the five calls of the client returns what the method returns on the other side,
  with the method's error as a status, and leaves that side as the method leaves it; or it reports a
  failed connection, and the other side is untouched or as the method left it.  In particular the
  names the client invokes are the ones the server registers.\<close>

theorem remote_call_is_local_call:
  assumes "connects cc (RegisterOplogControlServer js env)"
    and "carries (js_notify js) (js_empty js) srv_Notify \<lparr>nr_Pending = n\<rparr> w"
    and "carries (js_load js) (js_loaded js) (srv_LoadFromMySQL env) lreq w"
    and "carries (js_drain js) (js_empty js) (srv_DrainPartition env) dreq w"
    and "carries (js_purge js) (js_purged js) (srv_PurgeBelowGeneration env) \<lparr>pr_MinGeneration = g\<rparr> w"
    and "carries (js_empty js) (js_empty js) (srv_Shutdown env) () w"
  shows "delivered status Some (srv_Notify \<lparr>nr_Pending = n\<rparr> w) (client_Notify js cc n w) w \<and>
    delivered (map_sum RpcStatus id) Inl (srv_LoadFromMySQL env lreq w) (client_LoadFromMySQL js cc lreq w) w \<and>
    delivered status Some (srv_DrainPartition env dreq w) (client_DrainPartition js cc dreq w) w \<and>
    delivered (map_sum RpcStatus ps_Purged) Inl (srv_PurgeBelowGeneration env \<lparr>pr_MinGeneration = g\<rparr> w)
      (client_PurgeBelowGeneration js cc g w) w \<and>
    delivered status Some (srv_Shutdown env () w) (client_Shutdown js cc w) w"
  using client_Notify_delivered [OF assms(1,2)] client_Load_delivered [OF assms(1,3)]
    client_Drain_delivered [OF assms(1,4)] client_Purge_delivered [OF assms(1,5)]
    client_Shutdown_delivered [OF assms(1,6)]
  by blast

text \<open>A codec with one message of each type, and a database that holds nothing.\<close>

definition one_codec :: jsonCodec where
  "one_codec = \<lparr>js_notify = (\<lambda>_. [], \<lambda>_. Inr \<lparr>nr_Pending = 1\<rparr>),
     js_load = (\<lambda>_. [], \<lambda>_. Inr \<lparr>lq_DMap = ''d'', lq_Key = ''k'', lq_HKey = 3\<rparr>),
     js_drain = (\<lambda>_. [], \<lambda>_. Inr \<lparr>dr_DMap = ''d'', dr_PartitionID = 0, dr_PartitionCount = 0\<rparr>),
     js_purge = (\<lambda>_. [], \<lambda>_. Inr \<lparr>pr_MinGeneration = 2\<rparr>), js_empty = (\<lambda>_. [], \<lambda>_. Inr ()),
     js_loaded = (\<lambda>_. [], \<lambda>_. Inr \<lparr>lr_Found = False, lr_Record = None\<rparr>),
     js_purged = (\<lambda>_. [], \<lambda>_. Inr \<lparr>ps_Purged = 0\<rparr>)\<rparr>"

definition void_env :: "unit sidecar_env" where
  "void_env = \<lparr>se_unmarshal = demo_unmarshal, se_upsert = (\<lambda>db _. (None, db)),
     se_load = (\<lambda>_ _. Inl backend_error.ErrNotFound), se_purge = (\<lambda>db _. (Inr 0, db)), se_mid = id, se_now = 0\<rparr>"

theorem remote_call_is_local_call_witness:
  "client_PurgeBelowGeneration one_codec (served (RegisterOplogControlServer one_codec void_env)) 2 (demo_server demo_ring, ()) =
     Some (Inr 0, demo_server demo_ring, ()) \<and>
   delivered (map_sum RpcStatus ps_Purged) Inl
     (srv_PurgeBelowGeneration void_env \<lparr>pr_MinGeneration = 2\<rparr> (demo_server demo_ring, ()))
     (client_PurgeBelowGeneration one_codec (served (RegisterOplogControlServer one_codec void_env)) 2
       (demo_server demo_ring, ())) (demo_server demo_ring, ())"
proof -
  let ?w = "(demo_server demo_ring, ())" and ?hs = "RegisterOplogControlServer one_codec void_env"
  have c: "connects (served ?hs) ?hs" by (simp add: connects_def)

  have d: "carries (js_notify one_codec) (js_empty one_codec) srv_Notify \<lparr>nr_Pending = 1\<rparr> ?w"
    "carries (js_load one_codec) (js_loaded one_codec) (srv_LoadFromMySQL void_env) \<lparr>lq_DMap = ''d'', lq_Key = ''k'', lq_HKey = 3\<rparr> ?w"
    "carries (js_drain one_codec) (js_empty one_codec) (srv_DrainPartition void_env)
       \<lparr>dr_DMap = ''d'', dr_PartitionID = 0, dr_PartitionCount = 0\<rparr> ?w"
    "carries (js_purge one_codec) (js_purged one_codec) (srv_PurgeBelowGeneration void_env) \<lparr>pr_MinGeneration = 2\<rparr> ?w"
    "carries (js_empty one_codec) (js_empty one_codec) (srv_Shutdown void_env) () ?w"
    by (auto simp: carries_def reads_back_def one_codec_def void_env_def srv_LoadFromMySQL_def
        Server_LoadFromMySQL_def demo_server_def newPending_def pending_get_def srv_PurgeBelowGeneration_def
        Server_PurgeBelowGeneration_def purgeBelow_def)
  have "client_PurgeBelowGeneration one_codec (served ?hs) 2 ?w = Some (Inr 0, ?w)"
    by (simp add: client_PurgeBelowGeneration_def rpc_PurgeBelowGeneration_def invoke_def served_registered
        purgeHandler_def rpc_handler_def one_codec_def void_env_def srv_PurgeBelowGeneration_def
        Server_PurgeBelowGeneration_def purgeBelow_def demo_server_def newPending_def)
  with remote_call_is_local_call [OF c d] show ?thesis by blast
qed

end
