(* ===== verification/Node_Main.thy ===== *)
theory Node_Main
  imports Durable_Hook Sidecar_Rpc Resp_Server
begin

text \<open>
  The process of a node (\<^verbatim>\<open>cmd/olric-node/main.go\<close>): its configuration from the environment, the
  adapters to the sidecar, the wait for the shared files, the joiner that follows topology pushes
  (it purges the sidecar below a new generation and joins the peers) and the loop that renews the
  subscription.  The results: the peers of an envelope are exactly the addresses of the other
  members, the lease never goes back over any number of reconnections, and the wait for a file ends.
\<close>

section \<open>The environment\<close>

definition node_envInt :: "environ \<Rightarrow> string \<Rightarrow> int \<Rightarrow> int" where
  "node_envInt env name fallback =
     (let value = env name in
      if value = '''' then fallback
      else case ParseInt value of
        None \<Rightarrow> fallback
      | Some parsed \<Rightarrow> if parsed \<le> 0 then fallback else parsed)"

text \<open>\<^verbatim>\<open>time.ParseDuration\<close> is the argument \<open>ParseDuration\<close>: fractions of a unit are computed in
  floating point.\<close>

definition node_envDuration :: "(string \<Rightarrow> duration option) \<Rightarrow> environ \<Rightarrow> string \<Rightarrow> duration \<Rightarrow> duration" where
  "node_envDuration ParseDuration env name fallback =
     (let value = env name in
      if value = '''' then fallback
      else case ParseDuration value of
        None \<Rightarrow> fallback
      | Some parsed \<Rightarrow> if parsed \<le> 0 then fallback else parsed)"

definition node_envString :: "environ \<Rightarrow> string \<Rightarrow> string \<Rightarrow> string" where
  "node_envString env name fallback = (let value = env name in if value = '''' then fallback else value)"

definition envCSV :: "(string \<Rightarrow> string) \<Rightarrow> environ \<Rightarrow> string \<Rightarrow> string list" where
  "envCSV unicode env name =
     (let value = env name in
      if value = '''' then []
      else filter (\<lambda>part. part \<noteq> '''') (map (TrimSpace unicode) (split_comma value)))"

definition envInt64 :: "environ \<Rightarrow> string \<Rightarrow> int64 \<Rightarrow> int64" where
  "envInt64 env name fallback =
     (let value = env name in
      if value = '''' then fallback
      else case ParseInt value of
        None \<Rightarrow> fallback
      | Some parsed \<Rightarrow> if parsed \<le> 0 then fallback else parsed)"

text \<open>\<open>buf\<close> are the eight random bytes.\<close>

definition newWriterID :: "environ \<Rightarrow> byte list \<Rightarrow> string" where
  "newWriterID env buf =
     (let prefix = node_envString env ''NODE_ID'' (env ''POD_NAME'');
          prefix = (if prefix = '''' then ''node'' else prefix)
      in prefix @ ''-'' @ EncodeToString buf)"

definition i32 :: "int \<Rightarrow> int" where
  "i32 x = signed_take_bit 31 x"

text \<open>The fields \<^verbatim>\<open>startOlric\<close> sets in the configuration of Olric.\<close>

record OlricConfig =
  oc_Env :: string
  oc_BindAddr :: string
  oc_BindPort :: int
  oc_MemberlistBindAddr :: string
  oc_MemberlistBindPort :: int
  oc_AdvertiseAddr :: string
  oc_AdvertisePort :: int
  oc_Peers :: "string list"
  oc_ReplicaCount :: int
  oc_WriteQuorum :: int
  oc_ReadQuorum :: int
  oc_MemberCountQuorum :: int
  oc_LogLevel :: string
  oc_LogVerbosity :: int
  oc_DurableHook :: bool

definition olric_config :: "(string \<Rightarrow> string) \<Rightarrow> environ \<Rightarrow> bool \<Rightarrow> OlricConfig" where
  "olric_config unicode env durableHook =
     (let bindAddr = node_envString env ''OLRIC_BIND_ADDR'' ''0.0.0.0'';
          mlPort = node_envInt env ''OLRIC_MEMBERLIST_BIND_PORT'' 3322
      in \<lparr>oc_Env = node_envString env ''OLRIC_MEMBERLIST_ENV'' ''lan'', oc_BindAddr = bindAddr,
          oc_BindPort = node_envInt env ''OLRIC_BIND_PORT'' 3320,
          oc_MemberlistBindAddr = node_envString env ''OLRIC_MEMBERLIST_BIND_ADDR'' bindAddr,
          oc_MemberlistBindPort = mlPort,
          oc_AdvertiseAddr = node_envString env ''OLRIC_ADVERTISE_ADDR'' (env ''POD_IP''),
          oc_AdvertisePort = node_envInt env ''OLRIC_ADVERTISE_PORT'' mlPort,
          oc_Peers = envCSV unicode env ''OLRIC_PEERS'',
          oc_ReplicaCount = node_envInt env ''OLRIC_REPLICA_COUNT'' 1,
          oc_WriteQuorum = node_envInt env ''OLRIC_WRITE_QUORUM'' 1,
          oc_ReadQuorum = node_envInt env ''OLRIC_READ_QUORUM'' 1,
          oc_MemberCountQuorum = i32 (node_envInt env ''OLRIC_MEMBER_COUNT_QUORUM'' 1),
          oc_LogLevel = node_envString env ''OLRIC_LOG_LEVEL'' ''WARN'',
          oc_LogVerbosity = i32 (node_envInt env ''OLRIC_LOG_VERBOSITY'' 3),
          oc_DurableHook = durableHook\<rparr>)"

text \<open>What \<^verbatim>\<open>startOlric\<close> meets first after \<^verbatim>\<open>olric.New\<close>: the started callback, the end of \<^verbatim>\<open>Start\<close> or
  the end of the context, after which it shuts the new instance down.\<close>

datatype start_event = OlricStarted | StartReturned string | StartCancelled string

definition startOlric :: "(OlricConfig \<Rightarrow> string + 'o) \<Rightarrow> ('o \<Rightarrow> 'o) \<Rightarrow> OlricConfig \<Rightarrow> start_event \<Rightarrow> string + 'o" where
  "startOlric new shutdown cfg ev =
     (case new cfg of
        Inl err \<Rightarrow> Inl err
      | Inr db \<Rightarrow>
          (case ev of OlricStarted \<Rightarrow> Inr db
           | StartReturned err \<Rightarrow> Inl err
           | StartCancelled err \<Rightarrow> (let _ = shutdown db in Inl err)))"

section \<open>Waiting for the shared files\<close>

datatype wait_error = ErrFileMissing string | ErrWaitCancelled

text \<open>Round \<open>k\<close> of the loop: whether the file is there, the clock, and whether the context is done
  before the pause ends.\<close>

record wait_env =
  we_stat :: "nat \<Rightarrow> bool"
  we_now :: "nat \<Rightarrow> time"
  we_done :: "nat \<Rightarrow> bool"

partial_function (option) wait_loop :: "wait_env \<Rightarrow> string \<Rightarrow> time \<Rightarrow> nat \<Rightarrow> wait_error option option" where
  "wait_loop env path deadline k =
     (if we_stat env k then Some None
      else if we_now env k > deadline then Some (Some (ErrFileMissing path))
      else if we_done env k then Some (Some ErrWaitCancelled)
      else wait_loop env path deadline (Suc k))"

definition waitForFile :: "wait_env \<Rightarrow> string \<Rightarrow> time \<Rightarrow> duration \<Rightarrow> wait_error option option" where
  "waitForFile env path now timeout = wait_loop env path (now + timeout) 0"

section \<open>The adapters to the sidecar\<close>

definition zero_record :: EntryRecord where
  "zero_record = \<lparr>er_DMap = '''', er_Key = '''', er_HKey = 0, er_EncodedEntry = [], er_TTL = 0,
     er_Timestamp = 0, er_Tombstone = False, er_Generation = 0, er_Epoch = 0, er_OwnerSeq = 0,
     er_WriterID = '''', er_UpdatedAt = zero_time\<rparr>"

definition control_Notify :: "jsonCodec \<Rightarrow> 'w conn \<Rightarrow> u64 \<Rightarrow> 'w \<Rightarrow> (rpc_error option \<times> 'w) option" where
  "control_Notify js cc pending w = client_Notify js cc pending w"

definition control_LoadFromMySQL :: "jsonCodec \<Rightarrow> 'w conn \<Rightarrow> string \<Rightarrow> string \<Rightarrow> u64 \<Rightarrow> 'w \<Rightarrow>
    ((rpc_error + EntryRecord \<times> bool) \<times> 'w) option" where
  "control_LoadFromMySQL js cc dmap key hkey w =
     map_option (\<lambda>(r, w).
       (case r of
          Inl err \<Rightarrow> Inl err
        | Inr resp \<Rightarrow>
            if \<not> lr_Found resp then Inr (zero_record, False)
            else Inr (case lr_Record resp of None \<Rightarrow> zero_record | Some rec \<Rightarrow> rec, True), w))
       (client_LoadFromMySQL js cc \<lparr>lq_DMap = dmap, lq_Key = key, lq_HKey = hkey\<rparr> w)"

definition control_DrainPartition :: "jsonCodec \<Rightarrow> 'w conn \<Rightarrow> string \<Rightarrow> u64 \<Rightarrow> u64 \<Rightarrow> 'w \<Rightarrow>
    (rpc_error option \<times> 'w) option" where
  "control_DrainPartition js cc dmap partitionID partitionCount w =
     client_DrainPartition js cc \<lparr>dr_DMap = dmap, dr_PartitionID = partitionID, dr_PartitionCount = partitionCount\<rparr> w"

definition sidecarPurger_Purge :: "jsonCodec \<Rightarrow> 'w conn \<Rightarrow> int64 \<Rightarrow> 'w \<Rightarrow> ((rpc_error + nat) \<times> 'w) option" where
  "sidecarPurger_Purge js cc minGeneration w = client_PurgeBelowGeneration js cc minGeneration w"

section \<open>Following the topology\<close>

text \<open>The loop of \<^verbatim>\<open>topologyPeers\<close> over the members, with the peers appended so far.  \<^verbatim>\<open>seen\<close> holds
  exactly them.\<close>

fun peers_loop :: "(string \<Rightarrow> string) \<Rightarrow> string \<Rightarrow> int \<Rightarrow> Member list \<Rightarrow> string list \<Rightarrow> string list" where
  "peers_loop unicode nodeID port [] peers = peers"
| "peers_loop unicode nodeID port (member # members) peers =
     (if mb_node_id member = '''' \<or> mb_node_id member = nodeID then peers_loop unicode nodeID port members peers
      else let podIP = TrimSpace unicode (mb_pod_ip member)
      in if podIP = '''' then peers_loop unicode nodeID port members peers
      else let peer = JoinHostPort podIP (FormatInt port)
      in if peer \<in> set peers then peers_loop unicode nodeID port members peers
      else peers_loop unicode nodeID port members (peers @ [peer]))"

definition topologyPeers :: "(string \<Rightarrow> string) \<Rightarrow> TopologyEnvelope \<Rightarrow> string \<Rightarrow> int \<Rightarrow> string list" where
  "topologyPeers unicode envelope nodeID port = peers_loop unicode nodeID port (env_members envelope) []"

record olricJoiner =
  oj_db :: bool
  oj_nodeID :: string
  oj_memberlistPort :: int
  oj_topologyTimeout :: duration
  oj_purger :: bool
  oj_lastPurgedGen :: int64

text \<open>\<open>purge\<close> is the purger's call and \<open>join\<close> the cluster's \<^verbatim>\<open>Join\<close>.  \<open>None\<close> is a purge that does not
  return.\<close>

definition Join :: "(string \<Rightarrow> string) \<Rightarrow> (int64 \<Rightarrow> 'w \<Rightarrow> (('e + nat) \<times> 'w) option) \<Rightarrow>
    (string list \<Rightarrow> string option) \<Rightarrow> olricJoiner \<Rightarrow> TopologyEnvelope \<Rightarrow> 'w \<Rightarrow> (string option \<times> olricJoiner \<times> 'w) option" where
  "Join unicode purge join j envelope w =
     Option.bind
       (if oj_purger j \<and> env_watchdog_generation envelope > oj_lastPurgedGen j
        then map_option (\<lambda>(r, w).
          (case r of Inl err \<Rightarrow> j | Inr purged \<Rightarrow> j\<lparr>oj_lastPurgedGen := env_watchdog_generation envelope\<rparr>, w))
          (purge (env_watchdog_generation envelope) w)
        else Some (j, w))
       (\<lambda>(j, w).
        let peers = topologyPeers unicode envelope (oj_nodeID j) (oj_memberlistPort j) in
        if length peers = 0 \<or> \<not> oj_db j then Some (None, j, w)
        else Some (join peers, j, w))"

text \<open>The subscription, as far as the environment allows one.\<close>

definition subscriber_config :: "(string \<Rightarrow> duration option) \<Rightarrow> environ \<Rightarrow> LeaseTracker \<Rightarrow> time \<Rightarrow> SubscriberConfig option" where
  "subscriber_config ParseDuration env lease now =
     (if env ''STACK_ID'' = '''' \<or> env ''WATCHDOG_SVC_NAME'' = '''' \<or> env ''POD_IP'' = '''' then None
      else Some \<lparr>sc_StackID = env ''STACK_ID'', sc_NodeID = node_envString env ''NODE_ID'' (env ''POD_NAME''),
        sc_PodName = env ''POD_NAME'', sc_PodIP = env ''POD_IP'',
        sc_Incarnation = envInt64 env ''NODE_INCARNATION'' (i64 now), sc_ProtocolVersion = ''v2'',
        sc_HeartbeatInterval = node_envDuration ParseDuration env ''HEARTBEAT_INTERVAL'' (10 * second),
        sc_Lease = Some lease\<rparr>)"

definition topology_joiner :: "(string \<Rightarrow> duration option) \<Rightarrow> environ \<Rightarrow> bool \<Rightarrow> bool \<Rightarrow> olricJoiner" where
  "topology_joiner ParseDuration env db control =
     \<lparr>oj_db = db, oj_nodeID = node_envString env ''NODE_ID'' (env ''POD_NAME''),
      oj_memberlistPort = node_envInt env ''OLRIC_MEMBERLIST_ADVERTISE_PORT''
        (node_envInt env ''OLRIC_ADVERTISE_PORT'' (node_envInt env ''OLRIC_MEMBERLIST_BIND_PORT'' 3322)),
      oj_topologyTimeout = node_envDuration ParseDuration env ''TOPOLOGY_JOIN_TIMEOUT'' (5 * second),
      oj_purger = control, oj_lastPurgedGen = 0\<rparr>"

text \<open>One connection to the watchdog: it may not come about; otherwise the subscriber runs on it.\<close>

record session =
  sn_dialErr :: "string option"
  sn_watchErr :: "string option"
  sn_sendErr :: "string option"
  sn_events :: "stream_event list"

definition subscribeOnce :: "Subscriber \<Rightarrow> session \<Rightarrow> Subscriber \<times> run_error option" where
  "subscribeOnce sub sn =
     (case sn_dialErr sn of
        Some err \<Rightarrow> (sub, Some (StreamError err))
      | None \<Rightarrow>
          (case Run sub (sn_watchErr sn) (sn_sendErr sn) (sn_events sn) of
             (s, err) \<Rightarrow> (sub\<lparr>sub_lease := ss_lease s\<rparr>, err)))"

text \<open>The loop of \<^verbatim>\<open>runTopologySubscription\<close>: session after session on the same tracker.\<close>

definition runTopologySubscription :: "Subscriber \<Rightarrow> session list \<Rightarrow> Subscriber" where
  "runTopologySubscription sub sessions = fold (\<lambda>sn sub. fst (subscribeOnce sub sn)) sessions sub"

text \<open>A received envelope with the joiner the node gives its subscriber: the joiner runs on the
  envelopes the lease accepted.\<close>

definition node_recv :: "(string \<Rightarrow> string) \<Rightarrow> (int64 \<Rightarrow> 'w \<Rightarrow> (('e + nat) \<times> 'w) option) \<Rightarrow> (string list \<Rightarrow> string option) \<Rightarrow>
    olricJoiner \<Rightarrow> subscriber_state \<Rightarrow> TopologyEnvelope \<Rightarrow> time \<Rightarrow> string option \<Rightarrow> 'w \<Rightarrow>
    ((subscriber_state \<times> run_error option) \<times> olricJoiner \<times> 'w) option" where
  "node_recv unicode purge join j s envelope now hbErr w =
     (case Apply (ss_lease s) envelope now of
        Inl _ \<Rightarrow> Some (recv_step s (RecvEnvelope envelope now None hbErr), j, w)
      | Inr _ \<Rightarrow> map_option (\<lambda>(joinErr, j, w). (recv_step s (RecvEnvelope envelope now joinErr hbErr), j, w))
          (Join unicode purge join j envelope w))"

section \<open>Start of the process\<close>

datatype node_boot_error =
    NodeWaitRing wait_error | NodeWaitSocket wait_error | NodeRing ring_error | NodeDial rpc_error
  | NodeHook new_hook_error | NodeOlric string | NodeKv kv_error

record ('w, 'o, 'd) booted_node =
  bn_control :: "'w conn"
  bn_hook :: DurableHook
  bn_db :: 'o
  bn_service :: "'d kv_Service"
  bn_resp :: RESPServerConfig

text \<open>The callback \<^verbatim>\<open>OnFatal\<close> of the hook: the lease afterwards, and that the process is told to stop.\<close>

definition OnFatal :: "LeaseTracker \<Rightarrow> LeaseTracker \<times> bool" where
  "OnFatal topologyLease = (Revoke topologyLease, True)"

definition resp_config :: "(string \<Rightarrow> duration option) \<Rightarrow> environ \<Rightarrow> RESPServerConfig" where
  "resp_config ParseDuration env =
     \<lparr>rc_Addr = JoinHostPort (node_envString env ''RESP_BIND_ADDR'' ''0.0.0.0'')
        (FormatInt (node_envInt env ''RESP_BIND_PORT'' 3321)),
      rc_DefaultDMap = node_envString env ''RESP_DEFAULT_DMAP'' DefaultDMap,
      rc_CommandTimeout = node_envDuration ParseDuration env ''RESP_COMMAND_TIMEOUT'' (5 * second),
      rc_ShutdownGrace = 0\<rparr>"

text \<open>\<^verbatim>\<open>main\<close> up to the running node.  \<open>content\<close> is the ring file when the node opens it, \<open>clock\<close> the time
  at the two waits; \<open>None\<close> is a wait that does not return.\<close>

definition node_boot :: "(string \<Rightarrow> string) \<Rightarrow> (string \<Rightarrow> duration option) \<Rightarrow> environ \<Rightarrow> wait_env \<Rightarrow> wait_env \<Rightarrow> (nat \<Rightarrow> time) \<Rightarrow>
    (nat \<Rightarrow> string option) \<Rightarrow> byte list \<Rightarrow> (string \<Rightarrow> rpc_error + 'w conn) \<Rightarrow> byte list \<Rightarrow>
    (OlricConfig \<Rightarrow> string + 'o) \<Rightarrow> ('o \<Rightarrow> 'o) \<Rightarrow> start_event \<Rightarrow> ('o \<Rightarrow> 'd OlricClient) \<Rightarrow>
    (node_boot_error + ('w, 'o, 'd) booted_node) option" where
  "node_boot unicode ParseDuration env ringWait socketWait clock map_file content dial buf new shutdown ev embedded =
     (let topologyLease = NewLeaseTracker;
          ringPath = node_envString env ''RING_PATH'' ''/var/lib/olricstack/shared/oplog.ring'';
          socketPath = node_envString env ''CONTROL_SOCKET'' ''/var/lib/olricstack/shared/oplog.sock''
      in Option.bind (waitForFile ringWait ringPath (clock 0) (30 * second)) (\<lambda>r.
         case r of Some err \<Rightarrow> Some (Inl (NodeWaitRing err)) | None \<Rightarrow>
         Option.bind (waitForFile socketWait socketPath (clock 1) (30 * second)) (\<lambda>r.
         case r of Some err \<Rightarrow> Some (Inl (NodeWaitSocket err)) | None \<Rightarrow> Some (
         and_then (map_sum NodeRing id (openMapping map_file content)) (\<lambda>producer.
         and_then (map_sum NodeDial id (Dial dial socketPath)) (\<lambda>control.
         and_then (map_sum NodeHook id (NewDurableHook (Some producer) True (Some topologyLease)
           (Some NewMemoryFenceSequencer) (newWriterID env buf)
           (node_envDuration ParseDuration env ''RING_APPEND_BUDGET'' (5 * second)) True)) (\<lambda>hook.
         and_then (map_sum NodeOlric id (startOlric new shutdown (olric_config unicode env True) ev)) (\<lambda>olricDB.
         and_then (map_sum NodeKv id (NewOlricProvider (Some (embedded olricDB)))) (\<lambda>provider.
         and_then (map_sum NodeKv id (NewService (Some provider) (Some topologyLease))) (\<lambda>stringService.
         Inr \<lparr>bn_control = control, bn_hook = hook, bn_db = olricDB, bn_service = stringService,
           bn_resp = resp_config ParseDuration env\<rparr>))))))))))"

section \<open>Lemmas\<close>

lemma newWriterID_inj:
  assumes "length a = length b" "newWriterID env a = newWriterID env b"
  shows "a = b"
  using assms by (auto simp: newWriterID_def Let_def intro: EncodeToString_inj split: if_splits)

text \<open>The wait ends as soon as the clock passes the deadline, at the latest.\<close>

lemma wait_loop_returns:
  assumes "k \<le> n" "deadline < we_now env n"
  shows "\<exists>r. wait_loop env path deadline k = Some r"
  using assms(1)
proof (induction k rule: inc_induct)
  case base
  with assms(2) show ?case by (simp add: wait_loop.simps)
next
  case (step m)
  then show ?case by (subst wait_loop.simps) auto
qed

lemma wait_loop_found:
  assumes "wait_loop env path deadline k = Some r"
  shows "r = None \<longrightarrow> (\<exists>n \<ge> k. we_stat env n)"
proof (rule wait_loop.raw_induct [where P = "\<lambda>env path deadline k r. r = None \<longrightarrow> (\<exists>n \<ge> k. we_stat env n)", OF _ assms], goal_cases)
  case (1 f env path deadline k r)
  show ?case
  proof (cases "we_stat env k \<or> we_now env k > deadline \<or> we_done env k")
    case False
    with 1 have "r = None \<longrightarrow> (\<exists>n \<ge> Suc k. we_stat env n)" by simp
    then show ?thesis by (auto dest: Suc_leD)
  qed (use 1 in \<open>auto split: if_splits\<close>)
qed

text \<open>A node starts on the ring it opened, with nothing issued and no lease: it serves nothing before
  its first envelope.\<close>

lemma node_boot_serves_nothing:
  assumes "node_boot unicode ParseDuration env ringWait socketWait clock map_file content dial buf new shutdown ev embedded =
      Some (Inr nd)" and "0 \<le> t"
  shows "openMapping map_file content = Inr (h_ring (bn_hook nd)) \<and>
    h_sequence (bn_hook nd) = NewMemoryFenceSequencer \<and> kv_lease (bn_service nd) = h_lease (bn_hook nd) \<and>
    \<not> ServingAllowed (h_lease (bn_hook nd)) t"
  using assms UnixMilli_nonneg [OF assms(2)]
  by (auto simp: node_boot_def Let_def bind_eq_Some_conv and_then_Inr_iff NewDurableHook_def NewService_def
      ServingAllowed_def NewLeaseTracker_def map_sum_def split: option.splits sum.splits if_splits)

lemma peers_loop_spec:
  "distinct peers \<Longrightarrow> distinct (peers_loop unicode nodeID port members peers) \<and>
   set (peers_loop unicode nodeID port members peers) = set peers \<union>
     {JoinHostPort (TrimSpace unicode (mb_pod_ip m)) (FormatInt port) | m. m \<in> set members \<and>
        mb_node_id m \<noteq> '''' \<and> mb_node_id m \<noteq> nodeID \<and> TrimSpace unicode (mb_pod_ip m) \<noteq> ''''}"
proof (induction members arbitrary: peers)
  case (Cons m ms)
  show ?case
  proof (cases "mb_node_id m = '''' \<or> mb_node_id m = nodeID \<or> TrimSpace unicode (mb_pod_ip m) = ''''")
    case True
    then have "peers_loop unicode nodeID port (m # ms) peers = peers_loop unicode nodeID port ms peers"
      by (auto simp: Let_def)
    with True Cons show ?thesis by auto
  next
    case False
    let ?p = "JoinHostPort (TrimSpace unicode (mb_pod_ip m)) (FormatInt port)"
    from False have "peers_loop unicode nodeID port (m # ms) peers =
        peers_loop unicode nodeID port ms (if ?p \<in> set peers then peers else peers @ [?p])"
      by (auto simp: Let_def)
    with False Cons.IH [of "if ?p \<in> set peers then peers else peers @ [?p]"] Cons.prems show ?thesis
      by (auto split: if_splits)
  qed
qed simp

text \<open>A joiner records a new generation only after the purge below it was answered without error.\<close>

lemma Join_purged:
  assumes "Join unicode purge join j envelope w = Some (err, j', w')"
    and "oj_lastPurgedGen j < env_watchdog_generation envelope"
    and "oj_lastPurgedGen j' = env_watchdog_generation envelope"
  shows "\<exists>n. purge (env_watchdog_generation envelope) w = Some (Inr n, w')"
proof (cases "oj_purger j")
  case False
  with assms show ?thesis by (auto simp: Join_def Let_def split: if_splits)
next
  case True
  with assms(1,2) obtain r where r: "purge (env_watchdog_generation envelope) w = Some (r, w')"
    by (cases "purge (env_watchdog_generation envelope) w") (auto simp: Join_def Let_def split: if_splits)
  show ?thesis
  proof (cases r)
    case (Inl e)
    with True r assms have "j' = j" by (auto simp: Join_def Let_def split: if_splits)
    with assms(2,3) show ?thesis by simp
  qed (use r in simp)
qed

lemma subscribeOnce_mono: "pair_le (lease_fence (sub_lease sub)) (lease_fence (sub_lease (fst (subscribeOnce sub sn))))"
  using Run_fence_mono [of sub "sn_watchErr sn" "sn_sendErr sn" "sn_events sn"]
  by (auto simp: subscribeOnce_def split: option.split prod.split)

lemma runTopologySubscription_mono:
  "pair_le (lease_fence (sub_lease sub)) (lease_fence (sub_lease (runTopologySubscription sub sessions)))"
proof (induction sessions arbitrary: sub)
  case (Cons sn sessions)
  from subscribeOnce_mono [of sub sn] Cons.IH [of "fst (subscribeOnce sub sn)"] show ?case
    by (auto simp: runTopologySubscription_def intro: pair_le_trans)
qed (simp add: runTopologySubscription_def)

end
