(* ===== verification/Sidecar_Main.thy ===== *)
theory Sidecar_Main
  imports Sidecar_Rpc Go_Strings
begin

text \<open>
  The process of a sidecar (\<^verbatim>\<open>cmd/olric-sidecar/main.go\<close>): its configuration from the environment,
  the opening of the ring it shares with the node, the server built on it, and how the process ends.
  A fresh pod starts on an empty well-formed ring.
\<close>

section \<open>The environment\<close>

definition sidecar_envInt :: "environ \<Rightarrow> string \<Rightarrow> int \<Rightarrow> int" where
  "sidecar_envInt env name fallback =
     (let value = env name in
      if value = '''' then fallback
      else case ParseInt value of
        None \<Rightarrow> fallback
      | Some parsed \<Rightarrow> if parsed \<le> 0 then fallback else parsed)"

definition envIntAllowZero :: "environ \<Rightarrow> string \<Rightarrow> int \<Rightarrow> int" where
  "envIntAllowZero env name fallback =
     (let value = env name in
      if value = '''' then fallback
      else case ParseInt value of
        None \<Rightarrow> fallback
      | Some parsed \<Rightarrow> if parsed < 0 then fallback else parsed)"

definition sidecar_envDuration :: "(string \<Rightarrow> duration option) \<Rightarrow> environ \<Rightarrow> string \<Rightarrow> duration \<Rightarrow> duration" where
  "sidecar_envDuration ParseDuration env name fallback =
     (let value = env name in
      if value = '''' then fallback
      else case ParseDuration value of
        None \<Rightarrow> fallback
      | Some parsed \<Rightarrow> if parsed \<le> 0 then fallback else parsed)"

definition sidecar_envString :: "(string \<Rightarrow> string) \<Rightarrow> environ \<Rightarrow> string \<Rightarrow> string \<Rightarrow> string" where
  "sidecar_envString unicode env name fallback =
     (let value = env name in if value = '''' then fallback else TrimSpace unicode value)"

section \<open>Start and end of the process\<close>

definition server_config :: "(string \<Rightarrow> duration option) \<Rightarrow> environ \<Rightarrow> sidecar_Config" where
  "server_config ParseDuration env =
     \<lparr>cfg_BatchSize = sidecar_envInt env ''CONSUMER_BATCH_SIZE'' 256,
      cfg_IdlePoll = sidecar_envDuration ParseDuration env ''CONSUMER_IDLE_POLL'' (200 * millisecond),
      cfg_FlushTimeout = sidecar_envDuration ParseDuration env ''CONSUMER_FLUSH_TIMEOUT'' (30 * second),
      cfg_MaxPendingRecords = envIntAllowZero env ''MAX_PENDING_RECORDS'' 0,
      cfg_MaxPendingBytes = word_of_int (envIntAllowZero env ''MAX_PENDING_BYTES'' 0)\<rparr>"

datatype stat_result = StatMissing | StatError string | StatFile "byte list"

text \<open>The ring is created when there is none, then opened; \<open>create\<close> and \<open>map_file\<close> are the failures of
  the operating system.\<close>

definition open_ring :: "(int \<Rightarrow> string option) \<Rightarrow> (nat \<Rightarrow> string option) \<Rightarrow> u64 \<Rightarrow> stat_result \<Rightarrow> ring_error + mapping" where
  "open_ring create map_file ringCapacity stat =
     and_then (case stat of
         StatMissing \<Rightarrow> Create create ringCapacity
       | StatError err \<Rightarrow> Inl (ErrOS err)
       | StatFile content \<Rightarrow> Inr content)
       (openMapping map_file)"

text \<open>\<open>gorm_open\<close> and \<open>new_backend\<close> are the calls of gorm.\<close>

definition buildBackend :: "(string \<Rightarrow> string + 'g) \<Rightarrow> ('g \<Rightarrow> int \<Rightarrow> string + 'b) \<Rightarrow> environ \<Rightarrow> string + 'b" where
  "buildBackend gorm_open new_backend env =
     (if env ''MYSQL_DSN'' = '''' then Inl ''MYSQL_DSN is required''
      else case gorm_open (env ''MYSQL_DSN'') of
        Inl err \<Rightarrow> Inl (''open mysql: '' @ err)
      | Inr db \<Rightarrow> new_backend db (sidecar_envInt env ''FLUSH_BATCH_SIZE'' 256))"

datatype boot_error = BootRing ring_error | BootBackend string | BootServer sidecar_error

definition boot :: "(string \<Rightarrow> duration option) \<Rightarrow> environ \<Rightarrow> (int \<Rightarrow> string option) \<Rightarrow> (nat \<Rightarrow> string option) \<Rightarrow> stat_result \<Rightarrow>
    (string \<Rightarrow> string + 'g) \<Rightarrow> ('g \<Rightarrow> int \<Rightarrow> string + 'b) \<Rightarrow> boot_error + Server \<times> 'b" where
  "boot ParseDuration env create map_file stat gorm_open new_backend =
     and_then (map_sum BootRing id (open_ring create map_file
         (word_of_int (sidecar_envInt env ''RING_CAPACITY_BYTES'' (16 * 1024 * 1024))) stat)) (\<lambda>consumer.
     and_then (map_sum BootBackend id (buildBackend gorm_open new_backend env)) (\<lambda>backend.
     and_then (map_sum BootServer id (NewServer (Some consumer) True (server_config ParseDuration env))) (\<lambda>srv.
     Inr (srv, backend))))"

datatype main_event = ContextDone | ServeReturned "string option" | ConsumerReturned "run_result option"
datatype exit_status = ExitClean | ExitFatal

text \<open>The last \<^verbatim>\<open>select\<close> of \<^verbatim>\<open>main\<close>; when the context is done the server is stopped and both goroutines
  are waited for.  A cancelled consumer loop is a clean end.\<close>

definition main_exit :: "main_event \<Rightarrow> exit_status" where
  "main_exit ev =
     (case ev of
        ContextDone \<Rightarrow> ExitClean
      | ServeReturned err \<Rightarrow> (if err \<noteq> None then ExitFatal else ExitClean)
      | ConsumerReturned err \<Rightarrow>
          (case err of Some (RunFailed _) \<Rightarrow> ExitFatal | _ \<Rightarrow> ExitClean))"

section \<open>A fresh sidecar\<close>

text \<open>On a fresh volume, with a capacity the environment gives in range, the server starts on an
  empty well-formed ring with nothing pending.\<close>

lemma boot_fresh:
  assumes "boot ParseDuration env create map_file StatMissing gorm_open new_backend = Inr (srv, b)"
    and "sidecar_envInt env ''RING_CAPACITY_BYTES'' (16 * 1024 * 1024) < 2 ^ 62"
  shows "ring_inv (s_consumer srv) [] \<and> s_pending srv = newPending"
proof -
  let ?cap = "word_of_int (sidecar_envInt env ''RING_CAPACITY_BYTES'' (16 * 1024 * 1024)) :: u64"
  have pos: "0 < sidecar_envInt env ''RING_CAPACITY_BYTES'' (16 * 1024 * 1024)"
    by (auto simp: sidecar_envInt_def Let_def split: option.split)
  then have "unat ?cap < 2 ^ 62"
    using assms(2) by (simp add: unsigned_of_int take_bit_int_eq_self nat_less_iff)
  moreover from assms(1) obtain m where m: "open_ring create map_file ?cap StatMissing = Inr m"
    and srv: "NewServer (Some m) True (server_config ParseDuration env) = Inr srv"
    by (auto simp: boot_def and_then_Inr_iff map_sum_def split: sum.splits)
  moreover from m obtain content where "Create create ?cap = Inr content" "openMapping map_file content = Inr m"
    by (auto simp: open_ring_def and_then_Inr_iff)
  ultimately have "ring_inv m []"
    using Create_open [of create ?cap content map_file]
    by (auto simp: openMapping_def split: option.splits)
  with srv show ?thesis by (auto simp: NewServer_def Let_def)
qed

end
