(* ===== verification/Workloads.thy ===== *)
theory Workloads
  imports Go_Strconv
begin

text \<open>
  The objects the operator and the watchdog create for a stack (\<^verbatim>\<open>internal/workloads/workloads.go\<close>) and
  the stack resource itself (\<^verbatim>\<open>api/olric/v1alpha1/olricstack_types.go\<close>).  A Kubernetes object is the
  record of the fields the sources set or read.  The results: a service and a deployment select
  exactly the pods of their own stack and component.
\<close>

section \<open>Kubernetes objects\<close>

type_synonym labels = "(string \<times> string) list"

record ObjectMeta =
  om_Name :: string
  om_Namespace :: string
  om_Labels :: labels
  om_Annotations :: labels
  om_ResourceVersion :: string
  om_Controller :: "string option"

record ServicePort =
  sp_Name :: string
  sp_Port :: int
  sp_TargetPort :: int

record k8s_Service =
  svc_Meta :: ObjectMeta
  svc_Selector :: labels
  svc_Ports :: "ServicePort list"
  svc_ClusterIP :: string
  svc_ClusterIPs :: "string list"
  svc_IPFamilies :: "string list"
  svc_IPFamilyPolicy :: "string option"

text \<open>The value of a variable: given, a field of the pod, or a key of a secret.\<close>

datatype env_source = EnvValue string | EnvField string | EnvSecret "string \<times> string"

record Probe =
  pb_GRPCPort :: int
  pb_PeriodSeconds :: int
  pb_FailureThreshold :: int

record Container =
  ct_Name :: string
  ct_Image :: string
  ct_Resources :: labels
  ct_Ports :: "(string \<times> int) list"
  ct_ReadinessProbe :: "Probe option"
  ct_VolumeMounts :: "(string \<times> string) list"
  ct_Env :: "(string \<times> env_source) list"

text \<open>A volume of the pod: its name and, for an in-memory directory, its size limit.\<close>

record PodSpec =
  ps_ServiceAccountName :: string
  ps_Volumes :: "(string \<times> string) list"
  ps_Containers :: "Container list"

record Deployment =
  dp_Meta :: ObjectMeta
  dp_Replicas :: int
  dp_MaxUnavailable :: int
  dp_MaxSurge :: int
  dp_Selector :: labels
  dp_TemplateLabels :: labels
  dp_PodSpec :: PodSpec

record RoleBinding =
  rb_Meta :: ObjectMeta
  rb_RoleRef :: "string \<times> string \<times> string"
  rb_Subjects :: "(string \<times> string \<times> string) list"

datatype k8s_object =
    ObjService k8s_Service | ObjDeployment Deployment | ObjServiceAccount ObjectMeta | ObjRoleBinding RoleBinding

section \<open>The stack resource\<close>

record OlricStackSpec =
  spec_Replicas :: "int option"
  spec_WatchdogReplicas :: "int option"
  spec_Image :: string
  spec_SidecarImage :: string
  spec_WatchdogImage :: string
  spec_MySQLDSNSecret :: "string \<times> string"
  spec_Resources :: labels

record OlricStackStatus =
  stat_ReadyReplicas :: int
  stat_PodIPs :: "string list"
  stat_TopologyEpoch :: int

record OlricStack =
  st_Name :: string
  st_Namespace :: string
  st_Spec :: OlricStackSpec
  st_Status :: OlricStackStatus

section \<open>Names and labels\<close>

definition LabelStackID :: string where "LabelStackID = ''olric.io/stack-id''"
definition LabelComponent :: string where "LabelComponent = ''app.kubernetes.io/component''"
definition ComponentOlricNode :: string where "ComponentOlricNode = ''olric-node''"
definition ComponentOlricSidecar :: string where "ComponentOlricSidecar = ''olric-sidecar''"
definition ComponentWatchdog :: string where "ComponentWatchdog = ''watchdog''"
definition DefaultNodeImage :: string where "DefaultNodeImage = ''olricstack/olric-node:latest''"
definition DefaultSidecarImage :: string where "DefaultSidecarImage = ''olricstack/olric-sidecar:latest''"
definition DefaultWatchdogImage :: string where "DefaultWatchdogImage = ''olricstack/watchdog:latest''"
definition WatchdogPort :: int where "WatchdogPort = 8081"
definition OlricPort :: int where "OlricPort = 3320"
definition RESPPort :: int where "RESPPort = 3321"
definition MemberlistPort :: int where "MemberlistPort = 3322"
definition SharedVolumeName :: string where "SharedVolumeName = ''olric-shared''"
definition SharedMountPath :: string where "SharedMountPath = ''/var/lib/olricstack/shared''"
definition SharedMemoryLimit :: string where "SharedMemoryLimit = ''256Mi''"
definition WatchdogClusterRoleName :: string where "WatchdogClusterRoleName = ''olricstack-watchdog''"
definition AnnotationServiceScope :: string where "AnnotationServiceScope = ''olric.io/service-scope''"
definition ServiceScopeInternal :: string where "ServiceScopeInternal = ''internal-cluster-only''"

definition StackLabels :: "OlricStack \<Rightarrow> string \<Rightarrow> labels" where
  "StackLabels stack component =
     [(''app.kubernetes.io/name'', ''olricstack''), (''app.kubernetes.io/instance'', st_Name stack),
      (LabelStackID, st_Name stack), (LabelComponent, component)]"

definition WatchdogName :: "OlricStack \<Rightarrow> string" where
  "WatchdogName stack = st_Name stack @ ''-watchdog''"

definition OlricName :: "OlricStack \<Rightarrow> string" where
  "OlricName stack = st_Name stack @ ''-olric''"

definition WatchdogServiceAccountName :: "OlricStack \<Rightarrow> string" where
  "WatchdogServiceAccountName stack = WatchdogName stack"

definition valueOrDefault :: "string \<Rightarrow> string \<Rightarrow> string" where
  "valueOrDefault value fallback = (if value = '''' then fallback else value)"

definition new_meta :: "string \<Rightarrow> string \<Rightarrow> labels \<Rightarrow> ObjectMeta" where
  "new_meta name namespace labels = \<lparr>om_Name = name, om_Namespace = namespace, om_Labels = labels,
     om_Annotations = [], om_ResourceVersion = '''', om_Controller = None\<rparr>"

definition new_service :: "ObjectMeta \<Rightarrow> labels \<Rightarrow> string \<Rightarrow> int \<Rightarrow> k8s_Service" where
  "new_service meta selector name port = \<lparr>svc_Meta = meta, svc_Selector = selector,
     svc_Ports = [\<lparr>sp_Name = name, sp_Port = port, sp_TargetPort = port\<rparr>], svc_ClusterIP = '''',
     svc_ClusterIPs = [], svc_IPFamilies = [], svc_IPFamilyPolicy = None\<rparr>"

section \<open>The objects of a stack\<close>

definition WatchdogService :: "OlricStack \<Rightarrow> k8s_Service" where
  "WatchdogService stack =
     (let labels = StackLabels stack ComponentWatchdog
      in new_service (new_meta (WatchdogName stack) (st_Namespace stack) labels) labels ''grpc'' WatchdogPort)"

definition WatchdogDeployment :: "OlricStack \<Rightarrow> Deployment" where
  "WatchdogDeployment stack =
     (let labels = StackLabels stack ComponentWatchdog;
          replicas = (case spec_WatchdogReplicas (st_Spec stack) of None \<Rightarrow> 2 | Some n \<Rightarrow> n)
      in \<lparr>dp_Meta = new_meta (WatchdogName stack) (st_Namespace stack) labels,
          dp_Replicas = replicas, dp_MaxUnavailable = 1, dp_MaxSurge = 1, dp_Selector = labels,
          dp_TemplateLabels = labels,
          dp_PodSpec = \<lparr>ps_ServiceAccountName = WatchdogServiceAccountName stack, ps_Volumes = [],
            ps_Containers = [\<lparr>ct_Name = ''watchdog'',
              ct_Image = valueOrDefault (spec_WatchdogImage (st_Spec stack)) DefaultWatchdogImage,
              ct_Resources = [], ct_Ports = [(''grpc'', WatchdogPort)],
              ct_ReadinessProbe = Some \<lparr>pb_GRPCPort = WatchdogPort, pb_PeriodSeconds = 2, pb_FailureThreshold = 1\<rparr>,
              ct_VolumeMounts = [],
              ct_Env = [(''WATCHDOG_ADDR'', EnvValue ('':'' @ FormatInt WatchdogPort)),
                (''STACK_ID'', EnvValue (st_Name stack)), (''STACK_NAMESPACE'', EnvValue (st_Namespace stack)),
                (''SUSPECT_AFTER'', EnvValue ''20s''), (''EXPIRE_AFTER'', EnvValue ''30s''),
                (''REAP_INTERVAL'', EnvValue ''15s''), (''BOOKWORM_INTERVAL'', EnvValue ''10s''),
                (''TOPOLOGY_LEASE_TTL'', EnvValue ''30s''), (''WATCHDOG_ROLE'', EnvValue ''primary''),
                (''WATCHDOG_RECONCILE_INTERVAL'', EnvValue ''10s'')]\<rparr>]\<rparr>\<rparr>)"

definition WatchdogServiceAccount :: "OlricStack \<Rightarrow> ObjectMeta" where
  "WatchdogServiceAccount stack =
     new_meta (WatchdogServiceAccountName stack) (st_Namespace stack) (StackLabels stack ComponentWatchdog)"

definition WatchdogRoleBinding :: "OlricStack \<Rightarrow> RoleBinding" where
  "WatchdogRoleBinding stack =
     \<lparr>rb_Meta = new_meta (WatchdogServiceAccountName stack) (st_Namespace stack) (StackLabels stack ComponentWatchdog),
      rb_RoleRef = (''rbac.authorization.k8s.io'', ''ClusterRole'', WatchdogClusterRoleName),
      rb_Subjects = [(''ServiceAccount'', WatchdogServiceAccountName stack, st_Namespace stack)]\<rparr>"

definition OlricService :: "OlricStack \<Rightarrow> k8s_Service" where
  "OlricService stack =
     (let labels = StackLabels stack ComponentOlricNode
      in new_service ((new_meta (OlricName stack) (st_Namespace stack) labels)
           \<lparr>om_Annotations := [(AnnotationServiceScope, ServiceScopeInternal)]\<rparr>) labels ''resp'' RESPPort)"

text \<open>The two containers of \<^verbatim>\<open>OlricDeployment\<close>.\<close>

definition node_container :: "OlricStack \<Rightarrow> Container" where
  "node_container stack =
     \<lparr>ct_Name = ''olric-node'', ct_Image = valueOrDefault (spec_Image (st_Spec stack)) DefaultNodeImage,
      ct_Resources = spec_Resources (st_Spec stack),
      ct_Ports = [(''olric-internal'', OlricPort), (''resp'', RESPPort), (''memberlist'', MemberlistPort)],
      ct_ReadinessProbe = None, ct_VolumeMounts = [(SharedVolumeName, SharedMountPath)],
      ct_Env = [(''STACK_ID'', EnvValue (st_Name stack)),
        (''WATCHDOG_SVC_NAME'', EnvValue (WatchdogName stack @ ''.'' @ st_Namespace stack @ ''.svc.cluster.local:'' @ FormatInt WatchdogPort)),
        (''HEARTBEAT_INTERVAL'', EnvValue ''10s''), (''WATCHDOG_RECONNECT_INTERVAL'', EnvValue ''3s''),
        (''OLRIC_BIND_ADDR'', EnvValue ''0.0.0.0''), (''OLRIC_BIND_PORT'', EnvValue (FormatInt OlricPort)),
        (''RESP_BIND_ADDR'', EnvValue ''0.0.0.0''), (''RESP_BIND_PORT'', EnvValue (FormatInt RESPPort)),
        (''OLRIC_MEMBERLIST_BIND_ADDR'', EnvValue ''0.0.0.0''),
        (''OLRIC_MEMBERLIST_BIND_PORT'', EnvValue (FormatInt MemberlistPort)),
        (''OLRIC_MEMBERLIST_ENV'', EnvValue ''lan''),
        (''RING_PATH'', EnvValue (SharedMountPath @ ''/oplog.ring'')),
        (''CONTROL_SOCKET'', EnvValue (SharedMountPath @ ''/oplog.sock'')),
        (''POD_NAME'', EnvField ''metadata.name''), (''POD_IP'', EnvField ''status.podIP'')]\<rparr>"

definition sidecar_container :: "OlricStack \<Rightarrow> Container" where
  "sidecar_container stack =
     \<lparr>ct_Name = ''olric-sidecar'', ct_Image = valueOrDefault (spec_SidecarImage (st_Spec stack)) DefaultSidecarImage,
      ct_Resources = [], ct_Ports = [], ct_ReadinessProbe = None,
      ct_VolumeMounts = [(SharedVolumeName, SharedMountPath)],
      ct_Env = [(''STACK_ID'', EnvValue (st_Name stack)),
        (''MYSQL_DSN'', EnvSecret (spec_MySQLDSNSecret (st_Spec stack))),
        (''RING_PATH'', EnvValue (SharedMountPath @ ''/oplog.ring'')),
        (''CONTROL_SOCKET'', EnvValue (SharedMountPath @ ''/oplog.sock'')),
        (''RING_CAPACITY_BYTES'', EnvValue ''16777216''), (''POD_NAME'', EnvField ''metadata.name'')]\<rparr>"

definition OlricDeployment :: "OlricStack \<Rightarrow> Deployment" where
  "OlricDeployment stack =
     (let labels = StackLabels stack ComponentOlricNode;
          replicas = (case spec_Replicas (st_Spec stack) of None \<Rightarrow> 3 | Some n \<Rightarrow> n)
      in \<lparr>dp_Meta = new_meta (OlricName stack) (st_Namespace stack) labels,
          dp_Replicas = replicas, dp_MaxUnavailable = 1, dp_MaxSurge = 1, dp_Selector = labels,
          dp_TemplateLabels = labels,
          dp_PodSpec = \<lparr>ps_ServiceAccountName = '''', ps_Volumes = [(SharedVolumeName, SharedMemoryLimit)],
            ps_Containers = [node_container stack, sidecar_container stack]\<rparr>\<rparr>)"

section \<open>Selection\<close>

text \<open>A label selector matches the labels that agree with all of its requirements.\<close>

definition selects :: "labels \<Rightarrow> labels \<Rightarrow> bool" where
  "selects selector labels \<longleftrightarrow> (\<forall>(k, v) \<in> set selector. map_of labels k = Some v)"

lemma label_keys:
  "LabelStackID \<noteq> ''app.kubernetes.io/name''" "LabelStackID \<noteq> ''app.kubernetes.io/instance''"
  "LabelComponent \<noteq> LabelStackID" "LabelComponent \<noteq> ''app.kubernetes.io/name''"
  "LabelComponent \<noteq> ''app.kubernetes.io/instance''"
  by (simp_all add: LabelStackID_def LabelComponent_def)

lemma selects_StackLabels:
  "selects (StackLabels a c) (StackLabels b d) \<longleftrightarrow> st_Name a = st_Name b \<and> c = d"
  using label_keys by (auto simp: selects_def StackLabels_def)

end
