(* ===== verification/Stack_Controllers.thy ===== *)
theory Stack_Controllers
  imports Workloads Topology_Service
begin

text \<open>
  The two reconcilers: the operator's (\<^verbatim>\<open>internal/operator/reconciler.go\<close>), which creates the watchdog
  of a stack and reports its status, and the watchdog's own controller
  (\<^verbatim>\<open>internal/watchdog/controller.go\<close>), which creates the nodes and feeds the pods it sees to the
  topology service.  The Kubernetes client is an argument on the state of the API server, with its
  documented behaviour as \<open>quiet_api\<close>.  The result: a reconciliation that returns no error has left
  every object of the stack stored as desired, whatever was stored before, and no other object
  changed.
\<close>

section \<open>The client\<close>

datatype kind = KindService | KindDeployment | KindServiceAccount | KindRoleBinding

type_synonym object_key = "kind \<times> string \<times> string"

record Pod =
  pod_Name :: string
  pod_IP :: string
  pod_Phase :: string
  pod_Conditions :: "(string \<times> string) list"

record 'k obj_client =
  ob_GetStack :: "namespaced_name \<Rightarrow> 'k \<Rightarrow> (k8s_error + OlricStack) \<times> 'k"
  ob_Get :: "object_key \<Rightarrow> 'k \<Rightarrow> (k8s_error + k8s_object) \<times> 'k"
  ob_Create :: "k8s_object \<Rightarrow> 'k \<Rightarrow> k8s_error option \<times> 'k"
  ob_Update :: "k8s_object \<Rightarrow> 'k \<Rightarrow> k8s_error option \<times> 'k"
  ob_ListPods :: "string \<Rightarrow> labels \<Rightarrow> 'k \<Rightarrow> (k8s_error + Pod list) \<times> 'k"
  ob_UpdateStatus :: "OlricStack \<Rightarrow> 'k \<Rightarrow> k8s_error option \<times> 'k"

fun object_meta :: "k8s_object \<Rightarrow> ObjectMeta" where
  "object_meta (ObjService s) = svc_Meta s"
| "object_meta (ObjDeployment d) = dp_Meta d"
| "object_meta (ObjServiceAccount m) = m"
| "object_meta (ObjRoleBinding r) = rb_Meta r"

fun map_meta :: "(ObjectMeta \<Rightarrow> ObjectMeta) \<Rightarrow> k8s_object \<Rightarrow> k8s_object" where
  "map_meta f (ObjService s) = ObjService (s\<lparr>svc_Meta := f (svc_Meta s)\<rparr>)"
| "map_meta f (ObjDeployment d) = ObjDeployment (d\<lparr>dp_Meta := f (dp_Meta d)\<rparr>)"
| "map_meta f (ObjServiceAccount m) = ObjServiceAccount (f m)"
| "map_meta f (ObjRoleBinding r) = ObjRoleBinding (r\<lparr>rb_Meta := f (rb_Meta r)\<rparr>)"

fun object_kind :: "k8s_object \<Rightarrow> kind" where
  "object_kind (ObjService _) = KindService"
| "object_kind (ObjDeployment _) = KindDeployment"
| "object_kind (ObjServiceAccount _) = KindServiceAccount"
| "object_kind (ObjRoleBinding _) = KindRoleBinding"

definition object_key :: "k8s_object \<Rightarrow> object_key" where
  "object_key o' = (object_kind o', om_Namespace (object_meta o'), om_Name (object_meta o'))"

definition SetResourceVersion :: "k8s_object \<Rightarrow> k8s_object \<Rightarrow> k8s_object" where
  "SetResourceVersion desired current =
     map_meta (\<lambda>m. m\<lparr>om_ResourceVersion := om_ResourceVersion (object_meta current)\<rparr>) desired"

text \<open>The service fields the API server assigns are carried over from the current object.\<close>

definition keep_service :: "k8s_Service \<Rightarrow> k8s_Service \<Rightarrow> k8s_Service" where
  "keep_service typed currentSvc = typed\<lparr>svc_ClusterIP := svc_ClusterIP currentSvc,
     svc_ClusterIPs := svc_ClusterIPs currentSvc, svc_IPFamilies := svc_IPFamilies currentSvc,
     svc_IPFamilyPolicy := svc_IPFamilyPolicy currentSvc\<rparr>"

definition operator_merge :: "k8s_object \<Rightarrow> k8s_object \<Rightarrow> k8s_object" where
  "operator_merge desired current =
     (case (SetResourceVersion desired current, current) of
        (ObjService typed, ObjService currentSvc) \<Rightarrow> ObjService (keep_service typed currentSvc)
      | (merged, _) \<Rightarrow> merged)"

definition controller_merge :: "k8s_object \<Rightarrow> k8s_object \<Rightarrow> k8s_object" where
  "controller_merge desired current =
     (case (SetResourceVersion desired current, current) of
        (ObjService typed, ObjService currentSvc) \<Rightarrow> ObjService (keep_service typed currentSvc)
      | (ObjDeployment typed, ObjDeployment currentDeploy) \<Rightarrow> ObjDeployment (typed\<lparr>dp_Selector := dp_Selector currentDeploy\<rparr>)
      | (merged, _) \<Rightarrow> merged)"

text \<open>\<^verbatim>\<open>applyOwned\<close> of both reconcilers, which differ in what they carry over.\<close>

definition apply_owned :: "'k obj_client \<Rightarrow> (k8s_object \<Rightarrow> k8s_object \<Rightarrow> k8s_object) \<Rightarrow> k8s_object \<Rightarrow> 'k \<Rightarrow>
    k8s_error option \<times> 'k" where
  "apply_owned cl merge desired k =
     (case ob_Get cl (object_key desired) k of
        (Inl err, k) \<Rightarrow> if err = NotFound then ob_Create cl desired k else (Some err, k)
      | (Inr current, k) \<Rightarrow> ob_Update cl (merge desired current) k)"

definition operator_applyOwned :: "'k obj_client \<Rightarrow> k8s_object \<Rightarrow> 'k \<Rightarrow> k8s_error option \<times> 'k" where
  "operator_applyOwned cl = apply_owned cl operator_merge"

definition controller_applyOwned :: "'k obj_client \<Rightarrow> k8s_object \<Rightarrow> 'k \<Rightarrow> k8s_error option \<times> 'k" where
  "controller_applyOwned cl = apply_owned cl controller_merge"

text \<open>The loop over the resources: \<open>own\<close> is \<^verbatim>\<open>controllerutil.SetControllerReference\<close> for the stack.\<close>

fun apply_resources :: "(k8s_object \<Rightarrow> k8s_error + k8s_object) \<Rightarrow> (k8s_object \<Rightarrow> 'k \<Rightarrow> k8s_error option \<times> 'k) \<Rightarrow>
    k8s_object list \<Rightarrow> 'k \<Rightarrow> k8s_error option \<times> 'k" where
  "apply_resources own applyOwned [] k = (None, k)"
| "apply_resources own applyOwned (obj # objs) k =
     (case own obj of
        Inl err \<Rightarrow> (Some err, k)
      | Inr obj \<Rightarrow>
          (case applyOwned obj k of
             (Some err, k) \<Rightarrow> (Some err, k)
           | (None, k) \<Rightarrow> apply_resources own applyOwned objs k))"

section \<open>The operator\<close>

definition isPodReady :: "Pod \<Rightarrow> bool" where
  "isPodReady pod \<longleftrightarrow> (\<exists>c \<in> set (pod_Conditions pod). c = (''Ready'', ''True''))"

definition updateStatus :: "'k obj_client \<Rightarrow> OlricStack \<Rightarrow> 'k \<Rightarrow> k8s_error option \<times> 'k" where
  "updateStatus cl stack k =
     (case ob_ListPods cl (st_Namespace stack) (StackLabels stack ComponentOlricNode) k of
        (Inl err, k) \<Rightarrow> (Some err, k)
      | (Inr pods, k) \<Rightarrow>
          (let ready = sint (word_of_nat (length (filter isPodReady pods)) :: 32 word);
               podIPs = sort (filter (\<lambda>ip. ip \<noteq> '''') (map pod_IP pods))
           in ob_UpdateStatus cl (stack\<lparr>st_Status := (st_Status stack)
                \<lparr>stat_ReadyReplicas := ready, stat_PodIPs := podIPs\<rparr>\<rparr>) k))"

definition operator_resources :: "OlricStack \<Rightarrow> k8s_object list" where
  "operator_resources stack =
     [ObjService (WatchdogService stack), ObjServiceAccount (WatchdogServiceAccount stack),
      ObjRoleBinding (WatchdogRoleBinding stack), ObjDeployment (WatchdogDeployment stack)]"

definition operator_Reconcile :: "'k obj_client \<Rightarrow> (OlricStack \<Rightarrow> k8s_object \<Rightarrow> k8s_error + k8s_object) \<Rightarrow>
    namespaced_name \<Rightarrow> 'k \<Rightarrow> k8s_error option \<times> 'k" where
  "operator_Reconcile cl own req k =
     (case ob_GetStack cl req k of
        (Inl err, k) \<Rightarrow> if err = NotFound then (None, k) else (Some err, k)
      | (Inr stack, k) \<Rightarrow>
          (case apply_resources (own stack) (operator_applyOwned cl) (operator_resources stack) k of
             (Some err, k) \<Rightarrow> (Some err, k)
           | (None, k) \<Rightarrow> updateStatus cl stack k))"

section \<open>The watchdog's controller\<close>

record ControllerConfig =
  cc_StackID :: string
  cc_Namespace :: string
  cc_ReconcileInterval :: duration
  cc_ErrorBackoff :: duration

definition cc_withDefaults :: "ControllerConfig \<Rightarrow> ControllerConfig" where
  "cc_withDefaults c =
     (let c = (if cc_Namespace c = '''' then c\<lparr>cc_Namespace := ''default''\<rparr> else c);
          c = (if cc_ReconcileInterval c \<le> 0 then c\<lparr>cc_ReconcileInterval := 10 * second\<rparr> else c)
      in if cc_ErrorBackoff c \<le> 0 then c\<lparr>cc_ErrorBackoff := cc_ReconcileInterval c\<rparr> else c)"

definition NewController :: "bool \<Rightarrow> bool \<Rightarrow> ControllerConfig \<Rightarrow> string + ControllerConfig" where
  "NewController k8sClient scheme cfg =
     (let cfg = cc_withDefaults cfg in
      if cc_StackID cfg = '''' then Inl ''stack id is required''
      else if \<not> k8sClient then Inl ''kubernetes client is nil''
      else if \<not> scheme then Inl ''scheme is nil''
      else Inr cfg)"

text \<open>\<^verbatim>\<open>sort.Slice\<close> does not say in which order equal elements come out: \<open>arrange\<close> is its effect on the
  slice.  The observer is the topology service, absent when it is \<open>None\<close>.\<close>

definition observePods :: "'k obj_client \<Rightarrow> (PodObservation list \<Rightarrow> PodObservation list) \<Rightarrow>
    (string \<Rightarrow> PodObservation list \<Rightarrow> 'o \<Rightarrow> 'o) option \<Rightarrow> ControllerConfig \<Rightarrow> time \<Rightarrow> 'k \<Rightarrow> 'o \<Rightarrow> k8s_error option \<times> 'k \<times> 'o" where
  "observePods cl arrange observer cfg now k obs =
     (case observer of
        None \<Rightarrow> (None, k, obs)
      | Some observe \<Rightarrow>
          (let stackRef = \<lparr>st_Name = cc_StackID cfg, st_Namespace = cc_Namespace cfg,
             st_Spec = \<lparr>spec_Replicas = None, spec_WatchdogReplicas = None, spec_Image = '''', spec_SidecarImage = '''',
               spec_WatchdogImage = '''', spec_MySQLDSNSecret = ('''', ''''), spec_Resources = []\<rparr>,
             st_Status = \<lparr>stat_ReadyReplicas = 0, stat_PodIPs = [], stat_TopologyEpoch = 0\<rparr>\<rparr>
           in case ob_ListPods cl (cc_Namespace cfg) (StackLabels stackRef ComponentOlricNode) k of
                (Inl err, k) \<Rightarrow> (Some err, k, obs)
              | (Inr pods, k) \<Rightarrow>
                  (None, k, observe (cc_StackID cfg) (arrange (map (\<lambda>pod. \<lparr>po_PodName = pod_Name pod, po_PodIP = pod_IP pod,
                     po_Ready = isPodReady pod, po_Phase = pod_Phase pod, po_SeenAt = now\<rparr>) pods)) obs)))"

definition controller_resources :: "OlricStack \<Rightarrow> k8s_object list" where
  "controller_resources stack = [ObjService (OlricService stack), ObjDeployment (OlricDeployment stack)]"

definition controller_Reconcile :: "'k obj_client \<Rightarrow> (OlricStack \<Rightarrow> k8s_object \<Rightarrow> k8s_error + k8s_object) \<Rightarrow>
    (PodObservation list \<Rightarrow> PodObservation list) \<Rightarrow> (string \<Rightarrow> PodObservation list \<Rightarrow> 'o \<Rightarrow> 'o) option \<Rightarrow> ControllerConfig \<Rightarrow>
    time \<Rightarrow> 'k \<Rightarrow> 'o \<Rightarrow> k8s_error option \<times> 'k \<times> 'o" where
  "controller_Reconcile cl own arrange observer cfg now k obs =
     (case ob_GetStack cl (cc_Namespace cfg, cc_StackID cfg) k of
        (Inl err, k) \<Rightarrow> (Some err, k, obs)
      | (Inr stack, k) \<Rightarrow>
          (case apply_resources (own stack) (controller_applyOwned cl) (controller_resources stack) k of
             (Some err, k) \<Rightarrow> (Some err, k, obs)
           | (None, k) \<Rightarrow> observePods cl arrange observer cfg now k obs))"

text \<open>The loop of \<^verbatim>\<open>Run\<close>: after each reconciliation, failed or not, the context ends or the timer fires;
  an element is the clock of a round and whether the context ends after it.\<close>

fun controller_Run :: "'k obj_client \<Rightarrow> (OlricStack \<Rightarrow> k8s_object \<Rightarrow> k8s_error + k8s_object) \<Rightarrow>
    (PodObservation list \<Rightarrow> PodObservation list) \<Rightarrow> (string \<Rightarrow> PodObservation list \<Rightarrow> 'o \<Rightarrow> 'o) option \<Rightarrow> ControllerConfig \<Rightarrow>
    (time \<times> bool) list \<Rightarrow> 'k \<Rightarrow> 'o \<Rightarrow> bool \<times> 'k \<times> 'o" where
  "controller_Run cl own arrange observer cfg [] k obs = (False, k, obs)"
| "controller_Run cl own arrange observer cfg ((now, ctxDone) # rounds) k obs =
     (case controller_Reconcile cl own arrange observer cfg now k obs of
        (_, k, obs) \<Rightarrow> if ctxDone then (True, k, obs) else controller_Run cl own arrange observer cfg rounds k obs)"

section \<open>What the API documents\<close>

text \<open>An object as the API server may fill it in: without its version, the addresses of a service,
  and (for the controller, which keeps an immutable field) the selector of a deployment.\<close>

fun strip_object :: "bool \<Rightarrow> k8s_object \<Rightarrow> k8s_object" where
  "strip_object keepSelector (ObjService s) = ObjService (s\<lparr>svc_Meta := (svc_Meta s)\<lparr>om_ResourceVersion := ''''\<rparr>,
     svc_ClusterIP := '''', svc_ClusterIPs := [], svc_IPFamilies := [], svc_IPFamilyPolicy := None\<rparr>)"
| "strip_object keepSelector (ObjDeployment d) = ObjDeployment (d\<lparr>dp_Meta := (dp_Meta d)\<lparr>om_ResourceVersion := ''''\<rparr>,
     dp_Selector := (if keepSelector then dp_Selector d else [])\<rparr>)"
| "strip_object keepSelector (ObjServiceAccount m) = ObjServiceAccount (m\<lparr>om_ResourceVersion := ''''\<rparr>)"
| "strip_object keepSelector (ObjRoleBinding r) = ObjRoleBinding (r\<lparr>rb_Meta := (rb_Meta r)\<lparr>om_ResourceVersion := ''''\<rparr>\<rparr>)"

text \<open>\<open>objs k\<close> are the stored objects.  Reads report what is stored, a creation or an update that
  succeeds stores its object under its key as the server fills it in, a failed one changes nothing,
  and nobody else writes meanwhile.\<close>

definition writes :: "('k \<Rightarrow> object_key \<Rightarrow> k8s_object option) \<Rightarrow> (k8s_object \<Rightarrow> 'k \<Rightarrow> k8s_error option \<times> 'k) \<Rightarrow> bool" where
  "writes objs f \<longleftrightarrow> (\<forall>x k r k'. f x k = (r, k') \<longrightarrow>
     (if r = None then \<exists>x'. objs k' = (objs k)(object_key x \<mapsto> x') \<and> strip_object True x' = strip_object True x
      else objs k' = objs k))"

definition quiet_api :: "'k obj_client \<Rightarrow> ('k \<Rightarrow> object_key \<Rightarrow> k8s_object option) \<Rightarrow> bool" where
  "quiet_api cl objs \<longleftrightarrow>
     (\<forall>key k r k'. ob_Get cl key k = (r, k') \<longrightarrow> objs k' = objs k \<and>
        (\<forall>x. r = Inr x \<longrightarrow> object_key x = key)) \<and>
     (\<forall>key k r k'. ob_GetStack cl key k = (r, k') \<longrightarrow> objs k' = objs k) \<and>
     writes objs (ob_Create cl) \<and> writes objs (ob_Update cl) \<and>
     (\<forall>n l k r k'. ob_ListPods cl n l k = (r, k') \<longrightarrow> objs k' = objs k) \<and>
     (\<forall>st k r k'. ob_UpdateStatus cl st k = (r, k') \<longrightarrow> objs k' = objs k)"

text \<open>The stored objects before and after a reconciliation of \<open>resources\<close>.\<close>

definition settled :: "bool \<Rightarrow> (k8s_object \<Rightarrow> k8s_error + k8s_object) \<Rightarrow> k8s_object list \<Rightarrow>
    (object_key \<Rightarrow> k8s_object option) \<Rightarrow> (object_key \<Rightarrow> k8s_object option) \<Rightarrow> bool" where
  "settled b own resources before after \<longleftrightarrow>
     (\<forall>x \<in> set resources. \<exists>y z. own x = Inr y \<and> after (object_key x) = Some z \<and> strip_object b z = strip_object b y) \<and>
     (\<forall>key. key \<notin> object_key ` set resources \<longrightarrow> after key = before key)"

section \<open>Convergence\<close>

lemma strip_False: "strip_object False x =
    (case strip_object True x of ObjDeployment d \<Rightarrow> ObjDeployment (d\<lparr>dp_Selector := []\<rparr>) | y \<Rightarrow> y)"
  by (cases x) simp_all

lemma strip_weaken: "strip_object True x = strip_object True y \<Longrightarrow> strip_object b x = strip_object b y"
  by (cases b) (simp_all add: strip_False)

text \<open>What both reconcilers rely on: carrying fields over from the stored object keeps the key, and
  changes nothing but what the API server fills in.\<close>

locale owned_merge =
  fixes merge :: "k8s_object \<Rightarrow> k8s_object \<Rightarrow> k8s_object" and keepSelector :: bool
  assumes merge_strip: "object_kind current = object_kind desired \<Longrightarrow>
      strip_object keepSelector (merge desired current) = strip_object keepSelector desired"
    and merge_key: "object_kind current = object_kind desired \<Longrightarrow> object_key (merge desired current) = object_key desired"
begin

text \<open>What one application leaves behind.\<close>

lemma apply_owned_stored:
  assumes api: "quiet_api cl objs" and r: "apply_owned cl merge desired k = (None, k')"
  shows "\<exists>x. objs k' = (objs k)(object_key desired \<mapsto> x) \<and> strip_object keepSelector x = strip_object keepSelector desired"
proof -
  obtain g k1 where g: "ob_Get cl (object_key desired) k = (g, k1)" by fastforce
  with api have k1: "objs k1 = objs k" and key: "\<And>x. g = Inr x \<Longrightarrow> object_key x = object_key desired"
    unfolding quiet_api_def by blast+
  from api have w: "writes objs (ob_Create cl)" "writes objs (ob_Update cl)" by (auto simp: quiet_api_def)
  show ?thesis
  proof (cases g)
    case (Inl err)
    with r g have "ob_Create cl desired k1 = (None, k')"
      by (auto simp: apply_owned_def split: if_splits)
    with w(1) k1 obtain x where "objs k' = (objs k)(object_key desired \<mapsto> x)" "strip_object True x = strip_object True desired"
      unfolding writes_def by fastforce
    then show ?thesis using strip_weaken by blast
  next
    case (Inr current)
    with key have kind: "object_kind current = object_kind desired" by (auto simp: object_key_def)
    from Inr r g have "ob_Update cl (merge desired current) k1 = (None, k')" by (simp add: apply_owned_def)
    with w(2) k1 merge_key [OF kind] obtain x where "objs k' = (objs k)(object_key desired \<mapsto> x)"
      "strip_object True x = strip_object True (merge desired current)"
      unfolding writes_def by fastforce
    then show ?thesis using strip_weaken [of x "merge desired current" keepSelector] merge_strip [OF kind] by auto
  qed
qed

text \<open>A whole list of objects with different keys: each is stored, nothing else changes.\<close>

lemma apply_resources_stored:
  assumes api: "quiet_api cl objs" and own: "\<And>x y. own x = Inr y \<Longrightarrow> object_key y = object_key x"
  shows "apply_resources own (apply_owned cl merge) xs k = (None, k') \<Longrightarrow> distinct (map object_key xs) \<Longrightarrow>
    settled keepSelector own xs (objs k) (objs k')"
proof (induction xs arbitrary: k)
  case (Cons x xs)
  let ?f = "apply_owned cl merge"
  from Cons.prems(1) obtain y k1 where y: "own x = Inr y" and f: "?f y k = (None, k1)"
    and rest: "apply_resources own ?f xs k1 = (None, k')"
    by (auto split: sum.splits prod.splits option.splits)
  from apply_owned_stored [OF api f] own [OF y] obtain z where
    z: "objs k1 = (objs k)(object_key x \<mapsto> z)" "strip_object keepSelector z = strip_object keepSelector y"
    by auto
  from Cons.prems(2) have d: "distinct (map object_key xs)" "object_key x \<notin> object_key ` set xs" by auto
  from Cons.IH [OF rest d(1)] have ih:
    "\<forall>x \<in> set xs. \<exists>y z. own x = Inr y \<and> objs k' (object_key x) = Some z \<and> strip_object keepSelector z = strip_object keepSelector y"
    "\<forall>key. key \<notin> object_key ` set xs \<longrightarrow> objs k' key = objs k1 key" by (auto simp: settled_def)
  from ih(2) d(2) have "objs k' (object_key x) = objs k1 (object_key x)" by blast
  with z(1) have "objs k' (object_key x) = Some z" by simp
  with y z(2) ih z(1) show ?case by (auto simp: settled_def)
qed (simp add: settled_def)

end

interpretation om: owned_merge operator_merge True
proof
  fix current desired :: k8s_object
  assume "object_kind current = object_kind desired"
  then show "strip_object True (operator_merge desired current) = strip_object True desired"
    "object_key (operator_merge desired current) = object_key desired"
    by (cases desired; cases current;
      simp add: operator_merge_def SetResourceVersion_def keep_service_def object_key_def)+
qed

interpretation cm: owned_merge controller_merge False
proof
  fix current desired :: k8s_object
  assume "object_kind current = object_kind desired"
  then show "strip_object False (controller_merge desired current) = strip_object False desired"
    "object_key (controller_merge desired current) = object_key desired"
    by (cases desired; cases current;
      simp add: controller_merge_def SetResourceVersion_def keep_service_def object_key_def)+
qed

lemma resources_distinct:
  "distinct (map object_key (operator_resources stack))" "distinct (map object_key (controller_resources stack))"
  by (simp_all add: operator_resources_def controller_resources_def object_key_def)

lemma operator_Reconcile_settles:
  assumes api: "quiet_api cl objs" and own: "\<And>x y. own stack x = Inr y \<Longrightarrow> object_key y = object_key x"
    and st: "ob_GetStack cl req k = (Inr stack, k1)" and r: "operator_Reconcile cl own req k = (None, k')"
  shows "settled True (own stack) (operator_resources stack) (objs k) (objs k')"
proof -
  from st r obtain k2 where a: "apply_resources (own stack) (operator_applyOwned cl) (operator_resources stack) k1 = (None, k2)"
    and u: "updateStatus cl stack k2 = (None, k')"
    by (auto simp: operator_Reconcile_def split: prod.splits option.splits)
  from api st have k1: "objs k1 = objs k" unfolding quiet_api_def by blast
  from u obtain l k3 x where l: "ob_ListPods cl (st_Namespace stack) (StackLabels stack ComponentOlricNode) k2 = (l, k3)"
    and us: "ob_UpdateStatus cl x k3 = (None, k')"
    by (auto simp: updateStatus_def Let_def split: prod.splits sum.splits)
  from api l have "objs k3 = objs k2" unfolding quiet_api_def by blast
  moreover from api us have "objs k' = objs k3" unfolding quiet_api_def by blast
  ultimately have k': "objs k' = objs k2" by simp
  from a have "apply_resources (own stack) (apply_owned cl operator_merge) (operator_resources stack) k1 = (None, k2)"
    by (simp add: operator_applyOwned_def)
  then have "settled True (own stack) (operator_resources stack) (objs k1) (objs k2)"
    using own by (intro om.apply_resources_stored [OF api]) (simp_all add: resources_distinct)
  then show ?thesis by (simp only: k' k1)
qed

lemma observePods_objs:
  assumes "quiet_api cl objs" "observePods cl arrange observer cfg now k obs = (r, k', obs')"
  shows "objs k' = objs k"
proof (cases observer)
  case (Some f)
  with assms(2) obtain n l p where "ob_ListPods cl n l k = (p, k')"
    by (auto simp: observePods_def Let_def split: prod.splits sum.splits)
  with assms(1) show ?thesis unfolding quiet_api_def by blast
qed (use assms(2) in \<open>simp add: observePods_def\<close>)

lemma controller_Reconcile_settles:
  assumes api: "quiet_api cl objs" and own: "\<And>x y. own stack x = Inr y \<Longrightarrow> object_key y = object_key x"
    and st: "ob_GetStack cl (cc_Namespace cfg, cc_StackID cfg) k = (Inr stack, k1)"
    and r: "controller_Reconcile cl own arrange observer cfg now k obs = (None, k', obs')"
  shows "settled False (own stack) (controller_resources stack) (objs k) (objs k')"
proof -
  from st r obtain k2 where a: "apply_resources (own stack) (controller_applyOwned cl) (controller_resources stack) k1 = (None, k2)"
    and o: "observePods cl arrange observer cfg now k2 obs = (None, k', obs')"
    by (auto simp: controller_Reconcile_def split: prod.splits option.splits)
  from api st have k1: "objs k1 = objs k" unfolding quiet_api_def by blast
  note k' = observePods_objs [OF api o]
  from a have "apply_resources (own stack) (apply_owned cl controller_merge) (controller_resources stack) k1 = (None, k2)"
    by (simp add: controller_applyOwned_def)
  then have "settled False (own stack) (controller_resources stack) (objs k1) (objs k2)"
    using own by (intro cm.apply_resources_stored [OF api]) (simp_all add: resources_distinct)
  then show ?thesis by (simp only: k' k1)
qed


definition one_stack :: OlricStack where
  "one_stack = \<lparr>st_Name = ''s'', st_Namespace = ''n'',
     st_Spec = \<lparr>spec_Replicas = Some 3, spec_WatchdogReplicas = None, spec_Image = '''', spec_SidecarImage = '''',
       spec_WatchdogImage = '''', spec_MySQLDSNSecret = (''dsn'', ''url''), spec_Resources = []\<rparr>,
     st_Status = \<lparr>stat_ReadyReplicas = 0, stat_PodIPs = [], stat_TopologyEpoch = 0\<rparr>\<rparr>"

definition map_api :: "(object_key \<Rightarrow> k8s_object option) obj_client" where
  "map_api = \<lparr>ob_GetStack = (\<lambda>_ k. (Inr one_stack, k)),
     ob_Get = (\<lambda>key k. (case k key of None \<Rightarrow> Inl NotFound | Some x \<Rightarrow> if object_key x = key then Inr x else Inl NotFound, k)),
     ob_Create = (\<lambda>x k. (None, k(object_key x \<mapsto> x))), ob_Update = (\<lambda>x k. (None, k(object_key x \<mapsto> x))),
     ob_ListPods = (\<lambda>_ _ k. (Inr [], k)), ob_UpdateStatus = (\<lambda>_ k. (None, k))\<rparr>"

lemma map_api_quiet: "quiet_api map_api id"
  by (auto simp: quiet_api_def map_api_def writes_def split: option.splits if_splits)

lemma map_api_accepts: "fst (apply_owned map_api merge x k) = None"
  by (simp add: apply_owned_def map_api_def split: option.splits)

lemma map_api_accepts_all: "fst (apply_resources Inr (apply_owned map_api merge) xs k) = None"
proof (induction xs arbitrary: k)
  case (Cons x xs)
  obtain k' where "apply_owned map_api merge x k = (None, k')"
    using map_api_accepts [of merge x k] by (cases "apply_owned map_api merge x k") auto
  then show ?case using Cons by simp
qed simp


end
