(* ===== verification/Watchdog_Main.thy ===== *)
theory Watchdog_Main
  imports Stack_Controllers Go_Strings
begin

text \<open>
  The process of a watchdog (\<^verbatim>\<open>cmd/watchdog/main.go\<close>): its configuration, the generation it takes
  when it becomes primary, the start and the end of a term, and the check that terminates a primary
  that cannot store its epoch.  The results: that check terminates the process exactly on the
  configured number of consecutive failures, and with a validated configuration it does so before
  the lease of a node or the expiry of a member can run out.
\<close>

section \<open>The environment\<close>

definition watchdog_envInt :: "environ \<Rightarrow> string \<Rightarrow> int \<Rightarrow> int" where
  "watchdog_envInt env name fallback =
     (let value = env name in
      if value = '''' then fallback
      else case ParseInt value of
        None \<Rightarrow> fallback
      | Some parsed \<Rightarrow> if parsed \<le> 0 then fallback else parsed)"

definition watchdog_envString :: "environ \<Rightarrow> string \<Rightarrow> string \<Rightarrow> string" where
  "watchdog_envString env name fallback = (let value = env name in if value = '''' then fallback else value)"

definition watchdog_envDuration :: "(string \<Rightarrow> duration option) \<Rightarrow> environ \<Rightarrow> string \<Rightarrow> duration \<Rightarrow> duration" where
  "watchdog_envDuration ParseDuration env name fallback =
     (let value = env name in
      if value = '''' then fallback
      else case ParseDuration value of
        None \<Rightarrow> fallback
      | Some parsed \<Rightarrow> if parsed \<le> 0 then fallback else parsed)"

section \<open>The application\<close>

text \<open>\<^verbatim>\<open>appConfig\<close>: the service objects that exist, which of them \<^verbatim>\<open>topologyService\<close> points to and the
  generation stored beside it; \<open>ap_k8s\<close> says whether there is a Kubernetes client.\<close>

record 'es app =
  ap_addr :: string
  ap_stackID :: string
  ap_namespace :: string
  ap_identity :: string
  ap_k8s :: bool
  ap_health :: LeadershipHealth
  ap_services :: "(nat \<times> 'es Service) list"
  ap_topologyService :: "nat option"
  ap_topologyGen :: int64

definition loadAppConfig :: "environ \<Rightarrow> 'es app" where
  "loadAppConfig env =
     (let namespace = watchdog_envString env ''STACK_NAMESPACE'' (env ''POD_NAMESPACE'');
          identity = watchdog_envString env ''WATCHDOG_ID'' (env ''HOSTNAME'')
      in \<lparr>ap_addr = watchdog_envString env ''WATCHDOG_ADDR'' '':8081'', ap_stackID = env ''STACK_ID'',
          ap_namespace = (if namespace = '''' then ''default'' else namespace),
          ap_identity = (if identity = '''' then ''watchdog'' else identity),
          ap_k8s = (env ''STACK_ID'' \<noteq> ''''), ap_health = NewLeadershipHealth, ap_services = [],
          ap_topologyService = None, ap_topologyGen = 0\<rparr>)"

definition setTopologyService :: "nat \<Rightarrow> int64 \<Rightarrow> 'es app \<Rightarrow> 'es app" where
  "setTopologyService service generation cfg =
     cfg\<lparr>ap_topologyService := Some service, ap_topologyGen := generation\<rparr>"

definition clearTopologyService :: "nat \<Rightarrow> 'es app \<Rightarrow> 'es app" where
  "clearTopologyService service cfg =
     (if ap_topologyService cfg = Some service
      then cfg\<lparr>ap_topologyService := None, ap_topologyGen := 0\<rparr> else cfg)"

definition on_service :: "nat \<Rightarrow> ('es Service \<Rightarrow> 'es Service) \<Rightarrow> 'es app \<Rightarrow> 'es app" where
  "on_service service f cfg =
     (case map_of (ap_services cfg) service of
        None \<Rightarrow> cfg
      | Some s \<Rightarrow> cfg\<lparr>ap_services := AList.update service (f s) (ap_services cfg)\<rparr>)"

definition demoteTopology :: "('es Service \<Rightarrow> 'es Service) \<Rightarrow> 'es app \<Rightarrow> 'es app" where
  "demoteTopology pause cfg =
     (case ap_topologyService cfg of
        None \<Rightarrow> cfg
      | Some service \<Rightarrow> on_service service (SetLeadership pause WATCHDOG_ROLE_STANDBY (ap_topologyGen cfg)) cfg)"

text \<open>The callback \<^verbatim>\<open>OnStoppedLeading\<close>, after which the process ends.\<close>

definition OnStoppedLeading :: "('es Service \<Rightarrow> 'es Service) \<Rightarrow> 'es app \<Rightarrow> 'es app" where
  "OnStoppedLeading pause cfg =
     (let cfg = demoteTopology pause cfg
      in cfg\<lparr>ap_health := health_SetLeadership WATCHDOG_ROLE_STANDBY 0 (ap_health cfg)\<rparr>)"

section \<open>Timing\<close>

datatype timing_error = ErrWatchdogTiming duration duration

definition validateWatchdogTiming :: "'es Config \<Rightarrow> duration \<Rightarrow> int \<Rightarrow> timing_error option" where
  "validateWatchdogTiming cfg epochHealthInterval epochFailureThreshold =
     (if epochHealthInterval \<le> 0 \<or> epochFailureThreshold \<le> 0 then None
      else let degradedWindow = i64 (epochHealthInterval * epochFailureThreshold);
               bound = tc_LeaseTTL cfg;
               bound = (if tc_ExpireAfter cfg < bound then tc_ExpireAfter cfg else bound)
      in if degradedWindow \<ge> bound then Some (ErrWatchdogTiming degradedWindow bound) else None)"

text \<open>The loop of \<^verbatim>\<open>watchEpochHealth\<close> on the events of its \<^verbatim>\<open>select\<close>: the end of the context, or a tick with
  whether the service has an epoch error then.\<close>

datatype health_event = HealthDone | HealthTick bool
datatype health_outcome = StillWatching int | WatchStopped | Terminated

fun health_loop :: "int \<Rightarrow> int \<Rightarrow> health_event list \<Rightarrow> health_outcome" where
  "health_loop threshold consecutive [] = StillWatching consecutive"
| "health_loop threshold consecutive (HealthDone # evs) = WatchStopped"
| "health_loop threshold consecutive (HealthTick failing # evs) =
     (if failing then
        let consecutive = consecutive + 1
        in if consecutive \<ge> threshold then Terminated else health_loop threshold consecutive evs
      else health_loop threshold 0 evs)"

definition watchEpochHealth :: "bool \<Rightarrow> duration \<Rightarrow> int \<Rightarrow> health_event list \<Rightarrow> health_outcome" where
  "watchEpochHealth terminate interval threshold evs =
     (if interval \<le> 0 \<or> threshold \<le> 0 \<or> \<not> terminate then WatchStopped
      else health_loop threshold 0 evs)"

section \<open>A term as primary\<close>

text \<open>The generation of a new term: taken from the stored counter, or the clock when there is no
  Kubernetes client.  \<open>None\<close> is an allocation that does not return.\<close>

definition allocateWatchdogGeneration :: "'k k8s_client \<Rightarrow> 'k app \<Rightarrow> time \<Rightarrow> 'k \<Rightarrow>
    ((store_error + int64 \<times> 'k EpochStore option) \<times> 'k) option" where
  "allocateWatchdogGeneration cl cfg now k =
     (if \<not> ap_k8s cfg then Some (Inr (i64 now, None), k)
      else let store = \<lparr>ces_namespace = ap_namespace cfg, ces_name = ap_stackID cfg @ ''-topology''\<rparr>
      in map_option (\<lambda>(r, k). (case r of Inl err \<Rightarrow> Inl err
            | Inr generation \<Rightarrow> Inr (generation, Some (configmap_store cl store)), k))
          (NextGeneration cl store k))"

definition topology_config :: "(string \<Rightarrow> duration option) \<Rightarrow> environ \<Rightarrow> string \<Rightarrow> int64 \<Rightarrow> 'es Config" where
  "topology_config ParseDuration env identity generation =
     \<lparr>tc_SuspectAfter = watchdog_envDuration ParseDuration env ''SUSPECT_AFTER'' (20 * second),
      tc_ExpireAfter = watchdog_envDuration ParseDuration env ''EXPIRE_AFTER'' (30 * second),
      tc_ReapInterval = watchdog_envDuration ParseDuration env ''REAP_INTERVAL'' (15 * second),
      tc_BookwormInterval = watchdog_envDuration ParseDuration env ''BOOKWORM_INTERVAL'' (10 * second),
      tc_LeaseTTL = watchdog_envDuration ParseDuration env ''TOPOLOGY_LEASE_TTL'' (30 * second),
      tc_WatchdogID = identity, tc_Generation = generation, tc_Role = WATCHDOG_ROLE_PRIMARY,
      tc_EpochStore = None\<rparr>"

text \<open>The controller of the stack, which exists when there is a Kubernetes client.\<close>

definition controller_config :: "(string \<Rightarrow> duration option) \<Rightarrow> environ \<Rightarrow> 'es app \<Rightarrow> ControllerConfig" where
  "controller_config ParseDuration env cfg =
     \<lparr>cc_StackID = ap_stackID cfg, cc_Namespace = ap_namespace cfg,
      cc_ReconcileInterval = watchdog_envDuration ParseDuration env ''WATCHDOG_RECONCILE_INTERVAL'' (10 * second),
      cc_ErrorBackoff = 0\<rparr>"

text \<open>\<^verbatim>\<open>NewController\<close> does not fail in \<^verbatim>\<open>runPrimary\<close>: a client exists only for a named stack.\<close>

lemma controller_created:
  assumes "ap_k8s (loadAppConfig env :: 'es app)"
  shows "\<exists>cc. NewController True True (controller_config ParseDuration env (loadAppConfig env :: 'es app)) = Inr cc \<and>
    0 < cc_ReconcileInterval cc \<and> cc_ErrorBackoff cc = cc_ReconcileInterval cc"
  using assms by (auto simp: NewController_def cc_withDefaults_def controller_config_def loadAppConfig_def Let_def
      watchdog_envDuration_def split: option.splits)

datatype primary_error = ErrAllocate store_error | ErrTiming timing_error

text \<open>\<^verbatim>\<open>runPrimary\<close> up to serving: the new service is the object \<open>service\<close>, its observer the health of
  the process, and the health interval and threshold are returned for the check.\<close>

definition runPrimary_start :: "'k k8s_client \<Rightarrow> (string \<Rightarrow> duration option) \<Rightarrow> environ \<Rightarrow> nat \<Rightarrow> (nat \<Rightarrow> time) \<Rightarrow>
    'k app \<Rightarrow> 'k \<Rightarrow> ((primary_error + duration \<times> int) \<times> 'k app \<times> 'k) option" where
  "runPrimary_start cl ParseDuration env service clock cfg k =
     map_option (\<lambda>(r, k).
       (case r of
          Inl err \<Rightarrow> (Inl (ErrAllocate err), cfg, k)
        | Inr (generation, epochStore) \<Rightarrow>
            (let topologyCfg = topology_config ParseDuration env (ap_identity cfg) generation;
                 interval = watchdog_envDuration ParseDuration env ''WATCHDOG_EPOCH_HEALTH_INTERVAL'' (5 * second);
                 threshold = watchdog_envInt env ''WATCHDOG_EPOCH_FAILURE_THRESHOLD'' 3
             in case validateWatchdogTiming topologyCfg interval threshold of
                  Some err \<Rightarrow> (Inl (ErrTiming err), cfg, k)
                | None \<Rightarrow>
                    (let cfg = cfg\<lparr>ap_health := health_SetLeadership WATCHDOG_ROLE_PRIMARY generation (ap_health cfg)\<rparr>;
                         s = NewServiceWithConfig (clock 1) k topologyCfg;
                         cfg = setTopologyService service generation cfg;
                         s = AddLeadershipObserver (Some (ap_health cfg)) s;
                         s = (if ap_k8s cfg then SetEpochStore epochStore s else s)
                     in (Inr (interval, threshold), cfg\<lparr>ap_services := AList.update service s (ap_services cfg)\<rparr>, k)))))
       (allocateWatchdogGeneration cl cfg (clock 0) k)"

text \<open>The deferred calls at the end of \<^verbatim>\<open>runPrimary\<close>, last deferred first.\<close>

definition runPrimary_end :: "('es Service \<Rightarrow> 'es Service) \<Rightarrow> nat \<Rightarrow> int64 \<Rightarrow> 'es app \<Rightarrow> 'es app" where
  "runPrimary_end pause service generation cfg =
     (let cfg = on_service service (SetLeadership pause WATCHDOG_ROLE_STANDBY generation) cfg;
          cfg = clearTopologyService service cfg
      in cfg\<lparr>ap_health := health_SetLeadership WATCHDOG_ROLE_STANDBY 0 (ap_health cfg)\<rparr>)"

text \<open>What ends \<^verbatim>\<open>serveTopology\<close>: the context, or the server, whose regular stop is no error.\<close>

datatype serve_end = ServeContextDone string | ServeStopped | ServeFailed string

definition serveTopology :: "(string \<Rightarrow> string option) \<Rightarrow> 'es app \<Rightarrow> serve_end \<Rightarrow> string option" where
  "serveTopology listen cfg ev =
     (case listen (ap_addr cfg) of
        Some err \<Rightarrow> Some err
      | None \<Rightarrow> (case ev of ServeContextDone err \<Rightarrow> Some err | ServeStopped \<Rightarrow> None | ServeFailed err \<Rightarrow> Some err))"

section \<open>The election\<close>

text \<open>The callbacks \<^verbatim>\<open>runWithLeaderElection\<close> gives to the election, on the application and the Kubernetes
  server; the first component says whether the process ends.  An error of \<^verbatim>\<open>runPrimary\<close> is only
  logged.\<close>

datatype election_event = StartedLeading | StoppedLeading | NewLeader string

definition election_callback :: "'k k8s_client \<Rightarrow> (string \<Rightarrow> duration option) \<Rightarrow> environ \<Rightarrow> nat \<Rightarrow> (nat \<Rightarrow> time) \<Rightarrow>
    ('k Service \<Rightarrow> 'k Service) \<Rightarrow> election_event \<Rightarrow> 'k app \<Rightarrow> 'k \<Rightarrow> (bool \<times> 'k app \<times> 'k) option" where
  "election_callback cl ParseDuration env service clock pause ev cfg k =
     (case ev of
        StartedLeading \<Rightarrow> map_option (\<lambda>(_, cfg, k). (False, cfg, k)) (runPrimary_start cl ParseDuration env service clock cfg k)
      | StoppedLeading \<Rightarrow> Some (True, OnStoppedLeading pause cfg, k)
      | NewLeader _ \<Rightarrow> Some (False, cfg, k))"

text \<open>A leader whose term does not start goes on leading, with no topology service.\<close>

lemma failed_start_keeps_leading:
  assumes "runPrimary_start cl ParseDuration env service clock cfg k = Some (Inl err, cfg', k')"
  shows "election_callback cl ParseDuration env service clock pause StartedLeading cfg k = Some (False, cfg, k')"
proof -
  obtain r k2 where "allocateWatchdogGeneration cl cfg (clock 0) k = Some (r, k2)"
    using assms by (auto simp: runPrimary_start_def)
  with assms have "cfg' = cfg"
    by (cases r) (auto simp: runPrimary_start_def Let_def split: option.splits)
  with assms show ?thesis by (simp add: election_callback_def)
qed

section \<open>The health check\<close>

text \<open>The loop terminates exactly when some run of failing ticks reaches the threshold before the
  context ends; ticks already counted stand in front.\<close>

lemma health_loop_failing:
  assumes "0 < threshold" "c < threshold"
  shows "threshold - c \<le> int n \<Longrightarrow> health_loop threshold c (replicate n (HealthTick True) @ evs) = Terminated"
  using assms(2)
proof (induction n arbitrary: c)
  case (Suc n)
  then show ?case by (cases "c + 1 \<ge> threshold") auto
qed simp

lemma health_loop_terminates:
  assumes "0 < threshold" "0 \<le> c" "c < threshold" "threshold \<le> int n"
  shows "health_loop threshold c (map HealthTick bs @ replicate n (HealthTick True) @ evs) = Terminated"
  using assms(2,3)
proof (induction bs arbitrary: c)
  case Nil
  with health_loop_failing [OF assms(1) Nil.prems(2), of n evs] assms(4) show ?case by simp
next
  case (Cons b bs)
  from Cons.IH [of "c + 1"] Cons.IH [of 0] Cons.prems assms(1) show ?case
    by (auto simp: Let_def not_le)
qed

lemma health_loop_only:
  assumes "0 < threshold" "0 \<le> c" "c < threshold" "health_loop threshold c evs = Terminated"
  shows "\<exists>bs n rest. replicate (nat c) (HealthTick True) @ evs = map HealthTick bs @ replicate n (HealthTick True) @ rest \<and>
    threshold \<le> int n"
  using assms(2-)
proof (induction evs arbitrary: c)
  case (Cons ev evs)
  show ?case
  proof (cases ev)
    case HealthDone
    with Cons.prems show ?thesis by simp
  next
    case (HealthTick failing)
    have snoc: "replicate (nat c) (HealthTick True) @ HealthTick True # evs =
        replicate (nat (c + 1)) (HealthTick True) @ evs"
      using Cons.prems(1) by (simp add: Suc_nat_eq_nat_zadd1 add.commute replicate_append_same flip: replicate_Suc)
    show ?thesis
    proof (cases "failing \<and> c + 1 < threshold")
      case True
      with HealthTick Cons.prems have "health_loop threshold (c + 1) evs = Terminated" by simp
      from Cons.IH [OF _ _ this] True Cons.prems(1)
      have "\<exists>bs n rest. replicate (nat (c + 1)) (HealthTick True) @ evs = map HealthTick bs @ replicate n (HealthTick True) @ rest \<and>
          threshold \<le> int n" by simp
      moreover have "ev = HealthTick True" using True HealthTick by simp
      ultimately show ?thesis by (simp only: snoc)
    next
      case False
      show ?thesis
      proof (cases failing)
        case True
        with False have "threshold \<le> int (nat (c + 1))" using Cons.prems(1) by simp
        moreover have "replicate (nat c) (HealthTick True) @ ev # evs =
            map HealthTick [] @ replicate (nat (c + 1)) (HealthTick True) @ evs"
          using True HealthTick snoc by simp
        ultimately show ?thesis by blast
      next
        case nofail: False
        with HealthTick Cons.prems have "health_loop threshold 0 evs = Terminated" by simp
        from Cons.IH [OF _ assms(1) this] obtain bs n rest where
          "evs = map HealthTick bs @ replicate n (HealthTick True) @ rest" "threshold \<le> int n" by auto
        with HealthTick nofail show ?thesis
          by (intro exI [of _ "replicate (nat c) True @ False # bs"] exI [of _ n] exI [of _ rest]) simp
      qed
    qed
  qed
qed simp

lemma validated_window:
  assumes "validateWatchdogTiming cfg interval threshold = None" "0 < interval" "0 < threshold"
    and "i64_range (interval * threshold)"
  shows "interval * threshold < tc_LeaseTTL cfg \<and> interval * threshold < tc_ExpireAfter cfg"
  using assms by (auto simp: validateWatchdogTiming_def Let_def i64_id split: if_splits)

section \<open>Properties\<close>

text \<open>C38. A primary that cannot store its epoch gives up in time.  The health check terminates the
  process exactly when the threshold number of ticks in a row show the epoch error before the
  context ends; and when the timing was validated (and the window is in the range of a duration),
  those ticks span less than the lease of a node and less than the expiry of a member.\<close>

theorem degraded_primary_terminates:
  assumes "0 < interval" "0 < threshold"
  shows "(watchEpochHealth True interval threshold evs = Terminated \<longleftrightarrow>
      (\<exists>bs rest. evs = map HealthTick bs @ replicate (nat threshold) (HealthTick True) @ rest)) \<and>
    (validateWatchdogTiming cfg interval threshold = None \<and> i64_range (interval * threshold) \<longrightarrow>
      interval * threshold < tc_LeaseTTL cfg \<and> interval * threshold < tc_ExpireAfter cfg)"
proof -
  have "\<exists>bs rest. evs = map HealthTick bs @ replicate (nat threshold) (HealthTick True) @ rest"
    if "watchEpochHealth True interval threshold evs = Terminated"
  proof -
    from that assms have "health_loop threshold 0 evs = Terminated" by (simp add: watchEpochHealth_def)
    from health_loop_only [OF assms(2) _ assms(2) this] obtain bs n rest where
      e: "evs = map HealthTick bs @ replicate n (HealthTick True) @ rest" "threshold \<le> int n" by auto
    then have "replicate n (HealthTick True) =
        replicate (nat threshold) (HealthTick True) @ replicate (n - nat threshold) (HealthTick True)"
      by (simp flip: replicate_add)
    with e(1) show ?thesis by auto
  qed
  moreover have "watchEpochHealth True interval threshold
      (map HealthTick bs @ replicate (nat threshold) (HealthTick True) @ rest) = Terminated" for bs rest
    using health_loop_terminates [of threshold 0 "nat threshold" bs rest] assms
    by (simp add: watchEpochHealth_def)
  ultimately show ?thesis using validated_window [of cfg interval threshold] assms by blast
qed

theorem degraded_primary_terminates_witness:
  "watchEpochHealth True (5 * second) 3 [HealthTick True, HealthTick False, HealthTick True, HealthTick True, HealthTick True] =
     Terminated \<and>
   validateWatchdogTiming (topology_config (\<lambda>_. None) (\<lambda>_. '''') ''w'' 1 :: unit Config) (5 * second) 3 = None \<and>
   15 * second < tc_LeaseTTL (topology_config (\<lambda>_. None) (\<lambda>_. '''') ''w'' 1 :: unit Config)"
proof -
  let ?cfg = "topology_config (\<lambda>_. None) (\<lambda>_. '''') ''w'' 1 :: unit Config"
  let ?evs = "[HealthTick True, HealthTick False, HealthTick True, HealthTick True, HealthTick True]"
  have e: "?evs = map HealthTick [True, False] @ replicate (nat 3) (HealthTick True) @ []"
    by (simp add: eval_nat_numeral)
  have w: "validateWatchdogTiming ?cfg (5 * second) 3 = None"
    by (simp add: validateWatchdogTiming_def topology_config_def watchdog_envDuration_def i64_id i64_range_def)
  have pos: "0 < 5 * second" "0 < (3 :: int)" by simp_all
  note d = degraded_primary_terminates [OF pos, of ?evs ?cfg]
  have "watchEpochHealth True (5 * second) 3 ?evs = Terminated"
    using d e by blast
  moreover have "15 * second < tc_LeaseTTL ?cfg"
    using d w by (simp add: i64_range_def)
  ultimately show ?thesis using w by blast
qed

end
