(* ===== verification/Spec2Isabelle.thy ===== *)
theory Spec2Isabelle
  imports Durable_Hook Sidecar_Server Topology_Service Resp_Server Node_Main Sidecar_Main Watchdog_Main Stack_Controllers
begin

text \<open>
  \<^bold>\<open>OlricStack: a fenced, durable string cache on Kubernetes.\<close>

  The program keeps a string cache in memory (an embedded Olric cluster, one node per pod), makes
  every mutation durable through a ring in shared memory and a sidecar that writes to MySQL, and
  decides who may serve through a watchdog that issues leases.  An operator creates the watchdog of
  a stack, and the watchdog's controller creates the pods.  This library follows the Go sources
  under \<^verbatim>\<open>src/\<close> file by file and proves what each part promises, and what the parts promise
  together.

  \<^bold>\<open>How the parts interact.\<close>  A client speaks RESP to a node.  The node's string service checks the
  lease and calls Olric; Olric calls the durable hook before and after it changes memory.  The hook
  takes a fence (generation, epoch, sequence) from the lease and the sequencer and appends an oplog
  entry to the ring.  The sidecar pops entries, keeps the latest per key as pending and upserts them
  into MySQL, where the fence decides which record a row keeps.  Over a unix socket the node asks
  the sidecar to load, drain and purge.  The watchdog collects heartbeats and pod observations,
  stores its generation and epoch in a ConfigMap, and pushes envelopes to the nodes; a node that
  accepts an envelope renews its lease, and one that sees a stale or demoted watchdog revokes it.

  \<^bold>\<open>Theories, sources, state and operations.\<close>

  \<^item> \<open>Stack_Prelude\<close>: the collections of simplification rules, \<open>and_then\<close> on sums, Go maps as
    association lists, signed 64-bit wrap-around \<open>i64\<close>, bytes and words.
    \<open>Topology_Types\<close>: the messages of \<^verbatim>\<open>api/topology/v1/topology.pb.go\<close> and time in nanoseconds.
    \<open>Go_Strconv\<close> and \<open>Go_Strings\<close>: what the sources use of \<^verbatim>\<open>strconv\<close>, \<^verbatim>\<open>strings\<close>, \<^verbatim>\<open>net\<close> and
    \<^verbatim>\<open>encoding/hex\<close>; the Unicode tables are an argument.
  \<^item> \<open>Oplog_Ring\<close> (\<^verbatim>\<open>internal/ring/ring.go\<close>): the mapped file as a list of bytes with its header and
    cursors; \<open>Create\<close>, \<open>openMapping\<close>, \<open>Append\<close>, \<open>Pop\<close>, \<open>Pending\<close>.  \<open>ring_inv m xs\<close> says that the
    bytes hold the payloads \<open>xs\<close>; they determine \<open>xs\<close> (\<open>ring_inv_unique\<close>).  Appending is enqueueing,
    popping is dequeueing, any interleaving is a lossless first-in first-out channel.
  \<^item> \<open>Oplog_Records\<close> (\<^verbatim>\<open>internal/oplog/oplog.go\<close>, \<^verbatim>\<open>internal/store/store.go\<close>): the wire entry, its
    validation, the row.
  \<^item> \<open>Fence_Lease\<close> (\<^verbatim>\<open>internal/node/subscriber.go\<close>, \<^verbatim>\<open>internal/stringkv/sequencer.go\<close>): the lease tracker,
    the receive loop of the subscription and the fence sequencer.  Accepted fences never go back, a
    fence verifies exactly under the same leadership, a rejected envelope revokes, issued fences
    ascend.
  \<^item> \<open>Olric_Store\<close> (\<^verbatim>\<open>internal/olricstore\<close>): the entry codec and the storage engine, which refines a
    finite map; the paged scan is complete, a transfer moves all entries.
  \<^item> \<open>Durable_Hook\<close> (\<^verbatim>\<open>internal/stringkv/durable_hook.go\<close>): both halves of every mutation, the check
    under the lock, the bounded retry and the fatal callback.
  \<^item> \<open>String_Kv\<close> (\<^verbatim>\<open>internal/stringkv/service.go\<close>, \<^verbatim>\<open>olric_adapter.go\<close>) and \<open>Resp_Server\<close>
    (\<^verbatim>\<open>resp_server.go\<close>): the string service behind its lease and the RESP commands, which refine a map
    of strings; without a lease nothing is read or changed; the shutdown protocol, a step relation
    over the goroutines of the connections, drains before it closes.
  \<^item> \<open>Mysql_Backend\<close> (\<^verbatim>\<open>internal/sidecar/backend_mysql.go\<close>, \<^verbatim>\<open>ttl.go\<close>): the table, the upsert under both
    orders in which a database may evaluate its assignments, the purge.
    \<open>Sidecar_Server\<close> (\<^verbatim>\<open>internal/sidecar/control.go\<close>): the pending set, the consumer loop, the final
    drain, the control methods.  \<open>Sidecar_Rpc\<close> (the rest of \<^verbatim>\<open>control.go\<close>, and \<^verbatim>\<open>transport.go\<close>): messages,
    handlers, registration and client of the control channel; a remote call is the local call, run
    at most once.
  \<^item> \<open>Watchdog_State\<close> (\<^verbatim>\<open>internal/watchdog/state.go\<close>), \<open>Epoch_Store\<close> (\<^verbatim>\<open>epoch_store.go\<close>, \<^verbatim>\<open>health.go\<close>) and
    \<open>Topology_Service\<close> (\<^verbatim>\<open>internal/topology/service.go\<close>): the cluster state with the lifecycle of its
    nodes, the durable counters with other clients at work, and the service with its subscribers as
    a step relation, one step for each critical section.  An epoch identifies a cluster, counters
    never go back, no envelope carries an epoch that is not stored.
  \<^item> \<open>Workloads\<close> (\<^verbatim>\<open>internal/workloads/workloads.go\<close>, \<^verbatim>\<open>api/olric/v1alpha1/olricstack_types.go\<close>): the objects
    of a stack.  \<open>Stack_Controllers\<close> (\<^verbatim>\<open>internal/operator/reconciler.go\<close>,
    \<^verbatim>\<open>internal/watchdog/controller.go\<close>): the two reconcilers, which converge.
  \<^item> \<open>Node_Main\<close>, \<open>Sidecar_Main\<close>, \<open>Watchdog_Main\<close> (\<^verbatim>\<open>cmd/olric-node\<close>, \<^verbatim>\<open>cmd/olric-sidecar\<close>,
    \<^verbatim>\<open>cmd/watchdog\<close>): the processes: configuration from the environment, start, the joiner that
    follows the topology, a term as primary, the health check, the callbacks of the election.

  \<^bold>\<open>This theory\<close> holds the properties that span parts: an acknowledged write reaches its row; a
  demotion ends with every command of the node refused; the first envelope of a new generation
  deletes the rows of the earlier ones; and what the operator deploys fits together.

  \<^bold>\<open>Interfaces.\<close>  A locale states what one part relies on of another and carries the lemmas of its
  clients: \<open>oplog_channel\<close> (the ring as a queue, interpreted as \<open>rq\<close>), \<open>fence_sequencer\<close> (\<open>ms\<close>),
  \<open>storage_engine\<close> (\<open>es\<close>), \<open>durable_backend\<close> (what an upsert covers, for the consumer; \<open>mb\<close>) and
  \<open>owned_merge\<close> (what both reconcilers rely on; \<open>om\<close> and \<open>cm\<close>).

  \<^bold>\<open>Effects.\<close>  State is passed explicitly: a record per object, returned updated.  Go errors are
  values of sums, options or error datatypes, and a panic of an index is one of them.  A lock is a
  critical section done in one step; where the interleaving of goroutines matters (service, shutdown
  of the RESP server) there is a step relation, and where a call releases its lock in between, an
  argument stands for what the others do meanwhile.  Clocks, random bytes, operating-system errors
  and the network are arguments.

  \<^bold>\<open>Bounds and loops.\<close>  Integers that wrap in Go wrap here: the ring computes on 32 and 64 bit
  words, and the theorems name the bounds under which a cursor or a counter does not run over.
  Loops over data are structural.  Loops that wait (retry of a full ring, of a conflicting update,
  for a file, the drains, \<open>Pop\<close>) are partial functions into \<open>option\<close> with \<open>None\<close> for not returning;
  that they return is proved: always for \<open>Pop\<close> and the final drain, once the clock passes the
  deadline for the retry and the wait for a file, and after finitely many conflicts for the
  counters.  No fuel is used.

  \<^bold>\<open>Code that is not in the repository\<close> is an argument: Olric's client and cluster, the MessagePack
  and JSON codecs, gRPC connections, gorm and MySQL's string order, the state machine library, the
  Kubernetes API, \<^verbatim>\<open>time.ParseDuration\<close>, \<^verbatim>\<open>sort.Slice\<close>.  What is relied on is a named hypothesis
  (\<open>documented_client\<close>, \<open>reads_back\<close>, \<open>connects\<close>, \<open>quiet_api\<close>, \<dots>), and each property that has one is
  also instantiated with a concrete function.

  \<^bold>\<open>Not modelled.\<close>  Signals, logging, the creation of directories and sockets and the start of
  goroutines that only run a modelled loop (input and output); the election itself (client-go; its
  callbacks are modelled); the code \<^verbatim>\<open>protoc\<close> generates beyond the messages; \<^verbatim>\<open>cmd/operator\<close> (flags and
  registration with controller-runtime), \<^verbatim>\<open>cmd/olric-e2e-client\<close> (a test client) and
  \<^verbatim>\<open>groupversion_info.go\<close> (constants of the scheme); the fork of Olric under \<^verbatim>\<open>third_party\<close>, apart from
  the types of its durable hook; deep copies and getters, which have no effect in a model of
  values; the tearing of concurrent memory accesses to the mapped file, whose cursors the source
  loads and stores atomically.
\<close>

section \<open>From an acknowledged write to its row\<close>



section \<open>From the end of a term to the last answered command\<close>



section \<open>From a new term to the rows of the earlier ones\<close>


definition table_env :: "table sidecar_env" where
  "table_env = \<lparr>se_unmarshal = demo_unmarshal, se_upsert = UpsertEntries Simultaneous demo_gt None,
     se_load = (\<lambda>_ _. Inl backend_error.ErrNotFound), se_purge = PurgeBelowGeneration None, se_mid = id, se_now = 0\<rparr>"

definition purge_codec :: jsonCodec where
  "purge_codec = one_codec\<lparr>js_purged := (\<lambda>_. [], \<lambda>_. Inr \<lparr>ps_Purged = 1\<rparr>)\<rparr>"


section \<open>What the operator deploys fits together\<close>

text \<open>The environment of a container: the values its specification gives, with fields and secrets
  resolved by the cluster, and nothing else.\<close>

definition resolves :: "(string \<Rightarrow> string) \<Rightarrow> (string \<times> string \<Rightarrow> string) \<Rightarrow> Container \<Rightarrow> environ \<Rightarrow> bool" where
  "resolves fieldRef secretRef c env \<longleftrightarrow> (\<forall>name. env name =
     (case map_of (ct_Env c) name of
        None \<Rightarrow> ''''
      | Some (EnvValue v) \<Rightarrow> v
      | Some (EnvField f) \<Rightarrow> fieldRef f
      | Some (EnvSecret s) \<Rightarrow> secretRef s))"

lemmas resolves_at = resolves_def [THEN iffD1, rule_format]

lemma ParseInt_ports:
  "ParseInt (FormatInt 3321) = Some 3321" "ParseInt (FormatInt 3322) = Some 3322"
  by (simp_all add: ParseInt_FormatInt i64_range_def)

lemma TrimSpace_paths:
  "TrimSpace unicode (SharedMountPath @ ''/oplog.ring'') = SharedMountPath @ ''/oplog.ring''"
  "TrimSpace unicode (SharedMountPath @ ''/oplog.sock'') = SharedMountPath @ ''/oplog.sock''"
  by (simp_all add: SharedMountPath_def TrimSpace_def ascii_def ascii_space_def)

lemma node_env:
  assumes "resolves fieldRef secretRef (node_container stack) env"
  shows "env ''RING_PATH'' = SharedMountPath @ ''/oplog.ring''" "env ''CONTROL_SOCKET'' = SharedMountPath @ ''/oplog.sock''"
    "env ''STACK_ID'' = st_Name stack" "env ''HEARTBEAT_INTERVAL'' = ''10s''" "env ''POD_IP'' = fieldRef ''status.podIP''"
    "env ''WATCHDOG_SVC_NAME'' \<noteq> ''''" "env ''RESP_BIND_PORT'' = FormatInt 3321"
    "env ''OLRIC_MEMBERLIST_BIND_PORT'' = FormatInt 3322" "env ''OLRIC_ADVERTISE_PORT'' = ''''"
    "env ''OLRIC_MEMBERLIST_ADVERTISE_PORT'' = ''''"
  by (simp_all add: resolves_at [OF assms] node_container_def RESPPort_def MemberlistPort_def)

lemma sidecar_env:
  assumes "resolves fieldRef secretRef (sidecar_container stack) env"
  shows "env ''RING_PATH'' = SharedMountPath @ ''/oplog.ring''" "env ''CONTROL_SOCKET'' = SharedMountPath @ ''/oplog.sock''"
  by (simp_all add: resolves_at [OF assms] sidecar_container_def)

lemma watchdog_env:
  assumes "resolves fieldRef secretRef (hd (ps_Containers (dp_PodSpec (WatchdogDeployment stack)))) env"
  shows "env ''STACK_ID'' = st_Name stack" "env ''SUSPECT_AFTER'' = ''20s''" "env ''EXPIRE_AFTER'' = ''30s''"
    "env ''REAP_INTERVAL'' = ''15s''" "env ''BOOKWORM_INTERVAL'' = ''10s''" "env ''TOPOLOGY_LEASE_TTL'' = ''30s''"
    "env ''WATCHDOG_EPOCH_HEALTH_INTERVAL'' = ''''" "env ''WATCHDOG_EPOCH_FAILURE_THRESHOLD'' = ''''"
  by (simp_all add: resolves_at [OF assms] WatchdogDeployment_def Let_def)


definition cluster_env :: "Container \<Rightarrow> environ" where
  "cluster_env c name =
     (case map_of (ct_Env c) name of
        None \<Rightarrow> ''''
      | Some (EnvValue v) \<Rightarrow> v
      | Some (EnvField f) \<Rightarrow> ''10.0.0.1''
      | Some (EnvSecret s) \<Rightarrow> ''dsn'')"

definition literal_seconds :: "string \<Rightarrow> duration option" where
  "literal_seconds s =
     map_option (\<lambda>n. n * second) (map_of [(''10s'', 10), (''15s'', 15), (''20s'', 20), (''30s'', 30)] s)"


end
